(* ===== verification/Prelude.thy ===== *)
theory Prelude
  imports Main "HOL-Library.Word" "HOL-Library.Multiset"
begin

unbundle bit_operations_syntax

text \<open>
  Shared vocabulary of the development: the machine integers of the Rust sources, the
  outcome type of a Rust computation, a state-and-outcome calculus for the methods that
  take \<^verbatim>\<open>&mut self\<close>, checked indexing, and the generic facts on lists and words that
  the component theories use.

  \<^item> Machine integers are words of the source's width. Arithmetic wraps around, which is
    what a \<^verbatim>\<open>--release\<close> build does (\<^verbatim>\<open>Cargo.toml\<close> leaves overflow checks at their default);
    \<^verbatim>\<open>usize\<close> is taken to be 64 bits wide.
  \<^item> \<open>res\<close> has one constructor per way in which a Rust call can end: \<open>Ok\<close>, \<open>Err\<close>, a
    panic (an index out of bounds, a division by zero, a failed \<^verbatim>\<open>expect\<close>), and a loop
    that does not return.
  \<^item> \<open>exec\<close> is a method on a mutable state. The state is returned with every
    outcome, so that what an early return leaves behind stays visible.
\<close>

named_theorems exec_simps \<open>unfolding rules of the state-and-outcome calculus\<close>
named_theorems preserves_intros \<open>compositional rules for invariants of methods\<close>
named_theorems frame_intros \<open>compositional rules for methods that ignore a part of the state\<close>

section \<open>Machine integers\<close>

type_synonym u8 = "8 word"
type_synonym u32 = "32 word"
type_synonym u64 = "64 word"
type_synonym bytes = "u8 list"

lemma unat_u64_less: "unat (w :: u64) < 2 ^ 64"
proof -
  have "unat w < 2 ^ LENGTH(64)" by (rule unsigned_less)
  then show ?thesis by simp
qed

lemma unat_of_nat_u64: "k < 2 ^ 64 \<Longrightarrow> unat (of_nat k :: u64) = k"
  by (simp add: unat_of_nat take_bit_nat_eq_self)

definition saturating_sub :: "u64 \<Rightarrow> u64 \<Rightarrow> u64" where
  "saturating_sub a b = (if a < b then 0 else a - b)"

lemma unat_saturating_sub [simp]: "unat (saturating_sub a b) = unat a - unat b"
  by (auto simp: saturating_sub_def word_less_nat_alt unat_sub_if_size)

lemma saturating_sub_le: "saturating_sub a b \<le> a"
  by (simp add: word_le_nat_alt)

text \<open>The length of a vector, as \<^verbatim>\<open>len() as u64\<close> reads it.\<close>

definition len64 :: "'a list \<Rightarrow> u64" where
  "len64 xs = of_nat (length xs)"

lemma unat_len64 [simp]: "length xs < 2 ^ 64 \<Longrightarrow> unat (len64 xs) = length xs"
  by (simp add: len64_def unat_of_nat take_bit_nat_eq_self)

text \<open>Sums of machine integers that stay below the word size are sums of naturals.\<close>

lemma unat_sum_list:
  fixes ws :: "u64 list"
  assumes "sum_list (map unat ws) < 2 ^ 64"
  shows "unat (sum_list ws) = sum_list (map unat ws)"
  using assms
proof (induction ws)
  case Nil
  then show ?case by simp
next
  case (Cons w ws)
  then show ?case by (simp add: unat_word_ariths)
qed

lemma foldl_plus_word: "foldl (+) (a :: 'a :: len word) ws = a + sum_list ws"
  by (induction ws arbitrary: a) (simp_all add: add.assoc)

section \<open>Byte order\<close>

text \<open>\<^verbatim>\<open>to_le_bytes\<close> and \<^verbatim>\<open>from_le_bytes\<close> of the unsigned integer types.\<close>

definition to_le_bytes :: "'a::len word \<Rightarrow> bytes" where
  "to_le_bytes w = map (\<lambda>i. ucast (drop_bit (8 * i) w)) [0..<LENGTH('a) div 8]"

definition from_le_bytes :: "bytes \<Rightarrow> 'a::len word" where
  "from_le_bytes bs = foldr (\<lambda>b acc. ucast b OR push_bit 8 acc) bs 0"

lemma length_to_le_bytes [simp]: "length (to_le_bytes (w :: 'a::len word)) = LENGTH('a) div 8"
  by (simp add: to_le_bytes_def)

lemma bit_from_le_bytes:
  "bit (from_le_bytes bs :: 'a::len word) n \<longleftrightarrow>
     n < LENGTH('a) \<and> n div 8 < length bs \<and> bit (bs ! (n div 8)) (n mod 8)"
proof (induction bs arbitrary: n)
  case Nil
  then show ?case by (simp add: from_le_bytes_def)
next
  case (Cons b bs)
  have step: "from_le_bytes (b # bs) = (ucast b OR push_bit 8 (from_le_bytes bs) :: 'a word)"
    by (simp add: from_le_bytes_def)
  show ?case
  proof (cases "n < 8")
    case True
    then show ?thesis by (auto simp: step bit_simps)
  next
    case False
    then obtain m where m: "n = m + 8" by (metis add.commute le_Suc_ex not_less)
    have "\<not> bit b (m + 8)" by (auto dest: bit_imp_le_length)
    moreover have "(m + 8) div 8 = Suc (m div 8)" by simp
    ultimately show ?thesis by (auto simp: step bit_simps m Cons.IH)
  qed
qed

lemma from_to_le_bytes:
  assumes "LENGTH('a::len) mod 8 = 0"
  shows "from_le_bytes (to_le_bytes (w :: 'a word)) = w"
proof (rule bit_word_eqI)
  fix n assume n: "n < LENGTH('a)"
  with assms have "n < LENGTH('a) div 8 * 8" by (metis add.right_neutral div_mult_mod_eq)
  then have "n div 8 < LENGTH('a) div 8" by (rule less_mult_imp_div_less)
  then show "bit (from_le_bytes (to_le_bytes w) :: 'a word) n \<longleftrightarrow> bit w n"
    using n by (simp add: bit_from_le_bytes to_le_bytes_def bit_simps)
qed

lemma to_from_le_bytes:
  assumes "8 * length bs = LENGTH('a::len)"
  shows "to_le_bytes (from_le_bytes bs :: 'a word) = bs"
proof (rule nth_equalityI)
  show "length (to_le_bytes (from_le_bytes bs :: 'a word)) = length bs" using assms by simp
next
  fix i assume "i < length (to_le_bytes (from_le_bytes bs :: 'a word))"
  then have i: "i < length bs" using assms by simp
  show "to_le_bytes (from_le_bytes bs :: 'a word) ! i = bs ! i"
  proof (rule bit_word_eqI)
    fix n assume "n < LENGTH(8)"
    then have n: "n < 8" by simp
    with i assms have "8 * i + n < LENGTH('a)" "i < LENGTH('a) div 8" by simp_all
    with n i show "bit (to_le_bytes (from_le_bytes bs :: 'a word) ! i) n = bit (bs ! i) n"
      by (simp add: to_le_bytes_def bit_simps bit_from_le_bytes)
  qed
qed

text \<open>The range \<^verbatim>\<open>a..b\<close> of 64-bit integers.\<close>

definition range64 :: "u64 \<Rightarrow> u64 \<Rightarrow> u64 list" where
  "range64 a b = map of_nat [unat a..<unat b]"

lemma set_range64 [simp]: "set (range64 a b) = {i. a \<le> i \<and> i < b}"
proof
  show "set (range64 a b) \<subseteq> {i. a \<le> i \<and> i < b}"
  proof
    fix i assume "i \<in> set (range64 a b)"
    then obtain k where k: "unat a \<le> k" "k < unat b" "i = of_nat k"
      by (auto simp: range64_def)
    moreover have "unat i = k"
      using k unat_u64_less [of b] by (simp add: unat_of_nat_u64)
    ultimately show "i \<in> {i. a \<le> i \<and> i < b}"
      by (simp add: word_le_nat_alt word_less_nat_alt)
  qed
next
  show "{i. a \<le> i \<and> i < b} \<subseteq> set (range64 a b)"
    by (force simp: range64_def word_le_nat_alt word_less_nat_alt image_iff)
qed

lemma length_range64 [simp]: "length (range64 a b) = unat b - unat a"
  by (simp add: range64_def)

text \<open>Consecutive segments of an index range, joined.\<close>

lemma concat_upt_segments:
  assumes "\<And>k. b k \<le> (b (Suc k) :: nat)"
  shows "concat (map (\<lambda>k. map f [b k..<b (Suc k)]) [0..<c]) = map f [b 0..<b c]"
proof (induction c)
  case (Suc c)
  have "b 0 \<le> b c" using lift_Suc_mono_le [of b 0 c] assms by simp
  then have "[b 0..<b (Suc c)] = [b 0..<b c] @ [b c..<b (Suc c)]"
    using upt_add_eq_append [of "b 0" "b c" "b (Suc c) - b c"] assms [of c] by simp
  with Suc show ?case by simp
qed simp

lemma concat_map_blocks:
  "concat (map (\<lambda>j. map (\<lambda>i. g (j * K + i)) [0..<K]) [0..<S]) = map g [0..<S * (K::nat)]"
proof (induction S)
  case (Suc S)
  have "[0..<Suc S * K] = [0..<S * K] @ [S * K..<S * K + K]"
    using upt_add_eq_append [of 0 "S * K" K] by (simp add: add.commute)
  moreover have "map (\<lambda>i. g (S * K + i)) [0..<K] = map g [S * K..<S * K + K]"
    by (rule nth_equalityI) simp_all
  ultimately show ?case using Suc by simp
qed simp

lemma range64_shift:
  assumes "unat a + unat n < 2 ^ 64"
  shows "range64 a (a + n) = map (\<lambda>j. a + of_nat j) [0..<unat n]"
proof -
  have "unat (a + n) = unat a + unat n" using assms by (simp add: unat_word_ariths)
  then show ?thesis
    by (intro nth_equalityI) (simp_all add: range64_def)
qed

lemma foldl_max_ge: "a \<le> foldl max a xs" "x \<in> set xs \<Longrightarrow> x \<le> foldl max (a :: 'a :: linorder) xs"
proof -
  have *: "a \<le> foldl max a xs" for a :: 'a
    by (induction xs arbitrary: a) (auto intro: order_trans [OF max.cobounded1])
  then show "a \<le> foldl max a xs" .
  have **: "a \<le> foldl max a ys" for a :: 'a and ys
    by (induction ys arbitrary: a) (auto intro: order_trans [OF max.cobounded1])
  show "x \<in> set xs \<Longrightarrow> x \<le> foldl max a xs"
  proof (induction xs arbitrary: a)
    case (Cons y ys)
    then show ?case using ** [of "max a y" ys] by auto
  qed simp
qed

lemma foldl_max_le: "a \<le> m \<Longrightarrow> (\<And>x. x \<in> set xs \<Longrightarrow> x \<le> m) \<Longrightarrow> foldl max (a :: 'a :: linorder) xs \<le> m"
  by (induction xs arbitrary: a) simp_all

lemma length_filter_update:
  assumes "i < length xs"
  shows "length (filter P (xs[i := v])) + (if P (xs ! i) then 1 else 0) =
    length (filter P xs) + (if P v then 1 else 0)"
  using assms
proof (induction xs arbitrary: i)
  case (Cons x xs)
  then show ?case by (cases i) (auto simp: nth_Cons')
qed simp

lemma sum_list_update_nat:
  assumes "i < length xs"
  shows "sum_list (map f (xs[i := v])) + f (xs ! i) = sum_list (map f xs) + (f v :: nat)"
  using assms
proof (induction xs arbitrary: i)
  case (Cons x xs)
  then show ?case by (cases i) auto
qed simp

lemma nth_le_sum_list: "i < length xs \<Longrightarrow> f (xs ! i) \<le> sum_list (map f xs :: nat list)"
  by (simp add: member_le_sum_list)

lemma distinct_range64 [simp]: "distinct (range64 a b)"
  unfolding range64_def distinct_map
  by (auto intro!: inj_on_inverseI [where g = unat] unat_of_nat_u64 order_less_trans [OF _ unat_u64_less])

section \<open>Outcomes\<close>

datatype ('e, 'a) res = Ok 'a | Err 'e | Panic | Diverge

primrec rbind :: "('e, 'a) res \<Rightarrow> ('a \<Rightarrow> ('e, 'b) res) \<Rightarrow> ('e, 'b) res" where
  "rbind (Ok x) f = f x"
| "rbind (Err e) f = Err e"
| "rbind Panic f = Panic"
| "rbind Diverge f = Diverge"

definition is_ok :: "('e, 'a) res \<Rightarrow> bool" where
  "is_ok r = (case r of Ok _ \<Rightarrow> True | _ \<Rightarrow> False)"

lemma is_ok_simps [simp]:
  "is_ok (Ok x)" "\<not> is_ok (Err e)" "\<not> is_ok Panic" "\<not> is_ok Diverge"
  by (simp_all add: is_ok_def)

lemma is_ok_iff: "is_ok r \<longleftrightarrow> (\<exists>x. r = Ok x)"
  by (cases r) simp_all

lemma rbind_eq_Ok [simp]: "rbind m f = Ok y \<longleftrightarrow> (\<exists>x. m = Ok x \<and> f x = Ok y)"
  by (cases m) simp_all

lemma rbind_eq_Err: "rbind m f = Err e \<longleftrightarrow> m = Err e \<or> (\<exists>x. m = Ok x \<and> f x = Err e)"
  by (cases m) simp_all

lemma rbind_Ok_right [simp]: "rbind m Ok = m"
  by (cases m) simp_all

lemma rbind_assoc: "rbind (rbind m f) g = rbind m (\<lambda>x. rbind (f x) g)"
  by (cases m) simp_all

lemma rbind_cong [fundef_cong]:
  "m = m' \<Longrightarrow> (\<And>x. m' = Ok x \<Longrightarrow> f x = g x) \<Longrightarrow> rbind m f = rbind m' g"
  by (cases m') simp_all

text \<open>\<^verbatim>\<open>iter().map(f).collect::<Result<Vec<_>, _>>()\<close>: the first failure, or all results.\<close>

primrec collect_res :: "('a \<Rightarrow> ('e, 'b) res) \<Rightarrow> 'a list \<Rightarrow> ('e, 'b list) res" where
  "collect_res f [] = Ok []"
| "collect_res f (x # xs) =
     rbind (f x) (\<lambda>y. rbind (collect_res f xs) (\<lambda>ys. Ok (y # ys)))"

lemma collect_res_Ok:
  "collect_res f xs = Ok ys \<longleftrightarrow> list_all2 (\<lambda>x y. f x = Ok y) xs ys"
  by (induction xs arbitrary: ys) (auto simp: list_all2_Cons1)

lemma collect_res_all_Ok: "(\<And>x. x \<in> set xs \<Longrightarrow> f x = Ok (g x)) \<Longrightarrow> collect_res f xs = Ok (map g xs)"
  by (induction xs) simp_all

lemma collect_res_member: "collect_res f xs = Ok ys \<Longrightarrow> y \<in> set ys \<Longrightarrow> \<exists>x\<in>set xs. f x = Ok y"
  by (induction xs arbitrary: ys) (auto simp: rbind_eq_Ok)

lemma collect_res_cong [fundef_cong]:
  "xs = ys \<Longrightarrow> (\<And>x. x \<in> set ys \<Longrightarrow> f x = g x) \<Longrightarrow> collect_res f xs = collect_res g ys"
  by (induction xs arbitrary: ys) auto

lemma collect_res_map: "collect_res f (map g xs) = collect_res (\<lambda>x. f (g x)) xs"
  by (induction xs) simp_all

text \<open>Indexing a vector: out of bounds is a panic.\<close>

definition vec_index :: "'a list \<Rightarrow> u64 \<Rightarrow> ('e, 'a) res" where
  "vec_index xs i = (if unat i < length xs then Ok (xs ! unat i) else Panic)"

lemma vec_index_eq_Ok [simp]: "vec_index xs i = Ok x \<longleftrightarrow> unat i < length xs \<and> x = xs ! unat i"
  by (auto simp: vec_index_def)

lemma vec_index_neq_Err [simp]: "vec_index xs i \<noteq> Err e" "vec_index xs i \<noteq> Diverge"
  by (simp_all add: vec_index_def)

lemma vec_index_in_range: "unat i < length xs \<Longrightarrow> vec_index xs i = Ok (xs ! unat i)"
  by (simp add: vec_index_def)

text \<open>Integer division by a divisor that is not a compile-time constant.\<close>

definition div_checked :: "u64 \<Rightarrow> u64 \<Rightarrow> ('e, u64) res" where
  "div_checked a b = (if b = 0 then Panic else Ok (a div b))"

lemma div_checked_eq_Ok [simp]: "div_checked a b = Ok c \<longleftrightarrow> b \<noteq> 0 \<and> c = a div b"
  by (auto simp: div_checked_def)

text \<open>A loop that may return early with an error.\<close>

fun fold_res :: "('a \<Rightarrow> 'b \<Rightarrow> ('e, 'b) res) \<Rightarrow> 'a list \<Rightarrow> 'b \<Rightarrow> ('e, 'b) res" where
  "fold_res f [] acc = Ok acc"
| "fold_res f (x # xs) acc = rbind (f x acc) (fold_res f xs)"

text \<open>A loop as a partial function: no result is divergence.\<close>

definition or_diverge :: "('e, 'a) res option \<Rightarrow> ('e, 'a) res" where
  "or_diverge r = (case r of Some x \<Rightarrow> x | None \<Rightarrow> Diverge)"

text \<open>\<^verbatim>\<open>Result::map_err\<close> and \<^verbatim>\<open>Result::unwrap\<close>.\<close>

fun map_err :: "('e \<Rightarrow> 'f) \<Rightarrow> ('e, 'a) res \<Rightarrow> ('f, 'a) res" where
  "map_err f (Ok x) = Ok x"
| "map_err f (Err e) = Err (f e)"
| "map_err f Panic = Panic"
| "map_err f Diverge = Diverge"

fun unwrap :: "('e, 'a) res \<Rightarrow> ('f, 'a) res" where
  "unwrap (Ok x) = Ok x"
| "unwrap (Err _) = Panic"
| "unwrap Panic = Panic"
| "unwrap Diverge = Diverge"

lemma map_err_eq_Ok: "map_err f r = Ok x \<longleftrightarrow> r = Ok x"
  by (cases r) simp_all

lemma unwrap_eq_Ok: "unwrap r = Ok x \<longleftrightarrow> r = Ok x"
  by (cases r) simp_all

section \<open>Methods on a mutable state\<close>

type_synonym ('s, 'e, 'a) exec = "'s \<Rightarrow> ('e, 'a) res \<times> 's"

definition eret :: "'a \<Rightarrow> ('s, 'e, 'a) exec" where
  "eret x = (\<lambda>s. (Ok x, s))"

definition efail :: "'e \<Rightarrow> ('s, 'e, 'a) exec" where
  "efail e = (\<lambda>s. (Err e, s))"

text \<open>\<open>eget\<close> evaluates an expression that only reads the state; \<open>emod\<close> assigns.\<close>

definition eget :: "('s \<Rightarrow> ('e, 'a) res) \<Rightarrow> ('s, 'e, 'a) exec" where
  "eget f = (\<lambda>s. (f s, s))"

definition emod :: "('s \<Rightarrow> 's) \<Rightarrow> ('s, 'e, unit) exec" where
  "emod f = (\<lambda>s. (Ok (), f s))"

definition ebind :: "('s, 'e, 'a) exec \<Rightarrow> ('a \<Rightarrow> ('s, 'e, 'b) exec) \<Rightarrow> ('s, 'e, 'b) exec" where
  "ebind m f = (\<lambda>s. case m s of
      (Ok x, s') \<Rightarrow> f x s'
    | (Err e, s') \<Rightarrow> (Err e, s')
    | (Panic, s') \<Rightarrow> (Panic, s')
    | (Diverge, s') \<Rightarrow> (Diverge, s'))"

definition eseq :: "('s, 'e, unit) exec \<Rightarrow> ('s, 'e, 'b) exec \<Rightarrow> ('s, 'e, 'b) exec" where
  "eseq m k = ebind m (\<lambda>_. k)"

text \<open>\<^verbatim>\<open>if !c { return Err(e) }\<close>\<close>

definition ensure :: "('s \<Rightarrow> bool) \<Rightarrow> 'e \<Rightarrow> ('s, 'e, unit) exec" where
  "ensure c e = (\<lambda>s. if c s then (Ok (), s) else (Err e, s))"

text \<open>\<^verbatim>\<open>for x in xs { body }\<close>\<close>

primrec for_each :: "'a list \<Rightarrow> ('a \<Rightarrow> ('s, 'e, unit) exec) \<Rightarrow> ('s, 'e, unit) exec" where
  "for_each [] body = eret ()"
| "for_each (x # xs) body = eseq (body x) (for_each xs body)"

lemma ebind_cong [fundef_cong]:
  "m s = m' s' \<Longrightarrow> (\<And>x t. m' s' = (Ok x, t) \<Longrightarrow> f x t = g x t) \<Longrightarrow> ebind m f s = ebind m' g s'"
  by (auto simp: ebind_def split: prod.splits res.splits)

lemma exec_apply [exec_simps]:
  "eret x s = (Ok x, s)"
  "efail e s = (Err e, s)"
  "eget f s = (f s, s)"
  "emod g s = (Ok (), g s)"
  "ensure c e s = (if c s then (Ok (), s) else (Err e, s))"
  by (simp_all add: eret_def efail_def eget_def emod_def ensure_def)

lemma ebind_apply [exec_simps]:
  "m s = (Ok x, s') \<Longrightarrow> ebind m f s = f x s'"
  "m s = (Err e, s') \<Longrightarrow> ebind m f s = (Err e, s')"
  "m s = (Panic, s') \<Longrightarrow> ebind m f s = (Panic, s')"
  "m s = (Diverge, s') \<Longrightarrow> ebind m f s = (Diverge, s')"
  by (simp_all add: ebind_def)

lemma eseq_emod [exec_simps]: "eseq (emod g) k s = k (g s)" "ebind (emod g) f s = f () (g s)"
  by (simp_all add: eseq_def ebind_def emod_def)

lemma ebind_eget:
  "ebind (eget f) k s =
     (case f s of Ok x \<Rightarrow> k x s | Err e \<Rightarrow> (Err e, s) | Panic \<Rightarrow> (Panic, s) | Diverge \<Rightarrow> (Diverge, s))"
  by (simp add: ebind_def eget_def split: res.splits)

lemma eseq_run: "m s = (Ok (), s') \<Longrightarrow> eseq m k s = k s'"
  by (simp add: eseq_def ebind_def)

text \<open>A method run on a local variable of its caller.\<close>

definition run_local :: "('s, 'e, unit) exec \<Rightarrow> 's \<Rightarrow> ('e, 's) res" where
  "run_local m x = (case m x of
     (Ok _, y) \<Rightarrow> Ok y | (Err e, _) \<Rightarrow> Err e | (Panic, _) \<Rightarrow> Panic | (Diverge, _) \<Rightarrow> Diverge)"

lemma run_local_Ok: "run_local m x = Ok y \<longleftrightarrow> (\<exists>u. m x = (Ok u, y))"
  by (auto simp: run_local_def split: prod.splits res.splits)

lemma ebind_eq_Ok:
  "ebind m f s = (Ok y, t) \<longleftrightarrow> (\<exists>x s'. m s = (Ok x, s') \<and> f x s' = (Ok y, t))"
  by (auto simp: ebind_def split: prod.splits res.splits)

lemma ebind_eq_Err:
  "ebind m f s = (Err e, t) \<longleftrightarrow>
     m s = (Err e, t) \<or> (\<exists>x s'. m s = (Ok x, s') \<and> f x s' = (Err e, t))"
  by (auto simp: ebind_def split: prod.splits res.splits)

lemma eseq_eq_Ok:
  "eseq m k s = (Ok y, t) \<longleftrightarrow> (\<exists>s'. m s = (Ok (), s') \<and> k s' = (Ok y, t))"
  by (auto simp: eseq_def ebind_eq_Ok)

lemma eseq_eq_Err:
  "eseq m k s = (Err e, t) \<longleftrightarrow> m s = (Err e, t) \<or> (\<exists>s'. m s = (Ok (), s') \<and> k s' = (Err e, t))"
  by (auto simp: eseq_def ebind_eq_Err)

lemma eget_eq [simp]:
  "eget f s = (r, t) \<longleftrightarrow> f s = r \<and> t = s"
  by (auto simp: eget_def)

lemma emod_eq [simp]: "emod g s = (r, t) \<longleftrightarrow> r = Ok () \<and> t = g s"
  by (auto simp: emod_def)

lemma eret_eq [simp]: "eret x s = (r, t) \<longleftrightarrow> r = Ok x \<and> t = s"
  by (auto simp: eret_def)

lemma efail_eq [simp]: "efail e s = (r, t) \<longleftrightarrow> r = Err e \<and> t = s"
  by (auto simp: efail_def)

lemma ensure_eq_Ok [simp]: "ensure c e s = (Ok u, t) \<longleftrightarrow> c s \<and> t = s"
  by (auto simp: ensure_def)

lemma ensure_eq_Err [simp]: "ensure c e s = (Err e', t) \<longleftrightarrow> \<not> c s \<and> e' = e \<and> t = s"
  by (auto simp: ensure_def)

lemmas exec_ok = ebind_eq_Ok eseq_eq_Ok
lemmas exec_err = ebind_eq_Err eseq_eq_Err

lemma for_each_append:
  "for_each (xs @ ys) body = eseq (for_each xs body) (for_each ys body)"
proof (induction xs)
  case Nil
  then show ?case by (rule ext) (simp add: eseq_def ebind_def eret_def)
next
  case (Cons x xs)
  then show ?case
    by (auto simp: fun_eq_iff eseq_def ebind_def split: prod.splits res.splits)
qed

lemma for_each_map: "for_each (map h xs) f = for_each xs (\<lambda>x. f (h x))"
  by (induction xs) simp_all

lemma eseq_ret: "eseq (eret ()) k = k"
  by (rule ext) (simp add: eseq_run eret_def)

lemma for_each_filter: "for_each (filter P xs) f = for_each xs (\<lambda>x. if P x then f x else eret ())"
proof (induction xs)
  case (Cons x xs)
  then show ?case by (simp add: eseq_ret)
qed simp

lemma eseq_assoc: "eseq (eseq e f) g = eseq e (eseq f g)"
  by (rule ext) (auto simp: eseq_def ebind_def split: prod.split res.split)

subsection \<open>Invariants of methods\<close>

text \<open>\<open>preserves I m\<close>: whatever its outcome, \<open>m\<close> leaves a state satisfying \<open>I\<close> behind.\<close>

definition preserves :: "('s \<Rightarrow> bool) \<Rightarrow> ('s, 'e, 'a) exec \<Rightarrow> bool" where
  "preserves I m \<longleftrightarrow> (\<forall>s. I s \<longrightarrow> I (snd (m s)))"

lemma preservesD: "preserves I m \<Longrightarrow> I s \<Longrightarrow> m s = (r, t) \<Longrightarrow> I t"
  by (metis preserves_def snd_conv)

lemma preserves_eret [preserves_intros]: "preserves I (eret x)"
  by (simp add: preserves_def eret_def)

lemma preserves_efail [preserves_intros]: "preserves I (efail e)"
  by (simp add: preserves_def efail_def)

lemma preserves_eget [preserves_intros]: "preserves I (eget f)"
  by (simp add: preserves_def eget_def)

lemma preserves_ensure [preserves_intros]: "preserves I (ensure c e)"
  by (simp add: preserves_def ensure_def)

lemma preserves_emod: "(\<And>s. I s \<Longrightarrow> I (f s)) \<Longrightarrow> preserves I (emod f)"
  by (simp add: preserves_def emod_def)

text \<open>A read followed by writes that depend on the value read.\<close>

lemma preserves_eget_bind:
  "(\<And>s x. I s \<Longrightarrow> f s = Ok x \<Longrightarrow> I (snd (k x s))) \<Longrightarrow> preserves I (ebind (eget f) k)"
  by (simp add: preserves_def ebind_eget split: res.splits)

lemma preserves_ebind [preserves_intros]:
  "preserves I m \<Longrightarrow> (\<And>x. preserves I (f x)) \<Longrightarrow> preserves I (ebind m f)"
  by (fastforce simp: preserves_def ebind_def split: prod.splits res.splits)

lemma preserves_eseq [preserves_intros]:
  "preserves I m \<Longrightarrow> preserves I k \<Longrightarrow> preserves I (eseq m k)"
  unfolding eseq_def by (rule preserves_ebind)

lemma preserves_eseq_at: "I (snd (m s)) \<Longrightarrow> preserves I k \<Longrightarrow> I (snd (eseq m k s))"
  by (auto simp: preserves_def eseq_def ebind_def split: prod.splits res.splits)

lemma preserves_case_prod [preserves_intros]:
  "(\<And>a b. preserves I (f a b)) \<Longrightarrow> preserves I (case p of (a, b) \<Rightarrow> f a b)"
  by (cases p) simp


lemma preserves_for_each [preserves_intros]:
  "(\<And>x. x \<in> set xs \<Longrightarrow> preserves I (body x)) \<Longrightarrow> preserves I (for_each xs body)"
  by (induction xs) (auto intro: preserves_eret preserves_eseq)

lemma preserves_if [preserves_intros]:
  "preserves I m \<Longrightarrow> preserves I k \<Longrightarrow> preserves I (if b then m else k)"
  by simp

lemma preserves_option [preserves_intros]:
  "preserves I m \<Longrightarrow> (\<And>x. preserves I (k x)) \<Longrightarrow> preserves I (case v of None \<Rightarrow> m | Some x \<Rightarrow> k x)"
  by (cases v) simp_all

subsection \<open>Methods that do not touch a part of the state\<close>

text \<open>
  \<open>unaffected u m\<close>: \<open>m\<close> commutes with the update \<open>u\<close> and returns the same outcome after it.
  With \<open>u\<close> an assignment to a field, \<open>m\<close> neither reads nor writes that field.
\<close>

definition unaffected :: "('s \<Rightarrow> 's) \<Rightarrow> ('s, 'e, 'a) exec \<Rightarrow> bool" where
  "unaffected u m \<longleftrightarrow> (\<forall>s. m (u s) = map_prod id u (m s))"

lemma unaffectedD: "unaffected u m \<Longrightarrow> m s = (r, t) \<Longrightarrow> m (u s) = (r, u t)"
  by (simp add: unaffected_def)

lemma unaffected_eret [frame_intros]: "unaffected u (eret x)"
  by (simp add: unaffected_def eret_def)

lemma unaffected_efail [frame_intros]: "unaffected u (efail x)"
  by (simp add: unaffected_def efail_def)

lemma unaffected_eget: "(\<And>s. f (u s) = f s) \<Longrightarrow> unaffected u (eget f)"
  by (simp add: unaffected_def eget_def)

lemma unaffected_ensure: "(\<And>s. c (u s) = c s) \<Longrightarrow> unaffected u (ensure c e)"
  by (simp add: unaffected_def ensure_def)

lemma unaffected_emod: "(\<And>s. f (u s) = u (f s)) \<Longrightarrow> unaffected u (emod f)"
  by (simp add: unaffected_def emod_def)

lemma unaffected_ebind [frame_intros]:
  "unaffected u m \<Longrightarrow> (\<And>x. unaffected u (f x)) \<Longrightarrow> unaffected u (ebind m f)"
  by (auto simp: unaffected_def ebind_def split: prod.splits res.splits)

lemma unaffected_eseq [frame_intros]: "unaffected u m \<Longrightarrow> unaffected u k \<Longrightarrow> unaffected u (eseq m k)"
  unfolding eseq_def by (rule unaffected_ebind)

lemma unaffected_if [frame_intros]: "unaffected u m \<Longrightarrow> unaffected u k \<Longrightarrow> unaffected u (if b then m else k)"
  by simp

lemma unaffected_for_each [frame_intros]:
  "(\<And>x. x \<in> set xs \<Longrightarrow> unaffected u (body x)) \<Longrightarrow> unaffected u (for_each xs body)"
  by (induction xs) (auto intro: unaffected_eret unaffected_eseq)

subsection \<open>Methods that leave the state alone when they fail\<close>

definition atomic :: "('s, 'e, 'a) exec \<Rightarrow> bool" where
  "atomic m \<longleftrightarrow> (\<forall>s e t. m s = (Err e, t) \<longrightarrow> t = s)"

lemma atomicD: "atomic m \<Longrightarrow> m s = (Err e, t) \<Longrightarrow> t = s"
  by (auto simp: atomic_def)

end
