(* ===== verification/Beacon_Types.thy ===== *)
theory Beacon_Types
  imports Prelude
begin

text \<open>
  The data of the \<^verbatim>\<open>beacon\<close> crate: its constants (\<^verbatim>\<open>consts.rs\<close>), its error type
  (\<^verbatim>\<open>error.rs\<close>), the containers of \<^verbatim>\<open>types/misc.rs\<close>, \<^verbatim>\<open>types/operation.rs\<close> and
  \<^verbatim>\<open>types/block.rs\<close>, and \<^verbatim>\<open>BeaconState\<close> of \<^verbatim>\<open>executive/mod.rs\<close>.

  A Rust struct is a record with the same fields in the same order. Isabelle's field names are
  global, so a field name that several structs share carries a short prefix. Fixed hashes
  (\<^verbatim>\<open>H256\<close>, \<^verbatim>\<open>ValidatorId\<close>, \<^verbatim>\<open>Signature\<close>, \<^verbatim>\<open>Version\<close>) are byte lists, \<^verbatim>\<open>MaxVec\<close> and \<^verbatim>\<open>VecArray\<close> are
  lists; the lengths that Rust fixes in the type are part of the state invariant.
\<close>

section \<open>Primitive types\<close>

type_synonym H256 = bytes
type_synonym ValidatorId = bytes
type_synonym Signature = bytes
type_synonym Version = bytes
type_synonym Uint = u64
type_synonym Epoch = u64
type_synonym Slot = u64
type_synonym ValidatorIndex = u64
type_synonym Gwei = u64

definition H256_default :: H256 where
  "H256_default = replicate 32 0"

definition ValidatorId_default :: ValidatorId where
  "ValidatorId_default = replicate 48 0"

definition Signature_default :: Signature where
  "Signature_default = replicate 96 0"

definition Version_default :: Version where
  "Version_default = replicate 4 0"

section \<open>Constants\<close>

definition FAR_FUTURE_EPOCH :: Uint where
  "FAR_FUTURE_EPOCH = - 1"

definition BASE_REWARDS_PER_EPOCH :: Uint where
  "BASE_REWARDS_PER_EPOCH = 4"

definition DEPOSIT_CONTRACT_TREE_DEPTH :: Uint where
  "DEPOSIT_CONTRACT_TREE_DEPTH = 32"

definition SECONDS_PER_DAY :: Uint where
  "SECONDS_PER_DAY = 86400"

definition JustificationBitsLength :: nat where
  "JustificationBitsLength = 4"

lemma FAR_FUTURE_EPOCH_max [simp]: "e \<le> FAR_FUTURE_EPOCH"
  by (simp add: FAR_FUTURE_EPOCH_def)

lemma unat_FAR_FUTURE_EPOCH: "unat FAR_FUTURE_EPOCH = 2 ^ 64 - 1"
  by (simp add: FAR_FUTURE_EPOCH_def unsigned_minus_1_eq_mask mask_eq_exp_minus_1)

lemma not_FAR_FUTURE_EPOCH_less [simp]: "\<not> FAR_FUTURE_EPOCH < e"
  by (simp add: linorder_not_less)

lemma less_FAR_FUTURE_EPOCH_iff: "e < FAR_FUTURE_EPOCH \<longleftrightarrow> e \<noteq> FAR_FUTURE_EPOCH"
  by (metis FAR_FUTURE_EPOCH_max order_less_le)

section \<open>Errors\<close>

datatype error =
    DepositIndexMismatch
  | DepositMerkleInvalid
  | DepositProofInvalid
  | DepositWithdrawalCredentialsMismatch
  | DuplicateIndexes
  | DuplicateTransfer
  | IndexOutOfRange
  | EpochOutOfRange
  | SlotOutOfRange
  | AttestationShardInvalid
  | AttestationBitFieldInvalid
  | ValidatorNotWithdrawable
  | ValidatorAttestationNotFound
  | BlockStateRootInvalid
  | BlockSlotInvalid
  | BlockProposerSlashed
  | BlockPreviousRootInvalid
  | BlockSignatureInvalid
  | RandaoSignatureInvalid
  | ProposerSlashingInvalidProposerIndex
  | ProposerSlashingInvalidSlot
  | ProposerSlashingSameHeader
  | ProposerSlashingAlreadySlashed
  | ProposerSlashingInvalidSignature
  | AttesterSlashingSameAttestation
  | AttesterSlashingNotSlashable
  | AttesterSlashingInvalid
  | AttesterSlashingEmptyIndices
  | AttestationTooFarInHistory
  | AttestationSubmittedTooQuickly
  | AttestationIncorrectJustifiedEpochOrBlockRoot
  | AttestationIncorrectCrosslinkData
  | AttestationEmptyAggregation
  | AttestationEmptyCustody
  | AttestationInvalidData
  | AttestationInvalidShard
  | AttestationInvalidCustody
  | AttestationInvalidSignature
  | AttestationInvalidCrosslink
  | VoluntaryExitAlreadyExited
  | VoluntaryExitAlreadyInitiated
  | VoluntaryExitNotYetValid
  | VoluntaryExitNotLongEnough
  | VoluntaryExitInvalidSignature
  | TransferNoFund
  | TransferNotValidSlot
  | TransferNotWithdrawable
  | TransferInvalidPublicKey
  | TransferInvalidSignature
  | TooManyProposerSlashings
  | TooManyAttesterSlashings
  | TooManyAttestations
  | TooManyDeposits
  | TooManyVoluntaryExits
  | TooManyTransfers
  | InvalidEth1Data

type_synonym 'a result = "(error, 'a) res"

section \<open>Containers of types/misc.rs\<close>

record Fork =
  previous_version :: Version
  current_version :: Version
  fork_epoch :: Uint

record Checkpoint =
  epoch :: Uint
  root :: H256

record Validator =
  pubkey :: ValidatorId
  withdrawal_credentials :: H256
  effective_balance :: Uint
  slashed :: bool
  activation_eligibility_epoch :: Uint
  activation_epoch :: Uint
  exit_epoch :: Uint
  withdrawable_epoch :: Uint

definition is_active :: "Validator \<Rightarrow> Uint \<Rightarrow> bool" where
  "is_active v e \<longleftrightarrow> activation_epoch v \<le> e \<and> e < exit_epoch v"

definition is_slashable_validator :: "Validator \<Rightarrow> Uint \<Rightarrow> bool" where
  "is_slashable_validator v e \<longleftrightarrow>
     slashed v = False \<and> activation_epoch v \<le> e \<and> e < withdrawable_epoch v"

definition is_eligible :: "Validator \<Rightarrow> Checkpoint \<Rightarrow> bool" where
  "is_eligible v cp \<longleftrightarrow>
     is_active v (epoch cp) \<or> (slashed v \<and> epoch cp + 1 < withdrawable_epoch v)"

record AttestationData =
  ad_slot :: Uint
  ad_index :: Uint
  beacon_block_root :: H256
  source :: Checkpoint
  target :: Checkpoint

definition is_slashable :: "AttestationData \<Rightarrow> AttestationData \<Rightarrow> bool" where
  "is_slashable a b \<longleftrightarrow>
     (a \<noteq> b \<and> epoch (target a) = epoch (target b)) \<or>
     (epoch (source a) < epoch (source b) \<and> epoch (target b) < epoch (target a))"

record AttestationDataAndCustodyBit =
  adc_data :: AttestationData
  custody_bit :: bool

record IndexedAttestation =
  custody_bit_0_indices :: "Uint list"
  custody_bit_1_indices :: "Uint list"
  ia_data :: AttestationData
  ia_signature :: Signature

record SigningIndexedAttestation =
  sia_custody_bit_0_indices :: "Uint list"
  sia_custody_bit_1_indices :: "Uint list"
  sia_data :: AttestationData

definition signing_indexed_attestation :: "IndexedAttestation \<Rightarrow> SigningIndexedAttestation" where
  "signing_indexed_attestation i = \<lparr>
     sia_custody_bit_0_indices = custody_bit_0_indices i,
     sia_custody_bit_1_indices = custody_bit_1_indices i,
     sia_data = ia_data i\<rparr>"

record PendingAttestation =
  pa_aggregation_bits :: "bool list"
  pa_data :: AttestationData
  inclusion_delay :: Uint
  pa_proposer_index :: Uint

record Eth1Data =
  deposit_root :: H256
  deposit_count :: Uint
  block_hash :: H256

record HistoricalBatch =
  hb_block_roots :: "H256 list"
  hb_state_roots :: "H256 list"

record DepositData =
  dd_pubkey :: ValidatorId
  dd_withdrawal_credentials :: H256
  dd_amount :: Uint
  dd_signature :: Signature

record SigningDepositData =
  sdd_pubkey :: ValidatorId
  sdd_withdrawal_credentials :: H256
  sdd_amount :: Uint

definition signing_deposit_data :: "DepositData \<Rightarrow> SigningDepositData" where
  "signing_deposit_data d = \<lparr>
     sdd_pubkey = dd_pubkey d,
     sdd_withdrawal_credentials = dd_withdrawal_credentials d,
     sdd_amount = dd_amount d\<rparr>"

record BeaconBlockHeader =
  bh_slot :: Uint
  bh_parent_root :: H256
  bh_state_root :: H256
  bh_body_root :: H256
  bh_signature :: Signature

record SigningBeaconBlockHeader =
  sbh_slot :: Uint
  sbh_parent_root :: H256
  sbh_state_root :: H256
  sbh_body_root :: H256

definition signing_header :: "BeaconBlockHeader \<Rightarrow> SigningBeaconBlockHeader" where
  "signing_header h = \<lparr>
     sbh_slot = bh_slot h,
     sbh_parent_root = bh_parent_root h,
     sbh_state_root = bh_state_root h,
     sbh_body_root = bh_body_root h\<rparr>"

section \<open>Containers of types/operation.rs\<close>

record ProposerSlashing =
  ps_proposer_index :: Uint
  header_1 :: BeaconBlockHeader
  header_2 :: BeaconBlockHeader

record AttesterSlashing =
  attestation_1 :: IndexedAttestation
  attestation_2 :: IndexedAttestation

record Attestation =
  aggregation_bits :: "bool list"
  at_data :: AttestationData
  custody_bits :: "bool list"
  at_signature :: Signature

record SigningAttestation =
  sa_aggregation_bits :: "bool list"
  sa_data :: AttestationData
  sa_custody_bits :: "bool list"

definition signing_attestation :: "Attestation \<Rightarrow> SigningAttestation" where
  "signing_attestation a = \<lparr>
     sa_aggregation_bits = aggregation_bits a,
     sa_data = at_data a,
     sa_custody_bits = custody_bits a\<rparr>"

record Deposit =
  proof_branch :: "H256 list"
  dep_data :: DepositData

record VoluntaryExit =
  ve_epoch :: Uint
  ve_validator_index :: Uint
  ve_signature :: Signature

record SigningVoluntaryExit =
  sve_epoch :: Uint
  sve_validator_index :: Uint

definition signing_voluntary_exit :: "VoluntaryExit \<Rightarrow> SigningVoluntaryExit" where
  "signing_voluntary_exit v = \<lparr>
     sve_epoch = ve_epoch v,
     sve_validator_index = ve_validator_index v\<rparr>"

section \<open>Blocks\<close>

record BeaconBlockBody =
  randao_reveal :: Signature
  body_eth1_data :: Eth1Data
  graffiti :: H256
  proposer_slashings :: "ProposerSlashing list"
  attester_slashings :: "AttesterSlashing list"
  attestations :: "Attestation list"
  deposits :: "Deposit list"
  voluntary_exits :: "VoluntaryExit list"

record BeaconBlock =
  bb_slot :: Uint
  bb_parent_root :: H256
  bb_state_root :: H256
  bb_body :: BeaconBlockBody
  bb_signature :: Signature

record UnsealedBeaconBlock =
  ub_slot :: Uint
  ub_parent_root :: H256
  ub_state_root :: H256
  ub_body :: BeaconBlockBody

text \<open>The two implementations of the trait \<^verbatim>\<open>Block\<close>.\<close>

datatype Block = Sealed BeaconBlock | Unsealed UnsealedBeaconBlock

fun block_slot :: "Block \<Rightarrow> Uint" where
  "block_slot (Sealed b) = bb_slot b"
| "block_slot (Unsealed b) = ub_slot b"

fun block_parent_root :: "Block \<Rightarrow> H256" where
  "block_parent_root (Sealed b) = bb_parent_root b"
| "block_parent_root (Unsealed b) = ub_parent_root b"

fun block_state_root :: "Block \<Rightarrow> H256" where
  "block_state_root (Sealed b) = bb_state_root b"
| "block_state_root (Unsealed b) = ub_state_root b"

fun block_body :: "Block \<Rightarrow> BeaconBlockBody" where
  "block_body (Sealed b) = bb_body b"
| "block_body (Unsealed b) = ub_body b"

fun block_signature :: "Block \<Rightarrow> Signature option" where
  "block_signature (Sealed b) = Some (bb_signature b)"
| "block_signature (Unsealed b) = None"

definition unsealed_from :: "Block \<Rightarrow> UnsealedBeaconBlock" where
  "unsealed_from t = \<lparr>
     ub_slot = block_slot t,
     ub_parent_root = block_parent_root t,
     ub_state_root = block_state_root t,
     ub_body = block_body t\<rparr>"

definition fake_seal :: "UnsealedBeaconBlock \<Rightarrow> BeaconBlock" where
  "fake_seal b = \<lparr>
     bb_slot = ub_slot b,
     bb_parent_root = ub_parent_root b,
     bb_state_root = ub_state_root b,
     bb_body = ub_body b,
     bb_signature = Signature_default\<rparr>"

section \<open>The beacon state\<close>

record BeaconState =
  genesis_time :: Uint
  slot :: Uint
  fork :: Fork
  latest_block_header :: BeaconBlockHeader
  block_roots :: "H256 list"
  state_roots :: "H256 list"
  historical_roots :: "H256 list"
  eth1_data :: Eth1Data
  eth1_data_votes :: "Eth1Data list"
  eth1_deposit_index :: Uint
  validators :: "Validator list"
  balances :: "Uint list"
  randao_mixes :: "H256 list"
  slashings :: "Uint list"
  previous_epoch_attestations :: "PendingAttestation list"
  current_epoch_attestations :: "PendingAttestation list"
  justification_bits :: "bool list"
  previous_justified_checkpoint :: Checkpoint
  current_justified_checkpoint :: Checkpoint
  finalized_checkpoint :: Checkpoint

section \<open>Default values\<close>

definition Checkpoint_default :: Checkpoint where
  "Checkpoint_default = \<lparr>epoch = 0, root = H256_default\<rparr>"

definition Fork_default :: Fork where
  "Fork_default = \<lparr>previous_version = Version_default, current_version = Version_default,
     fork_epoch = 0\<rparr>"

definition Eth1Data_default :: Eth1Data where
  "Eth1Data_default = \<lparr>deposit_root = H256_default, deposit_count = 0, block_hash = H256_default\<rparr>"

definition BeaconBlockHeader_default :: BeaconBlockHeader where
  "BeaconBlockHeader_default = \<lparr>bh_slot = 0, bh_parent_root = H256_default,
     bh_state_root = H256_default, bh_body_root = H256_default, bh_signature = Signature_default\<rparr>"

definition BeaconBlockBody_default :: BeaconBlockBody where
  "BeaconBlockBody_default = \<lparr>randao_reveal = Signature_default, body_eth1_data = Eth1Data_default,
     graffiti = H256_default, proposer_slashings = [], attester_slashings = [], attestations = [],
     deposits = [], voluntary_exits = []\<rparr>"

definition BeaconBlock_default :: BeaconBlock where
  "BeaconBlock_default = \<lparr>bb_slot = 0, bb_parent_root = H256_default, bb_state_root = H256_default,
     bb_body = BeaconBlockBody_default, bb_signature = Signature_default\<rparr>"

end
