(* ===== verification/Beacon_Config.thy ===== *)
theory Beacon_Config
  imports Beacon_Types
begin

text \<open>
  The traits \<^verbatim>\<open>Config\<close> and \<^verbatim>\<open>BLSConfig\<close> of \<^verbatim>\<open>config.rs\<close> and the three configurations the crate
  ships. A configuration is a record of the trait's constants, with the code that is not part of
  the repository as a parameter: the digest \<^verbatim>\<open>C::Digest\<close> and the Merkle functions of the
  \<^verbatim>\<open>bm\<close> submodule (\<^verbatim>\<open>tree_root\<close> at each type the crate hashes, and the root of a
  \<^verbatim>\<open>CompactValue\<close>) form the record \<open>Hashing\<close>. The BLS operations form the record
  \<open>BLSConfig\<close>, which the functions with a \<^verbatim>\<open>BLS: BLSConfig\<close> type parameter take.

  The constants a function divides by are never zero in a configuration: they are
  compile-time constants of the program, and \<open>config_ok\<close> records what the code relies on.
\<close>

section \<open>External code\<close>

record Hashing =
  digest :: "bytes \<Rightarrow> H256"
  root_u64 :: "u64 \<Rightarrow> H256"
  root_signing_header :: "SigningBeaconBlockHeader \<Rightarrow> H256"
  root_body :: "BeaconBlockBody \<Rightarrow> H256"
  root_unsealed_block :: "UnsealedBeaconBlock \<Rightarrow> H256"
  root_state :: "BeaconState \<Rightarrow> H256"
  root_deposit_data :: "DepositData \<Rightarrow> H256"
  root_signing_deposit_data :: "SigningDepositData \<Rightarrow> H256"
  root_signing_voluntary_exit :: "SigningVoluntaryExit \<Rightarrow> H256"
  root_attestation_data :: "AttestationDataAndCustodyBit \<Rightarrow> H256"
  root_historical_batch :: "HistoricalBatch \<Rightarrow> H256"
  compact_value_root :: "H256 \<Rightarrow> H256 list \<Rightarrow> u64 \<Rightarrow> u64 \<Rightarrow> H256 option"

record BLSConfig =
  verify :: "ValidatorId \<Rightarrow> H256 \<Rightarrow> Signature \<Rightarrow> u64 \<Rightarrow> bool"
  aggregate_pubkeys :: "ValidatorId list \<Rightarrow> ValidatorId"
  aggregate_signatures :: "Signature list \<Rightarrow> Signature"
  verify_multiple :: "ValidatorId list \<Rightarrow> H256 list \<Rightarrow> Signature \<Rightarrow> u64 \<Rightarrow> bool"

definition BLSNoVerification :: BLSConfig where
  "BLSNoVerification = \<lparr>
     verify = (\<lambda>_ _ _ _. True),
     aggregate_pubkeys = (\<lambda>_. ValidatorId_default),
     aggregate_signatures = (\<lambda>_. Signature_default),
     verify_multiple = (\<lambda>_ _ _ _. True)\<rparr>"

section \<open>The trait Config\<close>

record Config =
  max_validators_per_committee :: u64
  slots_per_historical_root :: u64
  max_proposer_slashings :: u64
  max_attester_slashings :: u64
  max_attestations :: u64
  max_deposits :: u64
  max_voluntary_exits :: u64
  historical_roots_limit :: u64
  shard_count :: u64
  slots_per_epoch :: u64
  slots_per_eth1_voting_period :: u64
  validator_registry_limit :: u64
  epochs_per_historical_vector :: u64
  epochs_per_slashings_vector :: u64
  max_attestations_per_epoch :: u64
  max_committees_per_slot :: u64
  target_committee_size :: u64
  min_per_epoch_churn_limit :: u64
  churn_limit_quotient :: u64
  shuffle_round_count :: u64
  min_genesis_active_validator_count :: u64
  min_genesis_time :: u64
  min_deposit_amount :: u64
  max_effective_balance :: u64
  ejection_balance :: u64
  effective_balance_increment :: u64
  genesis_slot :: u64
  genesis_epoch :: u64
  bls_withdrawal_prefix_byte :: u8
  min_attestation_inclusion_delay :: u64
  min_seed_lookahead :: u64
  max_seed_lookahead :: u64
  min_validator_withdrawability_delay :: u64
  persistent_committee_period :: u64
  max_epochs_per_crosslink :: u64
  min_epochs_to_inactivity_penalty :: u64
  base_reward_factor :: u64
  whistleblower_reward_quotient :: u64
  proposer_reward_quotient :: u64
  inactivity_penalty_quotient :: u64
  min_slashing_penalty_quotient :: u64
  hashing :: Hashing

definition domain_beacon_proposer :: u32 where
  "domain_beacon_proposer = 0"

definition domain_beacon_attester :: u32 where
  "domain_beacon_attester = 1"

definition domain_randao :: u32 where
  "domain_randao = 2"

definition domain_deposit :: u32 where
  "domain_deposit = 3"

definition domain_voluntary_exit :: u32 where
  "domain_voluntary_exit = 4"

definition hash :: "Config \<Rightarrow> bytes list \<Rightarrow> H256" where
  "hash C inputs = digest (hashing C) (concat inputs)"

definition MinimalConfig :: "Hashing \<Rightarrow> Config" where
  "MinimalConfig h = \<lparr>
     max_validators_per_committee = 2048,
     slots_per_historical_root = 64,
     max_proposer_slashings = 16,
     max_attester_slashings = 1,
     max_attestations = 128,
     max_deposits = 16,
     max_voluntary_exits = 16,
     historical_roots_limit = 16777216,
     shard_count = 8,
     slots_per_epoch = 8,
     slots_per_eth1_voting_period = 16,
     validator_registry_limit = 1099511627776,
     epochs_per_historical_vector = 64,
     epochs_per_slashings_vector = 64,
     max_attestations_per_epoch = 128 * 8,
     max_committees_per_slot = 4,
     target_committee_size = 4,
     min_per_epoch_churn_limit = 4,
     churn_limit_quotient = 65536,
     shuffle_round_count = 10,
     min_genesis_active_validator_count = 64,
     min_genesis_time = 1578009600,
     min_deposit_amount = 1000000000,
     max_effective_balance = 32000000000,
     ejection_balance = 16000000000,
     effective_balance_increment = 1000000000,
     genesis_slot = 0,
     genesis_epoch = 0,
     bls_withdrawal_prefix_byte = 0,
     min_attestation_inclusion_delay = 1,
     min_seed_lookahead = 1,
     max_seed_lookahead = 4,
     min_validator_withdrawability_delay = 256,
     persistent_committee_period = 2048,
     max_epochs_per_crosslink = 4,
     min_epochs_to_inactivity_penalty = 4,
     base_reward_factor = 64,
     whistleblower_reward_quotient = 512,
     proposer_reward_quotient = 8,
     inactivity_penalty_quotient = 33554432,
     min_slashing_penalty_quotient = 32,
     hashing = h\<rparr>"

text \<open>Its fields, so that examples can be evaluated without unfolding the whole record.\<close>

lemma MinimalConfig_sel [simp]:
  "max_validators_per_committee (MinimalConfig h) = 2048"
  "slots_per_historical_root (MinimalConfig h) = 64"
  "max_proposer_slashings (MinimalConfig h) = 16"
  "max_attester_slashings (MinimalConfig h) = 1"
  "max_attestations (MinimalConfig h) = 128"
  "max_deposits (MinimalConfig h) = 16"
  "max_voluntary_exits (MinimalConfig h) = 16"
  "historical_roots_limit (MinimalConfig h) = 16777216"
  "shard_count (MinimalConfig h) = 8"
  "slots_per_epoch (MinimalConfig h) = 8"
  "slots_per_eth1_voting_period (MinimalConfig h) = 16"
  "validator_registry_limit (MinimalConfig h) = 1099511627776"
  "epochs_per_historical_vector (MinimalConfig h) = 64"
  "epochs_per_slashings_vector (MinimalConfig h) = 64"
  "max_attestations_per_epoch (MinimalConfig h) = 128 * 8"
  "max_committees_per_slot (MinimalConfig h) = 4"
  "target_committee_size (MinimalConfig h) = 4"
  "min_per_epoch_churn_limit (MinimalConfig h) = 4"
  "churn_limit_quotient (MinimalConfig h) = 65536"
  "shuffle_round_count (MinimalConfig h) = 10"
  "min_genesis_active_validator_count (MinimalConfig h) = 64"
  "min_genesis_time (MinimalConfig h) = 1578009600"
  "min_deposit_amount (MinimalConfig h) = 1000000000"
  "max_effective_balance (MinimalConfig h) = 32000000000"
  "ejection_balance (MinimalConfig h) = 16000000000"
  "effective_balance_increment (MinimalConfig h) = 1000000000"
  "genesis_slot (MinimalConfig h) = 0"
  "genesis_epoch (MinimalConfig h) = 0"
  "bls_withdrawal_prefix_byte (MinimalConfig h) = 0"
  "min_attestation_inclusion_delay (MinimalConfig h) = 1"
  "min_seed_lookahead (MinimalConfig h) = 1"
  "max_seed_lookahead (MinimalConfig h) = 4"
  "min_validator_withdrawability_delay (MinimalConfig h) = 256"
  "persistent_committee_period (MinimalConfig h) = 2048"
  "max_epochs_per_crosslink (MinimalConfig h) = 4"
  "min_epochs_to_inactivity_penalty (MinimalConfig h) = 4"
  "base_reward_factor (MinimalConfig h) = 64"
  "whistleblower_reward_quotient (MinimalConfig h) = 512"
  "proposer_reward_quotient (MinimalConfig h) = 8"
  "inactivity_penalty_quotient (MinimalConfig h) = 33554432"
  "min_slashing_penalty_quotient (MinimalConfig h) = 32"
  "hashing (MinimalConfig h) = h"
  by (simp_all add: MinimalConfig_def)

definition MainnetConfig :: "Hashing \<Rightarrow> Config" where
  "MainnetConfig h = \<lparr>
     max_validators_per_committee = 2048,
     slots_per_historical_root = 8192,
     max_proposer_slashings = 16,
     max_attester_slashings = 1,
     max_attestations = 128,
     max_deposits = 16,
     max_voluntary_exits = 16,
     historical_roots_limit = 16777216,
     shard_count = 1024,
     slots_per_epoch = 32,
     slots_per_eth1_voting_period = 1024,
     validator_registry_limit = 1099511627776,
     epochs_per_historical_vector = 65536,
     epochs_per_slashings_vector = 8192,
     max_attestations_per_epoch = 128 * 32,
     max_committees_per_slot = 64,
     target_committee_size = 128,
     min_per_epoch_churn_limit = 4,
     churn_limit_quotient = 65536,
     shuffle_round_count = 90,
     min_genesis_active_validator_count = 65536,
     min_genesis_time = 1578009600,
     min_deposit_amount = 1000000000,
     max_effective_balance = 32000000000,
     ejection_balance = 16000000000,
     effective_balance_increment = 1000000000,
     genesis_slot = 0,
     genesis_epoch = 0,
     bls_withdrawal_prefix_byte = 0,
     min_attestation_inclusion_delay = 1,
     min_seed_lookahead = 1,
     max_seed_lookahead = 4,
     min_validator_withdrawability_delay = 256,
     persistent_committee_period = 2048,
     max_epochs_per_crosslink = 64,
     min_epochs_to_inactivity_penalty = 4,
     base_reward_factor = 64,
     whistleblower_reward_quotient = 512,
     proposer_reward_quotient = 8,
     inactivity_penalty_quotient = 33554432,
     min_slashing_penalty_quotient = 32,
     hashing = h\<rparr>"

definition SapphireConfig :: "Hashing \<Rightarrow> Config" where
  "SapphireConfig h = \<lparr>
     max_validators_per_committee = 2048,
     slots_per_historical_root = 64,
     max_proposer_slashings = 16,
     max_attester_slashings = 1,
     max_attestations = 128,
     max_deposits = 16,
     max_voluntary_exits = 16,
     historical_roots_limit = 16777216,
     shard_count = 8,
     slots_per_epoch = 8,
     slots_per_eth1_voting_period = 16,
     validator_registry_limit = 1099511627776,
     epochs_per_historical_vector = 64,
     epochs_per_slashings_vector = 64,
     max_attestations_per_epoch = 128 * 8,
     max_committees_per_slot = 4,
     target_committee_size = 4,
     min_per_epoch_churn_limit = 4,
     churn_limit_quotient = 65536,
     shuffle_round_count = 10,
     min_genesis_active_validator_count = 64,
     min_genesis_time = 1578009600,
     min_deposit_amount = 100,
     max_effective_balance = 3200000000,
     ejection_balance = 3000000000,
     effective_balance_increment = 1000000000,
     genesis_slot = 0,
     genesis_epoch = 0,
     bls_withdrawal_prefix_byte = 0,
     min_attestation_inclusion_delay = 1,
     min_seed_lookahead = 1,
     max_seed_lookahead = 4,
     min_validator_withdrawability_delay = 256,
     persistent_committee_period = 2048,
     max_epochs_per_crosslink = 4,
     min_epochs_to_inactivity_penalty = 4,
     base_reward_factor = 64,
     whistleblower_reward_quotient = 512,
     proposer_reward_quotient = 8,
     inactivity_penalty_quotient = 33554432,
     min_slashing_penalty_quotient = 32,
     hashing = h\<rparr>"

section \<open>What the code relies on\<close>

text \<open>A digest returns 32 bytes (\<^verbatim>\<open>Digest<OutputSize=U32>\<close>).\<close>

definition digest_ok :: "Config \<Rightarrow> bool" where
  "digest_ok C \<longleftrightarrow> (\<forall>bs. length (digest (hashing C) bs) = 32)"

lemma length_hash [simp]: "digest_ok C \<Longrightarrow> length (hash C inputs) = 32"
  by (simp add: digest_ok_def hash_def)

definition config_ok :: "Config \<Rightarrow> bool" where
  "config_ok C \<longleftrightarrow>
     0 < slots_per_epoch C \<and> slots_per_epoch C \<le> 2 ^ 10 \<and>
     0 < slots_per_historical_root C \<and> slots_per_epoch C \<le> slots_per_historical_root C \<and>
     slots_per_historical_root C \<le> 2 ^ 16 \<and>
     min_seed_lookahead C + 1 < epochs_per_historical_vector C \<and>
     min_seed_lookahead C < 2 ^ 16 \<and>
     epochs_per_historical_vector C \<le> 2 ^ 16 \<and>
     0 < epochs_per_slashings_vector C \<and> epochs_per_slashings_vector C \<le> 2 ^ 16 \<and>
     0 < slots_per_eth1_voting_period C \<and>
     0 < target_committee_size C \<and>
     0 < max_committees_per_slot C \<and> max_committees_per_slot C \<le> 2 ^ 10 \<and>
     0 < churn_limit_quotient C \<and> 0 < min_per_epoch_churn_limit C \<and>
     0 < effective_balance_increment C \<and>
     effective_balance_increment C \<le> max_effective_balance C \<and>
     max_effective_balance C \<le> 2 ^ 40 \<and>
     0 < proposer_reward_quotient C \<and> 0 < whistleblower_reward_quotient C \<and>
     0 < inactivity_penalty_quotient C \<and> 0 < min_slashing_penalty_quotient C \<and>
     0 < min_attestation_inclusion_delay C \<and>
     max_seed_lookahead C \<le> 2 ^ 10 \<and> min_validator_withdrawability_delay C \<le> 2 ^ 16"

lemma MinimalConfig_ok [simp]: "config_ok (MinimalConfig h)"
  by (simp add: config_ok_def MinimalConfig_def)

lemma MainnetConfig_ok [simp]: "config_ok (MainnetConfig h)"
  by (simp add: config_ok_def MainnetConfig_def)

lemma SapphireConfig_ok [simp]: "config_ok (SapphireConfig h)"
  by (simp add: config_ok_def SapphireConfig_def)

definition BeaconState_default :: "Config \<Rightarrow> BeaconState" where
  "BeaconState_default C = \<lparr>
     genesis_time = 0,
     slot = 0,
     fork = Fork_default,
     latest_block_header = BeaconBlockHeader_default,
     block_roots = replicate (unat (slots_per_historical_root C)) H256_default,
     state_roots = replicate (unat (slots_per_historical_root C)) H256_default,
     historical_roots = [],
     eth1_data = Eth1Data_default,
     eth1_data_votes = [],
     eth1_deposit_index = 0,
     validators = [],
     balances = [],
     randao_mixes = replicate (unat (epochs_per_historical_vector C)) H256_default,
     slashings = replicate (unat (epochs_per_slashings_vector C)) 0,
     previous_epoch_attestations = [],
     current_epoch_attestations = [],
     justification_bits = replicate JustificationBitsLength False,
     previous_justified_checkpoint = Checkpoint_default,
     current_justified_checkpoint = Checkpoint_default,
     finalized_checkpoint = Checkpoint_default\<rparr>"

text \<open>
  The lengths that Rust's types fix: \<^verbatim>\<open>VecArray<_, N>\<close> has \<open>N\<close> elements. Every other theory
  shows that its operations keep them, and that the registry and the balances stay in step.
\<close>

definition state_wf :: "Config \<Rightarrow> BeaconState \<Rightarrow> bool" where
  "state_wf C s \<longleftrightarrow>
     length (block_roots s) = unat (slots_per_historical_root C) \<and>
     length (state_roots s) = unat (slots_per_historical_root C) \<and>
     length (randao_mixes s) = unat (epochs_per_historical_vector C) \<and>
     length (slashings s) = unat (epochs_per_slashings_vector C) \<and>
     length (justification_bits s) = JustificationBitsLength \<and>
     length (balances s) = length (validators s)"

lemma state_wf_default [simp]: "state_wf C (BeaconState_default C)"
  by (simp add: state_wf_def BeaconState_default_def)

end
