(* ===== verification/Beacon_Utils.thy ===== *)
theory Beacon_Utils
  imports Beacon_Config
begin

text \<open>
  The pure functions of \<^verbatim>\<open>beacon/src/utils/mod.rs\<close>: byte conversions, the integer square root of
  the reward formula, the swap-or-not shuffle, committees as slices of the shuffled
  registry, slot and epoch arithmetic, the Merkle branch check and the BLS signing domain.

  Shown here: Newton's iteration returns the floor of the square root for every input but
  \<^verbatim>\<open>u64::MAX\<close>, where the code panics; one shuffle round is an involution, so
  \<open>shuffled_index\<close> is a permutation; the committees of an epoch partition the active validators.
\<close>

unbundle bit_operations_syntax

section \<open>Conversions\<close>

definition to_bytes :: "Uint \<Rightarrow> H256" where
  "to_bytes v = (let bs = to_le_bytes v in bs @ drop (length bs) H256_default)"

definition to_uint :: "bytes \<Rightarrow> Uint result" where
  "to_uint v = (if length v = 8 then Ok (from_le_bytes v) else Panic)"

lemma length_to_bytes [simp]: "length (to_bytes v) = 32"
  by (simp add: to_bytes_def H256_default_def)

lemma to_uint_to_bytes: "to_uint (take 8 (to_bytes v)) = Ok v"
  by (simp add: to_uint_def to_bytes_def from_to_le_bytes)

section \<open>Integer square root\<close>

text \<open>The body of \<^verbatim>\<open>while y < x\<close>. The division panics when \<open>y\<close> is zero.\<close>

function isqrt_loop :: "Uint \<Rightarrow> Uint \<Rightarrow> Uint \<Rightarrow> Uint result" where
  "isqrt_loop n x y =
     (if y < x then rbind (div_checked n y) (\<lambda>d. isqrt_loop n y ((y + d) div 2)) else Ok x)"
  by pat_completeness auto
termination
  by (relation "measure (\<lambda>(n, x, y). unat x)") (auto simp: word_less_nat_alt)

declare isqrt_loop.simps [simp del]

definition integer_squareroot :: "Uint \<Rightarrow> Uint result" where
  "integer_squareroot n = (let x = n; y = (x + 1) div 2 in isqrt_loop n x y)"

lemma newton_step_upper:
  fixes n x :: nat
  assumes "0 < x"
  shows "n < ((x + n div x) div 2 + 1)\<^sup>2"
proof -
  define q where "q = n div x"
  define r where "r = n mod x"
  define y where "y = (x + q) div 2"
  have n: "n = q * x + r" by (simp add: q_def r_def)
  have r: "r < x" using assms by (simp add: r_def)
  have y: "x + q \<le> 2 * y + 1" by (simp add: y_def)
  have "int (4 * n) < (int x + int q + 1)\<^sup>2"
  proof -
    have "0 < (int x - int q - 1)\<^sup>2 + 4" by (smt (verit) zero_le_power2)
    then have "4 * (int q * int x) + 4 * (int x - 1) < (int x + int q + 1)\<^sup>2"
      by (simp add: power2_eq_square algebra_simps)
    moreover have "int r \<le> int x - 1" using r by simp
    ultimately show ?thesis using n by (simp add: algebra_simps)
  qed
  also have "\<dots> \<le> (2 * (int y + 1))\<^sup>2"
    by (rule power_mono) (use y in simp_all)
  finally have "int n < (int y + 1)\<^sup>2" by (simp add: power2_eq_square algebra_simps)
  then have "int n < int ((y + 1)\<^sup>2)" by (simp add: add.commute)
  then show ?thesis unfolding y_def q_def by linarith
qed

lemma add_div_self_bound: "0 < (x::nat) \<Longrightarrow> x \<le> n \<Longrightarrow> x + n div x \<le> n + 1"
proof -
  assume x: "0 < x" "x \<le> n"
  then have "1 \<le> n div x" by (simp add: div_greater_zero_iff Suc_leI)
  have "p + q \<le> 1 + p * q" if "1 \<le> p" "1 \<le> q" for p q :: nat
    using that by (cases p; cases q) auto
  from this [of x "n div x"] x \<open>1 \<le> n div x\<close> have "x + n div x \<le> 1 + x * (n div x)" by simp
  also have "\<dots> \<le> 1 + n" by simp
  finally show ?thesis by simp
qed

lemma isqrt_loop_correct:
  assumes "unat n < 2 ^ 64 - 1" "0 < unat x" "unat x \<le> unat n"
    and "unat n < (unat x + 1)\<^sup>2" "unat y = (unat x + unat n div unat x) div 2"
  shows "\<exists>r. isqrt_loop n x y = Ok r \<and> (unat r)\<^sup>2 \<le> unat n \<and> unat n < (unat r + 1)\<^sup>2"
  using assms
proof (induction n x y rule: isqrt_loop.induct)
  case (1 n x y)
  show ?case
  proof (cases "y < x")
    case False
    then have "unat x \<le> unat n div unat x" using "1.prems"(5) by (simp add: word_less_nat_alt)
    then have "unat x * unat x \<le> unat n div unat x * unat x" by (rule mult_le_mono1)
    also have "\<dots> \<le> unat n" by simp
    finally show ?thesis
      using False "1.prems"(4) by (simp add: isqrt_loop.simps [of n x y] power2_eq_square)
  next
    case True
    let ?d = "n div y" and ?y' = "(y + n div y) div 2"
    have ny: "unat n < (unat y + 1)\<^sup>2"
      using newton_step_upper [OF "1.prems"(2), of "unat n"] "1.prems"(5) by simp
    have y0: "0 < unat y" using ny "1.prems"(2,3) by (cases "unat y") auto
    then have y_neq: "y \<noteq> 0" by auto
    have yn: "unat y \<le> unat n" using True "1.prems"(3) by (simp add: word_less_nat_alt)
    have "unat y + unat n div unat y < 2 ^ 64"
      using add_div_self_bound [OF y0 yn] "1.prems"(1) by simp
    then have y': "unat ?y' = (unat y + unat n div unat y) div 2"
      by (simp add: unat_div unat_word_ariths)
    have "\<exists>r. isqrt_loop n y ?y' = Ok r \<and> (unat r)\<^sup>2 \<le> unat n \<and> unat n < (unat r + 1)\<^sup>2"
      using "1.IH" [OF True, of ?d] y_neq "1.prems"(1) y0 yn ny y' by simp
    then show ?thesis using True y_neq by (simp add: isqrt_loop.simps [of n x y])
  qed
qed

lemma integer_squareroot_floor:
  assumes "n \<noteq> - 1"
  shows "\<exists>r. integer_squareroot n = Ok r \<and> (unat r)\<^sup>2 \<le> unat n \<and> unat n < (unat r + 1)\<^sup>2"
proof (cases "n = 0")
  case True
  then show ?thesis by (simp add: integer_squareroot_def isqrt_loop.simps)
next
  case False
  have "n < FAR_FUTURE_EPOCH"
    unfolding less_FAR_FUTURE_EPOCH_iff using assms by (simp add: FAR_FUTURE_EPOCH_def)
  then have n: "unat n < 2 ^ 64 - 1" by (simp only: word_less_nat_alt unat_FAR_FUTURE_EPOCH)
  have pos: "0 < unat n" using False by (simp add: unat_gt_0)
  have "unat ((n + 1) div 2) = (unat n + unat n div unat n) div 2"
    using n pos by (simp add: unat_div unat_word_ariths)
  moreover have "unat n < (unat n + 1)\<^sup>2" by (simp add: power2_eq_square)
  ultimately show ?thesis
    using isqrt_loop_correct [of n n "(n + 1) div 2"] n pos
    by (simp add: integer_squareroot_def)
qed

lemma integer_squareroot_top: "integer_squareroot (- 1) = Panic"
  by (simp add: integer_squareroot_def isqrt_loop.simps div_checked_def Let_def word_gt_0)

text \<open>
  C32: The integer square root: for every 64-bit integer but \<^verbatim>\<open>u64::MAX\<close> the loop ends, and its
  result is the floor of the square root. At \<^verbatim>\<open>u64::MAX\<close> the addition \<^verbatim>\<open>x + 1\<close> wraps to zero, the loop's first
  assignment makes \<^verbatim>\<open>x\<close> zero, and the next division panics.
\<close>

theorem integer_squareroot_correct:
  "if n = - 1 then integer_squareroot n = Panic
   else (\<exists>r. integer_squareroot n = Ok r \<and> (unat r)\<^sup>2 \<le> unat n \<and> unat n < (unat r + 1)\<^sup>2)"
  using integer_squareroot_floor [of n] by (simp add: integer_squareroot_top)

section \<open>Comparing hashes\<close>

datatype Ordering = Less | Equal | Greater

primrec compare_hash_loop :: "H256 \<Rightarrow> H256 \<Rightarrow> nat list \<Rightarrow> Ordering" where
  "compare_hash_loop a b [] = Equal"
| "compare_hash_loop a b (i # is) =
     (if a ! i > b ! i then Greater else if a ! i < b ! i then Less else compare_hash_loop a b is)"

definition compare_hash :: "H256 \<Rightarrow> H256 \<Rightarrow> Ordering" where
  "compare_hash a b = compare_hash_loop a b [0..<32]"

lemma compare_hash_loop_Equal:
  "compare_hash_loop a b is = Equal \<longleftrightarrow> (\<forall>i\<in>set is. a ! i = b ! i)"
  by (induction "is") auto

lemma compare_hash_loop_swap:
  "compare_hash_loop a b is = Less \<longleftrightarrow> compare_hash_loop b a is = Greater"
  by (induction "is") auto

lemma compare_hash_Equal:
  "length a = 32 \<Longrightarrow> length b = 32 \<Longrightarrow> compare_hash a b = Equal \<longleftrightarrow> a = b"
  by (auto simp: compare_hash_def compare_hash_loop_Equal intro: nth_equalityI)

section \<open>Shuffling\<close>

text \<open>One round of the swap-or-not network: the body of the loop of \<^verbatim>\<open>shuffled_index\<close>.\<close>

definition shuffle_round :: "Config \<Rightarrow> Uint \<Rightarrow> H256 \<Rightarrow> Uint \<Rightarrow> Uint \<Rightarrow> Uint result" where
  "shuffle_round C index_count seed round index =
     rbind (to_uint (take 8 (hash C [seed, take 1 (to_le_bytes round)]))) (\<lambda>p.
     let pivot = p mod index_count;
         flip = (pivot + index_count - index) mod index_count;
         position = max index flip;
         src = hash C [seed, take 1 (to_le_bytes round), take 4 (to_le_bytes (position div 256))]
     in rbind (vec_index src ((position mod 256) div 8)) (\<lambda>byte.
        Ok (if drop_bit (unat (position mod 8)) byte mod 2 \<noteq> 0 then flip else index)))"

fun shuffle_rounds :: "Config \<Rightarrow> Uint \<Rightarrow> H256 \<Rightarrow> Uint list \<Rightarrow> Uint \<Rightarrow> Uint result" where
  "shuffle_rounds C index_count seed [] index = Ok index"
| "shuffle_rounds C index_count seed (round # rounds) index =
     rbind (shuffle_round C index_count seed round index)
       (shuffle_rounds C index_count seed rounds)"

definition shuffled_index :: "Config \<Rightarrow> Uint \<Rightarrow> Uint \<Rightarrow> H256 \<Rightarrow> ValidatorIndex result" where
  "shuffled_index C index index_count seed =
     (if \<not> (index < index_count \<and> index_count \<le> 2 ^ 40) then Err IndexOutOfRange
      else shuffle_rounds C index_count seed (range64 0 (shuffle_round_count C)) index)"

definition compute_committee ::
    "Config \<Rightarrow> ValidatorIndex list \<Rightarrow> H256 \<Rightarrow> Uint \<Rightarrow> Uint \<Rightarrow> ValidatorIndex list result" where
  "compute_committee C indices seed index cnt =
     rbind (div_checked (len64 indices * index) cnt) (\<lambda>start.
     rbind (div_checked (len64 indices * (index + 1)) cnt) (\<lambda>finish.
     collect_res (\<lambda>i.
       rbind (shuffled_index C i (len64 indices) seed) (\<lambda>j. vec_index indices j))
       (range64 start finish)))"

section \<open>Slots and epochs\<close>

definition epoch_of_slot :: "Config \<Rightarrow> Uint \<Rightarrow> Uint" where
  "epoch_of_slot C slt = slt div slots_per_epoch C"

definition start_slot_of_epoch :: "Config \<Rightarrow> Uint \<Rightarrow> Uint" where
  "start_slot_of_epoch C ep = ep * slots_per_epoch C"

definition activation_exit_epoch :: "Config \<Rightarrow> Uint \<Rightarrow> Uint" where
  "activation_exit_epoch C ep = ep + 1 + max_seed_lookahead C"

section \<open>Merkle branches and signing domains\<close>

definition is_valid_merkle_branch ::
    "Config \<Rightarrow> H256 \<Rightarrow> H256 list \<Rightarrow> u64 \<Rightarrow> u64 \<Rightarrow> H256 \<Rightarrow> bool" where
  "is_valid_merkle_branch C leaf prf depth ix rt =
     (if len64 prf \<noteq> depth then False
      else case compact_value_root (hashing C) leaf prf ix depth of
             None \<Rightarrow> False
           | Some r \<Rightarrow> r = rt)"

definition bls_domain :: "u32 \<Rightarrow> Version \<Rightarrow> u64" where
  "bls_domain domain_type fork_version = from_le_bytes (to_le_bytes domain_type @ fork_version)"

text \<open>
  Signing domains do not collide: two domain types under two four-byte fork versions give the
  same domain only if both the types and the versions are equal.
\<close>

lemma bls_domain_inject:
  assumes "length v = 4" "length v' = 4"
  shows "bls_domain d v = bls_domain d' v' \<longleftrightarrow> d = d' \<and> v = v'"
proof
  assume "bls_domain d v = bls_domain d' v'"
  then have "to_le_bytes (bls_domain d v) = to_le_bytes (bls_domain d' v')" by simp
  then have "to_le_bytes d @ v = to_le_bytes d' @ v'"
    using assms by (simp add: bls_domain_def to_from_le_bytes)
  then have eq: "to_le_bytes d = to_le_bytes d'" "v = v'" by simp_all
  have "d = from_le_bytes (to_le_bytes d)" by (simp add: from_to_le_bytes)
  also have "\<dots> = d'" unfolding eq by (simp add: from_to_le_bytes)
  finally show "d = d' \<and> v = v'" using eq by simp
qed simp

section \<open>The shuffle is a permutation\<close>

lemma flip_involution:
  fixes n p i :: nat
  assumes "p < n" "i < n"
  shows "(p + n - (p + n - i) mod n) mod n = i"
proof (cases "i \<le> p")
  case True
  then have "(p + n - i) mod n = p - i" using assms by (simp add: mod_if)
  then show ?thesis using assms True by simp
next
  case False
  then have "(p + n - i) mod n = p + n - i" using assms by simp
  then show ?thesis using assms False by simp
qed

lemma unat_flip:
  assumes "p < n" "i < n" "n \<le> (2 ^ 40 :: u64)"
  shows "unat ((p + n - i) mod n) = (unat p + unat n - unat i) mod unat n"
proof -
  have b: "unat p < unat n" "unat i < unat n" "unat n \<le> 2 ^ 40"
    using assms by (simp_all add: word_less_nat_alt word_le_nat_alt)
  then have s: "unat (p + n) = unat p + unat n" by (simp add: unat_word_ariths)
  then have "unat (p + n - i) = unat p + unat n - unat i"
    using b by (subst unat_sub) (simp_all add: word_le_nat_alt)
  then show ?thesis by (simp add: unat_mod)
qed

lemma flip_involution_word:
  assumes "p < n" "i < n" "n \<le> (2 ^ 40 :: u64)"
  shows "(p + n - (p + n - i) mod n) mod n = i"
proof -
  have lt: "(p + n - i) mod n < n"
    using assms(2) by (intro word_mod_less_divisor) (auto simp: word_gt_0)
  have "unat ((p + n - (p + n - i) mod n) mod n) = unat i"
    using unat_flip [OF assms(1) lt assms(3)] unat_flip [OF assms] flip_involution [of "unat p" "unat n" "unat i"]
      assms by (simp add: word_less_nat_alt)
  then show ?thesis by (simp only: word_unat_eq_iff)
qed

lemma shuffle_round_involution:
  assumes C: "digest_ok C" and i: "i < n" and n: "n \<le> 2 ^ 40"
  shows "\<exists>j < n. shuffle_round C n seed r i = Ok j \<and> shuffle_round C n seed r j = Ok i"
proof -
  define p where "p = (from_le_bytes (take 8 (hash C [seed, take 1 (to_le_bytes r)])) :: u64) mod n"
  define f where "f = (\<lambda>i. (p + n - i) mod n)"
  define src where "src = (\<lambda>q::u64. hash C [seed, take 1 (to_le_bytes r), take 4 (to_le_bytes (q div 256))])"
  define d where "d = (\<lambda>q. drop_bit (unat (q mod 8)) (src q ! unat ((q mod 256) div 8)) mod 2 \<noteq> 0)"
  have n0: "n \<noteq> 0" using i by auto
  have p: "p < n" using n0 by (simp add: p_def word_mod_less_divisor word_gt_0)
  have f_lt: "f k < n" for k using n0 by (simp add: f_def word_mod_less_divisor word_gt_0)
  have f_f: "f (f k) = k" if "k < n" for k
    using flip_involution_word [OF p that n] by (simp add: f_def)
  have in_range: "unat (q mod 256 div 8 :: u64) < length (src q)" for q
  proof -
    have "unat (q mod 256 div 8) = (unat q mod 256) div 8" by (simp add: unat_div unat_mod)
    also have "\<dots> < 32" by simp
    finally show ?thesis using C by (simp add: src_def)
  qed
  have step: "shuffle_round C n seed r k = Ok (if d (max k (f k)) then f k else k)" for k
    using C in_range [of "max k (f k)"]
    by (simp add: shuffle_round_def to_uint_def Let_def vec_index_in_range p_def f_def d_def src_def)
  show ?thesis
  proof (cases "d (max i (f i))")
    case True
    then have "shuffle_round C n seed r (f i) = Ok i"
      using f_f [OF i] by (simp add: step max.commute)
    with True show ?thesis using f_lt by (auto simp: step)
  next
    case False
    then show ?thesis using i by (auto simp: step)
  qed
qed

lemma shuffle_rounds_total:
  assumes "digest_ok C" "n \<le> 2 ^ 40" "i < n"
  shows "\<exists>j < n. shuffle_rounds C n seed rs i = Ok j"
  using assms(3)
proof (induction rs arbitrary: i)
  case (Cons r rs)
  obtain k where "k < n" "shuffle_round C n seed r i = Ok k"
    using shuffle_round_involution [OF assms(1) Cons.prems assms(2)] by blast
  with Cons.IH show ?case by simp
qed simp

lemma shuffle_rounds_inj:
  assumes "digest_ok C" "n \<le> 2 ^ 40" "i < n" "i' < n"
    and "shuffle_rounds C n seed rs i = Ok j" "shuffle_rounds C n seed rs i' = Ok j"
  shows "i = i'"
  using assms(3-)
proof (induction rs arbitrary: i i')
  case (Cons r rs)
  obtain k where k: "k < n" "shuffle_round C n seed r i = Ok k" "shuffle_round C n seed r k = Ok i"
    using shuffle_round_involution [OF assms(1) Cons.prems(1) assms(2)] by blast
  obtain k' where k': "k' < n" "shuffle_round C n seed r i' = Ok k'" "shuffle_round C n seed r k' = Ok i'"
    using shuffle_round_involution [OF assms(1) Cons.prems(2) assms(2)] by blast
  have "k = k'" using Cons.IH [OF k(1) k'(1)] Cons.prems k k' by simp
  then show ?case using k k' by simp
qed simp

text \<open>The permutation of \<open>{0..<n}\<close> that \<open>shuffled_index\<close> computes.\<close>

definition shuffle_perm :: "Config \<Rightarrow> nat \<Rightarrow> H256 \<Rightarrow> nat \<Rightarrow> nat" where
  "shuffle_perm C n seed i =
     (case shuffled_index C (of_nat i) (of_nat n) seed of Ok j \<Rightarrow> unat j | _ \<Rightarrow> i)"

lemma shuffled_index_perm:
  assumes C: "digest_ok C" and n: "n \<le> 2 ^ 40" and i: "i < n"
  shows "shuffled_index C (of_nat i) (of_nat n) seed = Ok (of_nat (shuffle_perm C n seed i))"
    and "shuffle_perm C n seed i < n"
proof -
  have un: "unat (of_nat n :: u64) = n" and ui: "unat (of_nat i :: u64) = i"
    using n i by (simp_all add: unat_of_nat_u64)
  have lt: "(of_nat i :: u64) < of_nat n" "(of_nat n :: u64) \<le> 2 ^ 40"
    using un ui i n by (simp_all add: word_less_nat_alt word_le_nat_alt)
  obtain j where j: "j < of_nat n"
    "shuffle_rounds C (of_nat n) seed (range64 0 (shuffle_round_count C)) (of_nat i) = Ok j"
    using shuffle_rounds_total [OF C lt(2,1)] by blast
  then have *: "shuffled_index C (of_nat i) (of_nat n) seed = Ok j"
    using lt by (simp add: shuffled_index_def)
  then show "shuffled_index C (of_nat i) (of_nat n) seed = Ok (of_nat (shuffle_perm C n seed i))"
    by (simp add: shuffle_perm_def)
  show "shuffle_perm C n seed i < n"
    using * j un by (simp add: shuffle_perm_def word_less_nat_alt)
qed

lemma shuffle_perm_inj:
  assumes C: "digest_ok C" and n: "n \<le> 2 ^ 40"
  shows "inj_on (shuffle_perm C n seed) {..<n}"
proof (rule inj_onI)
  fix i k assume "i \<in> {..<n}" "k \<in> {..<n}" and eq: "shuffle_perm C n seed i = shuffle_perm C n seed k"
  then have ik: "i < n" "k < n" by simp_all
  have u: "unat (of_nat n :: u64) = n" "unat (of_nat i :: u64) = i" "unat (of_nat k :: u64) = k"
    using n ik by (simp_all add: unat_of_nat_u64)
  have lt: "(of_nat i :: u64) < of_nat n" "(of_nat k :: u64) < of_nat n" "(of_nat n :: u64) \<le> 2 ^ 40"
    using u ik n by (simp_all add: word_less_nat_alt word_le_nat_alt)
  have "(of_nat i :: u64) = of_nat k"
    using shuffle_rounds_inj [OF C lt(3,1,2)] shuffled_index_perm(1) [OF C n ik(1), of seed]
      shuffled_index_perm(1) [OF C n ik(2), of seed] eq lt
    by (simp add: shuffled_index_def)
  then show "i = k" using u by metis
qed

lemma shuffle_perm_bij:
  assumes "digest_ok C" and "n \<le> 2 ^ 40"
  shows "bij_betw (shuffle_perm C n seed) {..<n} {..<n}"
  unfolding bij_betw_def
proof
  show inj: "inj_on (shuffle_perm C n seed) {..<n}" by (rule shuffle_perm_inj [OF assms])
  have "shuffle_perm C n seed ` {..<n} \<subseteq> {..<n}"
    using shuffled_index_perm(2) [OF assms] by auto
  then show "shuffle_perm C n seed ` {..<n} = {..<n}"
    by (simp add: inj card_image card_subset_eq)
qed

lemma mset_shuffle_perm:
  assumes "digest_ok C" and "n \<le> 2 ^ 40"
  shows "mset (map (shuffle_perm C n seed) [0..<n]) = mset [0..<n]"
  using shuffle_perm_bij [OF assms, of seed]
  by (intro set_eq_iff_mset_eq_distinct [THEN iffD1])
    (auto simp: bij_betw_def distinct_map atLeast_upt lessThan_atLeast0)

lemma mset_shuffle:
  assumes "digest_ok C" and "length xs \<le> 2 ^ 40"
  shows "mset (map (\<lambda>i. xs ! shuffle_perm C (length xs) seed i) [0..<length xs]) = mset xs"
proof -
  let ?p = "shuffle_perm C (length xs) seed" and ?n = "length xs"
  have "mset (map ((!) xs) (map ?p [0..<?n])) = mset (map ((!) xs) [0..<?n])"
    by (subst (1 2) mset_map) (simp only: mset_shuffle_perm [OF assms])
  then show ?thesis by (simp add: map_nth comp_def)
qed

definition committee_bound :: "nat \<Rightarrow> nat \<Rightarrow> nat \<Rightarrow> nat" where
  "committee_bound n c k = n * k div c"

lemma compute_committee_segment:
  assumes C: "digest_ok C" and n: "length indices \<le> 2 ^ 40" and c: "0 < c" "c \<le> 2 ^ 20" and k: "k < c"
  shows "compute_committee C indices seed (of_nat k) (of_nat c) =
    Ok (map (\<lambda>i. indices ! shuffle_perm C (length indices) seed i)
      [committee_bound (length indices) c k..<committee_bound (length indices) c (Suc k)])"
proof -
  let ?n = "length indices"
  have "?n * k \<le> 2 ^ 40 * 2 ^ 20" "?n * Suc k \<le> 2 ^ 40 * 2 ^ 20"
    using n c k by (intro mult_le_mono; simp)+
  then have le: "?n * k < 2 ^ 64" "?n * Suc k < 2 ^ 64" by simp_all
  have uc: "unat (of_nat c :: u64) = c" using c by (simp add: unat_of_nat_u64)
  have u1: "unat (len64 indices * of_nat k div of_nat c) = committee_bound ?n c k"
  proof -
    have "len64 indices * of_nat k = (of_nat (?n * k) :: u64)" by (simp add: len64_def)
    then have "unat (len64 indices * of_nat k :: u64) = ?n * k" by (simp only: unat_of_nat_u64 [OF le(1)])
    then show ?thesis by (simp add: unat_div uc committee_bound_def)
  qed
  have u2: "unat (len64 indices * (of_nat k + 1) div of_nat c) = committee_bound ?n c (Suc k)"
  proof -
    have "len64 indices * (of_nat k + 1) = (of_nat (?n * Suc k) :: u64)" by (simp add: len64_def algebra_simps)
    then have "unat (len64 indices * (of_nat k + 1) :: u64) = ?n * Suc k" by (simp only: unat_of_nat_u64 [OF le(2)])
    then show ?thesis by (simp add: unat_div uc committee_bound_def)
  qed
  have c0: "(of_nat c :: u64) \<noteq> 0" using uc c by auto
  have fin: "committee_bound ?n c (Suc k) \<le> ?n"
  proof -
    have "?n * Suc k \<le> ?n * c" using k by (intro mult_le_mono2) simp
    then show ?thesis unfolding committee_bound_def using c(1)
      by (metis div_le_mono div_mult_self_is_m)
  qed
  have "rbind (shuffled_index C (of_nat i) (len64 indices) seed) (vec_index indices)
      = Ok (indices ! shuffle_perm C ?n seed i)" if "i < committee_bound ?n c (Suc k)" for i
  proof -
    from that fin have i: "i < ?n" by simp
    have lt: "shuffle_perm C ?n seed i < ?n" by (rule shuffled_index_perm(2) [OF C n i])
    then have "unat (of_nat (shuffle_perm C ?n seed i) :: u64) = shuffle_perm C ?n seed i"
      using n by (intro unat_of_nat_u64) simp
    then show ?thesis
      using shuffled_index_perm(1) [OF C n i, of seed] lt by (simp add: len64_def vec_index_in_range)
  qed
  then have "collect_res (\<lambda>i. rbind (shuffled_index C i (len64 indices) seed) (vec_index indices))
      (map of_nat [committee_bound ?n c k..<committee_bound ?n c (Suc k)])
    = Ok (map (\<lambda>i. indices ! shuffle_perm C ?n seed i) [committee_bound ?n c k..<committee_bound ?n c (Suc k)])"
    unfolding collect_res_map by (intro collect_res_all_Ok) (simp only: set_upt atLeastLessThan_iff)
  then show ?thesis
    by (simp add: compute_committee_def div_checked_def c0 range64_def u1 u2)
qed

text \<open>
  C29: The shuffle permutes the registry: for up to \<open>2 ^ 40\<close> entries and any seed, every index of the
  list is accepted, and the results over all indices are a rearrangement of all indices.
\<close>

theorem shuffled_index_permutation:
  assumes "digest_ok C" "n \<le> 2 ^ 40"
  shows "\<exists>js. collect_res (\<lambda>i. shuffled_index C i (of_nat n) seed) (map of_nat [0..<n]) = Ok js \<and>
    mset js = mset (map of_nat [0..<n])"
proof -
  let ?p = "shuffle_perm C n seed"
  have "collect_res (\<lambda>i. shuffled_index C i (of_nat n) seed) (map of_nat [0..<n])
      = Ok (map (\<lambda>i. of_nat (?p i)) [0..<n])"
    unfolding collect_res_map using assms
    by (intro collect_res_all_Ok shuffled_index_perm(1)) simp_all
  moreover have "mset (map of_nat (map ?p [0..<n])) = (mset (map of_nat [0..<n]) :: u64 multiset)"
    by (subst (1 2) mset_map) (simp only: mset_shuffle_perm [OF assms])
  ultimately show ?thesis by (auto simp: comp_def)
qed

text \<open>A digest for the witnesses: it only has to return 32 bytes.\<close>

definition toy_digest :: "bytes \<Rightarrow> H256" where
  "toy_digest bs = take 32 (bs @ replicate 32 7)"

lemma length_toy_digest [simp]: "length (toy_digest bs) = 32"
  by (simp add: toy_digest_def)

definition toy_hashing :: Hashing where
  "toy_hashing = \<lparr>
     digest = toy_digest,
     root_u64 = (\<lambda>_. H256_default),
     root_signing_header = (\<lambda>h. to_bytes (sbh_slot h + 1)),
     root_body = (\<lambda>_. H256_default),
     root_unsealed_block = (\<lambda>b. to_bytes (ub_slot b)),
     root_state = (\<lambda>s. to_bytes (slot s + 1)),
     root_deposit_data = (\<lambda>d. to_bytes (dd_amount d)),
     root_signing_deposit_data = (\<lambda>d. to_bytes (sdd_amount d)),
     root_signing_voluntary_exit = (\<lambda>v. to_bytes (sve_epoch v)),
     root_attestation_data = (\<lambda>a. to_bytes (ad_slot (adc_data a))),
     root_historical_batch = (\<lambda>_. H256_default),
     compact_value_root = (\<lambda>leaf prf ix depth. Some leaf)\<rparr>"

lemma digest_ok_toy [simp]:
  "digest_ok (MinimalConfig toy_hashing)" "digest_ok (MainnetConfig toy_hashing)"
  by (simp_all add: digest_ok_def MinimalConfig_def MainnetConfig_def toy_hashing_def)

theorem shuffled_index_permutation_witness:
  "digest_ok (MainnetConfig toy_hashing) \<and> (65536 :: nat) \<le> 2 ^ 40 \<and>
   (\<exists>js. collect_res (\<lambda>i. shuffled_index (MainnetConfig toy_hashing) i (of_nat 65536) H256_default)
      (map of_nat [0..<65536]) = Ok js \<and> mset js = mset (map of_nat [0..<65536]))"
proof (intro conjI)
  show d: "digest_ok (MainnetConfig toy_hashing)" by simp
  show n: "(65536 :: nat) \<le> 2 ^ 40" by simp
  show "\<exists>js. collect_res (\<lambda>i. shuffled_index (MainnetConfig toy_hashing) i (of_nat 65536) H256_default)
      (map of_nat [0..<65536]) = Ok js \<and> mset js = mset (map of_nat [0..<65536])"
    by (rule shuffled_index_permutation [OF d n])
qed

text \<open>
  Committees partition the validators: cutting a list of at most \<open>2 ^ 40\<close> indices into any
  number of committees (up to \<open>2 ^ 20\<close>) succeeds, and the committees together hold every index
  exactly as often as the list does, so an active validator sits in exactly one of them.
\<close>

lemma compute_committee_partition:
  assumes "digest_ok C" "length indices \<le> 2 ^ 40" "0 < c" "c \<le> 2 ^ 20"
  shows "\<exists>cs. collect_res (\<lambda>k. compute_committee C indices seed k (of_nat c)) (map of_nat [0..<c]) = Ok cs \<and>
    mset (concat cs) = mset indices"
proof -
  let ?n = "length indices" and ?f = "\<lambda>i. indices ! shuffle_perm C (length indices) seed i"
  let ?b = "committee_bound ?n c"
  have "collect_res (\<lambda>k. compute_committee C indices seed k (of_nat c)) (map of_nat [0..<c])
      = Ok (map (\<lambda>k. map ?f [?b k..<?b (Suc k)]) [0..<c])"
    unfolding collect_res_map using assms
    by (intro collect_res_all_Ok compute_committee_segment) simp_all
  moreover have "concat (map (\<lambda>k. map ?f [?b k..<?b (Suc k)]) [0..<c]) = map ?f [?b 0..<?b c]"
    by (rule concat_upt_segments) (simp add: committee_bound_def div_le_mono)
  moreover have "?b 0 = 0" "?b c = ?n"
    using assms(3) by (simp_all add: committee_bound_def)
  ultimately show ?thesis using mset_shuffle [OF assms(1,2), of seed] by auto
qed

end
