(* ===== verification/Beacon_Accessors.thy ===== *)
theory Beacon_Accessors
  imports Beacon_Utils
begin

text \<open>
  The read-only methods of \<^verbatim>\<open>BeaconExecutive\<close>: \<^verbatim>\<open>executive/helpers/accessors.rs\<close>,
  \<^verbatim>\<open>executive/helpers/predicates.rs\<close>, \<^verbatim>\<open>executive/choice.rs\<close> and \<^verbatim>\<open>executive/assignment.rs\<close>. An executive is a
  mutable reference to a state and two cache fields that no method reads, so it is modelled by
  the state itself.

  A vector of dynamic length is indexed with \<open>vec_index\<close>, which panics out of bounds. A \<^verbatim>\<open>VecArray\<close> is
  always indexed modulo its type-level length, so \<open>!\<close> is in range on every well-formed state.
  \<^verbatim>\<open>beacon_proposer_index\<close> is an unbounded loop, modelled as a partial function: not returning is
  the outcome \<open>Diverge\<close>.
\<close>

section \<open>Epochs, roots and randomness\<close>

definition current_epoch :: "Config \<Rightarrow> BeaconState \<Rightarrow> Epoch" where
  "current_epoch C s = epoch_of_slot C (slot s)"

definition previous_epoch :: "Config \<Rightarrow> BeaconState \<Rightarrow> Epoch" where
  "previous_epoch C s =
     (let ce = current_epoch C s
      in if ce = genesis_epoch C then genesis_epoch C else saturating_sub ce 1)"

definition block_root_at_slot :: "Config \<Rightarrow> BeaconState \<Rightarrow> Slot \<Rightarrow> H256 result" where
  "block_root_at_slot C s slt =
     (if \<not> (slt < slot s \<and> slot s \<le> slt + slots_per_historical_root C) then Err SlotOutOfRange
      else Ok (block_roots s ! unat (slt mod slots_per_historical_root C)))"

definition block_root :: "Config \<Rightarrow> BeaconState \<Rightarrow> Epoch \<Rightarrow> H256 result" where
  "block_root C s ep = block_root_at_slot C s (start_slot_of_epoch C ep)"

definition randao_mix :: "Config \<Rightarrow> BeaconState \<Rightarrow> Epoch \<Rightarrow> H256" where
  "randao_mix C s ep = randao_mixes s ! unat (ep mod epochs_per_historical_vector C)"

definition active_validator_indices :: "BeaconState \<Rightarrow> Uint \<Rightarrow> ValidatorIndex list" where
  "active_validator_indices s ep =
     map (\<lambda>(i, v). of_nat i) (filter (\<lambda>(i, v). is_active v ep) (enumerate 0 (validators s)))"

definition active_validator_len :: "BeaconState \<Rightarrow> Uint \<Rightarrow> nat" where
  "active_validator_len s ep = length (active_validator_indices s ep)"

definition validator_churn_limit :: "Config \<Rightarrow> BeaconState \<Rightarrow> Uint" where
  "validator_churn_limit C s =
     max (min_per_epoch_churn_limit C)
       (of_nat (active_validator_len s (current_epoch C s)) div churn_limit_quotient C)"

definition seed :: "Config \<Rightarrow> BeaconState \<Rightarrow> Epoch \<Rightarrow> u32 \<Rightarrow> H256" where
  "seed C s ep domain_type =
     hash C [
       to_le_bytes domain_type,
       take 8 (to_le_bytes ep),
       randao_mix C s (ep + epochs_per_historical_vector C - min_seed_lookahead C - 1)]"

section \<open>Committees\<close>

definition committee_count_at_slot :: "Config \<Rightarrow> BeaconState \<Rightarrow> Uint \<Rightarrow> Uint" where
  "committee_count_at_slot C s slt =
     (let ep = epoch_of_slot C slt;
          n = active_validator_len s ep
      in max 1 (min (max_committees_per_slot C)
           (of_nat n div slots_per_epoch C div target_committee_size C)))"

definition beacon_committee ::
    "Config \<Rightarrow> BeaconState \<Rightarrow> Uint \<Rightarrow> Uint \<Rightarrow> ValidatorIndex list result" where
  "beacon_committee C s slt ix =
     (let ep = epoch_of_slot C slt;
          committees_per_slot = committee_count_at_slot C s slt;
          indices = active_validator_indices s ep;
          sd = seed C s ep domain_beacon_attester;
          k = (slt mod slots_per_epoch C) * committees_per_slot + ix;
          cnt = committees_per_slot * slots_per_epoch C
      in compute_committee C indices sd k cnt)"

section \<open>The block proposer\<close>

text \<open>One iteration of the loop of \<^verbatim>\<open>beacon_proposer_index\<close>: the candidate, and whether it is taken.\<close>

definition proposer_step ::
    "Config \<Rightarrow> BeaconState \<Rightarrow> H256 \<Rightarrow> ValidatorIndex list \<Rightarrow> u64 \<Rightarrow> (ValidatorIndex \<times> bool) result" where
  "proposer_step C s sd indices i =
     (if indices = [] then Panic
      else rbind (shuffled_index C (i mod len64 indices) (len64 indices) sd) (\<lambda>j.
        rbind (vec_index indices j) (\<lambda>candidate.
        rbind (vec_index (hash C [sd, take 8 (to_bytes (i div 32))]) (i mod 32)) (\<lambda>random_byte.
        rbind (vec_index (validators s) candidate) (\<lambda>v.
        Ok (candidate,
            effective_balance v * 255 \<ge> max_effective_balance C * ucast random_byte))))))"

partial_function (option) proposer_loop ::
    "Config \<Rightarrow> BeaconState \<Rightarrow> H256 \<Rightarrow> ValidatorIndex list \<Rightarrow> u64 \<Rightarrow> ValidatorIndex result option" where
  "proposer_loop C s sd indices i =
     (case proposer_step C s sd indices i of
        Ok (candidate, taken) \<Rightarrow>
          if taken then Some (Ok candidate) else proposer_loop C s sd indices (i + 1)
      | Err e \<Rightarrow> Some (Err e)
      | Panic \<Rightarrow> Some Panic
      | Diverge \<Rightarrow> Some Diverge)"

definition beacon_proposer_index :: "Config \<Rightarrow> BeaconState \<Rightarrow> ValidatorIndex result" where
  "beacon_proposer_index C s =
     (let ep = current_epoch C s;
          sd = hash C [seed C s ep domain_beacon_proposer, take 8 (to_le_bytes (slot s))];
          indices = active_validator_indices s ep
      in case proposer_loop C s sd indices 0 of None \<Rightarrow> Diverge | Some r \<Rightarrow> r)"

section \<open>Balances and domains\<close>

definition total_balance :: "BeaconState \<Rightarrow> ValidatorIndex list \<Rightarrow> Gwei result" where
  "total_balance s indices =
     rbind (collect_res (\<lambda>i. rbind (vec_index (validators s) i) (\<lambda>v. Ok (effective_balance v))) indices)
       (\<lambda>bs. Ok (max (foldl (+) 0 bs) 1))"

definition total_active_balance :: "Config \<Rightarrow> BeaconState \<Rightarrow> Gwei result" where
  "total_active_balance C s =
     total_balance s (active_validator_indices s (current_epoch C s))"

definition domain :: "Config \<Rightarrow> BeaconState \<Rightarrow> u32 \<Rightarrow> Uint option \<Rightarrow> Uint" where
  "domain C s domain_type message_epoch =
     (let ep = (case message_epoch of Some e \<Rightarrow> e | None \<Rightarrow> current_epoch C s);
          fork_version = (if ep < fork_epoch (fork s) then previous_version (fork s)
                          else current_version (fork s))
      in bls_domain domain_type fork_version)"

section \<open>Attestations\<close>

definition attesting_indices ::
    "Config \<Rightarrow> BeaconState \<Rightarrow> AttestationData \<Rightarrow> bool list \<Rightarrow> ValidatorIndex list result" where
  "attesting_indices C s data bitfield =
     rbind (beacon_committee C s (ad_slot data) (ad_index data)) (\<lambda>committee.
     if length committee \<noteq> length bitfield then Err AttestationBitFieldInvalid
     else Ok (sort (map snd (filter (\<lambda>(i, _). bitfield ! i) (enumerate 0 committee)))))"

definition indexed_attestation ::
    "Config \<Rightarrow> BeaconState \<Rightarrow> Attestation \<Rightarrow> IndexedAttestation result" where
  "indexed_attestation C s attestation =
     rbind (attesting_indices C s (at_data attestation) (aggregation_bits attestation)) (\<lambda>attesting.
     rbind (attesting_indices C s (at_data attestation) (custody_bits attestation)) (\<lambda>bit_1.
     let bit_0 = filter (\<lambda>i. i \<notin> set bit_1) attesting
     in Ok \<lparr>custody_bit_0_indices = bit_0, custody_bit_1_indices = bit_1,
            ia_data = at_data attestation, ia_signature = at_signature attestation\<rparr>))"

text \<open>\<^verbatim>\<open>windows(2).all(|w| w[0] <= w[1])\<close>\<close>

fun windows_le :: "Uint list \<Rightarrow> bool" where
  "windows_le (a # b # xs) = (a \<le> b \<and> windows_le (b # xs))"
| "windows_le _ = True"

lemma windows_le_sorted: "windows_le xs = sorted xs"
proof (induction xs rule: windows_le.induct)
  case (1 a b xs)
  then show ?case by (auto intro: order_trans)
qed simp_all

definition is_valid_indexed_attestation ::
    "Config \<Rightarrow> BLSConfig \<Rightarrow> BeaconState \<Rightarrow> IndexedAttestation \<Rightarrow> bool result" where
  "is_valid_indexed_attestation C BLS s ia =
     (let bit_0 = custody_bit_0_indices ia; bit_1 = custody_bit_1_indices ia in
      if length bit_1 > 0 then Ok False
      else if \<not> (of_nat (length bit_0 + length bit_1) \<le> max_validators_per_committee C) then Ok False
      else if \<exists>i\<in>set bit_0. i \<in> set bit_1 then Ok False
      else if \<not> windows_le bit_0 then Ok False
      else if \<not> windows_le bit_1 then Ok False
      else
        rbind (collect_res (\<lambda>i. rbind (vec_index (validators s) i) (\<lambda>v. Ok (pubkey v))) bit_0) (\<lambda>keys_0.
        rbind (collect_res (\<lambda>i. rbind (vec_index (validators s) i) (\<lambda>v. Ok (pubkey v))) bit_1) (\<lambda>keys_1.
        Ok (verify_multiple BLS
          [aggregate_pubkeys BLS keys_0, aggregate_pubkeys BLS keys_1]
          [root_attestation_data (hashing C) \<lparr>adc_data = ia_data ia, custody_bit = False\<rparr>,
           root_attestation_data (hashing C) \<lparr>adc_data = ia_data ia, custody_bit = True\<rparr>]
          (ia_signature ia)
          (domain C s domain_beacon_attester (Some (epoch (target (ia_data ia)))))))))"

section \<open>Fork choice and assignments\<close>

definition justified_active_validators :: "BeaconState \<Rightarrow> u64 list" where
  "justified_active_validators s =
     active_validator_indices s (epoch (current_justified_checkpoint s))"

definition block_vote_targets ::
    "Config \<Rightarrow> BeaconState \<Rightarrow> BeaconBlock \<Rightarrow> (u64 \<times> H256) list result" where
  "block_vote_targets C s block =
     rbind (collect_res (\<lambda>a.
       rbind (indexed_attestation C s a) (\<lambda>indexed.
       Ok (map (\<lambda>v. (v, root (target (ia_data indexed))))
         (custody_bit_0_indices indexed @ custody_bit_1_indices indexed))))
       (attestations (bb_body block)))
     (\<lambda>vss. Ok (concat vss))"

record CommitteeAssignment =
  ca_validators :: "u64 list"
  ca_index :: u64
  ca_slot :: u64

fun find_in_committees ::
    "Config \<Rightarrow> BeaconState \<Rightarrow> u64 \<Rightarrow> u64 \<Rightarrow> u64 list \<Rightarrow> CommitteeAssignment option result" where
  "find_in_committees C s vi slt [] = Ok None"
| "find_in_committees C s vi slt (ix # ixs) =
     rbind (beacon_committee C s slt ix) (\<lambda>committee.
       if vi \<in> set committee
       then Ok (Some \<lparr>ca_validators = committee, ca_index = ix, ca_slot = slt\<rparr>)
       else find_in_committees C s vi slt ixs)"

fun find_in_slots ::
    "Config \<Rightarrow> BeaconState \<Rightarrow> u64 \<Rightarrow> u64 list \<Rightarrow> CommitteeAssignment option result" where
  "find_in_slots C s vi [] = Ok None"
| "find_in_slots C s vi (slt # slts) =
     rbind (find_in_committees C s vi slt (range64 0 (committee_count_at_slot C s slt))) (\<lambda>r.
       case r of Some a \<Rightarrow> Ok (Some a) | None \<Rightarrow> find_in_slots C s vi slts)"

definition committee_assignment ::
    "Config \<Rightarrow> BeaconState \<Rightarrow> u64 \<Rightarrow> u64 \<Rightarrow> CommitteeAssignment option result" where
  "committee_assignment C s ep vi =
     (let next_epoch = current_epoch C s + 1 in
      if ep > next_epoch then Err EpochOutOfRange
      else let start = start_slot_of_epoch C ep
           in find_in_slots C s vi (range64 start (start + slots_per_epoch C)))"

definition validator_pubkey :: "BeaconState \<Rightarrow> u64 \<Rightarrow> ValidatorId option" where
  "validator_pubkey s i =
     (if unat i \<ge> length (validators s) then None else Some (pubkey (validators s ! unat i)))"

text \<open>\<^verbatim>\<open>iter().position(|v| v == x)\<close>\<close>

fun position :: "'a \<Rightarrow> 'a list \<Rightarrow> nat option" where
  "position x [] = None"
| "position x (y # ys) = (if y = x then Some 0 else map_option Suc (position x ys))"

definition validator_index :: "BeaconState \<Rightarrow> ValidatorId \<Rightarrow> u64 option" where
  "validator_index s key = map_option of_nat (position key (map pubkey (validators s)))"

section \<open>Facts about the registry\<close>

text \<open>\<^verbatim>\<open>VALIDATOR_REGISTRY_LIMIT\<close> is \<open>2 ^ 40\<close> in all three configurations.\<close>

definition registry_ok :: "BeaconState \<Rightarrow> bool" where
  "registry_ok s \<longleftrightarrow> length (validators s) \<le> 2 ^ 40"

lemma active_validator_indices_alt:
  "active_validator_indices s ep =
     map of_nat (filter (\<lambda>i. is_active (validators s ! i) ep) [0..<length (validators s)])"
proof -
  have "enumerate 0 xs = map (\<lambda>i. (i, xs ! i)) [0..<length xs]" for xs :: "Validator list"
    by (rule nth_equalityI) (simp_all add: nth_enumerate_eq)
  then show ?thesis by (simp add: active_validator_indices_def filter_map comp_def)
qed

lemma length_active_validator_indices:
  "length (active_validator_indices s ep) \<le> length (validators s)"
  unfolding active_validator_indices_alt length_map
  using length_filter_le [of _ "[0..<length (validators s)]"] by simp

lemma unat_of_nat_registry [simp]:
  "registry_ok s \<Longrightarrow> i < length (validators s) \<Longrightarrow> unat (of_nat i :: u64) = i"
  by (simp add: registry_ok_def unat_of_nat_u64)

lemma mem_active_validator_indices:
  assumes "registry_ok s"
  shows "i \<in> set (active_validator_indices s ep) \<longleftrightarrow>
    unat i < length (validators s) \<and> is_active (validators s ! unat i) ep"
proof
  assume "i \<in> set (active_validator_indices s ep)"
  then show "unat i < length (validators s) \<and> is_active (validators s ! unat i) ep"
    using assms by (auto simp: active_validator_indices_alt)
next
  assume "unat i < length (validators s) \<and> is_active (validators s ! unat i) ep"
  then show "i \<in> set (active_validator_indices s ep)"
    by (force simp: active_validator_indices_alt image_iff)
qed

lemma distinct_active_validator_indices:
  assumes "registry_ok s"
  shows "distinct (active_validator_indices s ep)"
  unfolding active_validator_indices_alt distinct_map
proof
  show "inj_on (of_nat :: nat \<Rightarrow> u64) (set (filter (\<lambda>i. is_active (validators s ! i) ep) [0..<length (validators s)]))"
    by (rule inj_on_inverseI [where g = unat]) (use assms in auto)
qed simp

lemma total_balance_Ok:
  assumes "\<And>i. i \<in> set is \<Longrightarrow> unat i < length (validators s)"
  shows "total_balance s is = Ok (max (sum_list (map (\<lambda>i. effective_balance (validators s ! unat i)) is)) 1)"
proof -
  have "collect_res (\<lambda>i. rbind (vec_index (validators s) i) (\<lambda>v. Ok (effective_balance v))) is
      = (Ok (map (\<lambda>i. effective_balance (validators s ! unat i)) is) :: u64 list result)"
    by (rule collect_res_all_Ok) (simp add: vec_index_in_range assms)
  then show ?thesis by (simp add: total_balance_def foldl_plus_word)
qed

lemma total_active_balance_Ok:
  assumes "registry_ok s"
  shows "\<exists>b. total_active_balance C s = Ok b \<and> 1 \<le> b"
  unfolding total_active_balance_def
  using total_balance_Ok [of "active_validator_indices s (current_epoch C s)" s] assms
  by (simp add: mem_active_validator_indices)

section \<open>The proposer loop\<close>

lemma proposer_loop_unfold [code]:
  "proposer_loop C s sd indices i =
     (case proposer_step C s sd indices i of
        Ok (candidate, taken) \<Rightarrow>
          if taken then Some (Ok candidate) else proposer_loop C s sd indices (i + 1)
      | Err e \<Rightarrow> Some (Err e)
      | Panic \<Rightarrow> Some Panic
      | Diverge \<Rightarrow> Some Diverge)"
  by (rule proposer_loop.simps)

lemma proposer_step_mem:
  assumes "proposer_step C s sd indices i = Ok (c, t)"
  shows "c \<in> set indices"
  using assms by (auto simp: proposer_step_def split: if_splits)

lemma proposer_step_total:
  assumes C: "digest_ok C" and ne: "indices \<noteq> []" and len: "length indices \<le> 2 ^ 40"
    and reg: "\<And>j. j \<in> set indices \<Longrightarrow> unat j < length (validators s)"
  shows "\<exists>c t. proposer_step C s sd indices i = Ok (c, t)"
proof -
  let ?n = "len64 indices"
  have n: "?n \<noteq> 0" "?n \<le> 2 ^ 40" "unat ?n = length indices"
    using ne len by (auto simp: word_le_nat_alt word_unat_eq_iff)
  have lt: "i mod ?n < ?n" using n(1) by (intro word_mod_less_divisor) (simp add: word_gt_0)
  obtain j where j: "j < ?n" "shuffled_index C (i mod ?n) ?n sd = Ok j"
    using shuffle_rounds_total [OF C n(2) lt] lt n(2) by (auto simp: shuffled_index_def)
  have jl: "unat j < length indices" using j(1) n(3) by (simp add: word_less_nat_alt)
  then have "unat (indices ! unat j) < length (validators s)" using reg by simp
  moreover have "unat (i mod 32) < 32" by (simp add: unat_mod)
  ultimately show ?thesis
    using ne j(2) jl C by (simp add: proposer_step_def vec_index_in_range)
qed

text \<open>The loop returns the first accepted candidate.\<close>

lemma proposer_loop_first:
  assumes total: "\<And>i. \<exists>c t. proposer_step C s sd indices i = Ok (c, t)"
    and hit: "proposer_step C s sd indices (i + of_nat k) = Ok (c, True)"
  shows "\<exists>m c'. m \<le> k \<and> proposer_step C s sd indices (i + of_nat m) = Ok (c', True) \<and>
    (\<forall>l<m. \<exists>c''. proposer_step C s sd indices (i + of_nat l) = Ok (c'', False)) \<and>
    proposer_loop C s sd indices i = Some (Ok c')"
  using hit
proof (induction k arbitrary: i)
  case 0
  then show ?case by (intro exI [of _ 0] exI [of _ c]) (simp add: proposer_loop_unfold [of C s sd indices i])
next
  case (Suc k)
  obtain c0 t0 where s0: "proposer_step C s sd indices i = Ok (c0, t0)" using total by blast
  show ?case
  proof (cases t0)
    case True
    with s0 show ?thesis
      by (intro exI [of _ 0] exI [of _ c0]) (simp add: proposer_loop_unfold [of C s sd indices i])
  next
    case False
    have "proposer_step C s sd indices (i + 1 + of_nat k) = Ok (c, True)"
      using Suc.prems by (simp add: algebra_simps)
    from Suc.IH [OF this] obtain m c' where m: "m \<le> k"
      "proposer_step C s sd indices (i + 1 + of_nat m) = Ok (c', True)"
      "\<forall>l<m. \<exists>c''. proposer_step C s sd indices (i + 1 + of_nat l) = Ok (c'', False)"
      "proposer_loop C s sd indices (i + 1) = Some (Ok c')" by blast
    have "\<exists>c''. proposer_step C s sd indices (i + of_nat l) = Ok (c'', False)" if "l < Suc m" for l
      using that m(3) s0 False by (cases l) (auto simp: algebra_simps)
    moreover have "proposer_step C s sd indices (i + of_nat (Suc m)) = Ok (c', True)"
      using m(2) by (simp add: algebra_simps)
    moreover have "proposer_loop C s sd indices i = Some (Ok c')"
      using m(4) s0 False by (simp add: proposer_loop_unfold [of C s sd indices i])
    ultimately show ?thesis using m(1) by (intro exI [of _ "Suc m"] exI [of _ c']) blast
  qed
qed

lemma proposer_loop_result:
  assumes "proposer_loop C s sd indices i = Some (Ok c)"
  shows "c \<in> set indices"
proof -
  have "r = Ok c \<longrightarrow> c \<in> set indices" if "proposer_loop C s sd indices i = Some r" for r
  proof (rule proposer_loop.raw_induct
      [where P = "\<lambda>C s sd indices i r. r = Ok c \<longrightarrow> c \<in> set indices", OF _ that])
    fix loop C s sd indices i r
    assume IH: "\<And>C s sd indices i r. loop C s sd indices i = Some r \<Longrightarrow> r = Ok c \<longrightarrow> c \<in> set indices"
      and eq: "(case proposer_step C s sd indices i of
          Ok (candidate, taken) \<Rightarrow>
            if taken then Some (Ok candidate) else loop C s sd indices (i + 1)
        | Err e \<Rightarrow> Some (Err e) | Panic \<Rightarrow> Some Panic | Diverge \<Rightarrow> Some Diverge) = Some r"
    show "r = Ok c \<longrightarrow> c \<in> set indices"
      using eq IH [of C s sd indices "i + 1" r]
      by (auto split: res.splits if_splits dest: proposer_step_mem)
  qed
  with assms show ?thesis by blast
qed

lemma committee_count_bound:
  assumes "config_ok C"
  shows "0 < unat (committee_count_at_slot C s slt)" "unat (committee_count_at_slot C s slt) \<le> 2 ^ 10"
proof -
  let ?c = "committee_count_at_slot C s slt"
  have "1 \<le> ?c" "?c \<le> max 1 (max_committees_per_slot C)"
    by (simp_all add: committee_count_at_slot_def Let_def max.coboundedI2)
  moreover have "max 1 (max_committees_per_slot C) \<le> 2 ^ 10"
    using assms by (simp add: config_ok_def)
  ultimately have "1 \<le> ?c" "?c \<le> 2 ^ 10" by (blast intro: order_trans)+
  then show "0 < unat ?c" "unat ?c \<le> 2 ^ 10"
    by (simp_all add: word_le_nat_alt)
qed

lemma epoch_slots:
  assumes C: "config_ok C" and ep: "ep < 2 ^ 53"
  shows "range64 (start_slot_of_epoch C ep) (start_slot_of_epoch C ep + slots_per_epoch C) =
      map (\<lambda>j. start_slot_of_epoch C ep + of_nat j) [0..<unat (slots_per_epoch C)]"
    and "j < unat (slots_per_epoch C) \<Longrightarrow> epoch_of_slot C (start_slot_of_epoch C ep + of_nat j) = ep"
    and "j < unat (slots_per_epoch C) \<Longrightarrow>
      (start_slot_of_epoch C ep + of_nat j) mod slots_per_epoch C = of_nat j"
proof -
  let ?S = "unat (slots_per_epoch C)"
  have S: "0 < ?S" "?S \<le> 2 ^ 10"
    using C by (auto simp: config_ok_def word_le_nat_alt word_less_nat_alt)
  have e: "unat ep < 2 ^ 53" using ep by (simp add: word_less_nat_alt)
  have "unat ep * ?S \<le> (2 ^ 53 - 1) * 2 ^ 10" using S e by (intro mult_le_mono) simp_all
  then have st: "unat ep * ?S + ?S < 2 ^ 64" using S by simp
  have start: "unat (start_slot_of_epoch C ep) = unat ep * ?S"
    using st by (simp add: start_slot_of_epoch_def unat_word_ariths)
  show "range64 (start_slot_of_epoch C ep) (start_slot_of_epoch C ep + slots_per_epoch C) =
      map (\<lambda>j. start_slot_of_epoch C ep + of_nat j) [0..<?S]"
    using st start by (intro range64_shift) simp
  assume j: "j < ?S"
  have uj: "unat (of_nat j :: u64) = j" using j S by (intro unat_of_nat_u64) simp
  have u: "unat (start_slot_of_epoch C ep + of_nat j) = unat ep * ?S + j"
    using st start j by (simp add: unat_word_ariths uj)
  show "epoch_of_slot C (start_slot_of_epoch C ep + of_nat j) = ep"
    using j u by (simp add: epoch_of_slot_def word_unat_eq_iff unat_div)
  show "(start_slot_of_epoch C ep + of_nat j) mod slots_per_epoch C = of_nat j"
    using j by (simp add: word_unat_eq_iff unat_mod u uj)
qed

text \<open>Every committee of an epoch is a segment of one shuffle of the active validators.\<close>

lemma beacon_committee_segment:
  assumes C: "config_ok C" "digest_ok C" and s: "registry_ok s" and ep: "ep < 2 ^ 53"
    and j: "j < unat (slots_per_epoch C)" and cps: "K = unat (committee_count_at_slot C s (start_slot_of_epoch C ep))"
    and i: "i < K"
    and a: "a = active_validator_indices s ep"
  shows "committee_count_at_slot C s (start_slot_of_epoch C ep + of_nat j) = of_nat K"
    and "beacon_committee C s (start_slot_of_epoch C ep + of_nat j) (of_nat i) =
      Ok (map (\<lambda>i. a ! shuffle_perm C (length a) (seed C s ep domain_beacon_attester) i)
        [committee_bound (length a) (unat (slots_per_epoch C) * K) (j * K + i)..<
         committee_bound (length a) (unat (slots_per_epoch C) * K) (Suc (j * K + i))])"
proof -
  let ?S = "unat (slots_per_epoch C)"
  let ?slt = "start_slot_of_epoch C ep + of_nat j"
  have S: "0 < ?S" "?S \<le> 2 ^ 10"
    using C by (auto simp: config_ok_def word_le_nat_alt word_less_nat_alt)
  have K: "0 < K" "K \<le> 2 ^ 10" using committee_count_bound [OF C(1)] cps by simp_all
  note sl = epoch_slots [OF C(1) ep]
  have e: "epoch_of_slot C ?slt = ep" "epoch_of_slot C (start_slot_of_epoch C ep) = ep"
    using sl(2) [OF j] sl(2) [OF S(1)] by simp_all
  show cc: "committee_count_at_slot C s ?slt = of_nat K"
    unfolding cps by (simp add: committee_count_at_slot_def e)
  have "?S * K \<le> 2 ^ 10 * 2 ^ 10" using S K by (intro mult_le_mono)
  then have c: "0 < ?S * K" "?S * K \<le> 2 ^ 20" using S K by simp_all
  have "j * K + K \<le> ?S * K" using j by (metis Suc_leI add.commute mult_Suc mult_le_mono1)
  then have k: "j * K + i < ?S * K" using i by simp
  have "length a \<le> 2 ^ 40"
    using length_active_validator_indices [of s ep] s by (simp add: registry_ok_def a)
  from compute_committee_segment [OF C(2) this c k, of "seed C s ep domain_beacon_attester"]
  show "beacon_committee C s ?slt (of_nat i) =
      Ok (map (\<lambda>i. a ! shuffle_perm C (length a) (seed C s ep domain_beacon_attester) i)
        [committee_bound (length a) (?S * K) (j * K + i)..<committee_bound (length a) (?S * K) (Suc (j * K + i))])"
    by (simp add: beacon_committee_def Let_def e cc sl(3) [OF j] a mult.commute)
qed

definition epoch_committees :: "Config \<Rightarrow> BeaconState \<Rightarrow> Epoch \<Rightarrow> ValidatorIndex list list list result" where
  "epoch_committees C s ep =
     collect_res (\<lambda>slt. collect_res (beacon_committee C s slt) (range64 0 (committee_count_at_slot C s slt)))
       (range64 (start_slot_of_epoch C ep) (start_slot_of_epoch C ep + slots_per_epoch C))"

lemma epoch_committees_partition:
  assumes C: "config_ok C" "digest_ok C" and s: "registry_ok s" and ep: "ep < 2 ^ 53"
  shows "\<exists>css. epoch_committees C s ep = Ok css \<and>
    mset (concat (concat css)) = mset (active_validator_indices s ep)"
proof -
  define a where "a = active_validator_indices s ep"
  define K where "K = unat (committee_count_at_slot C s (start_slot_of_epoch C ep))"
  define S where "S = unat (slots_per_epoch C)"
  define f where "f i = a ! shuffle_perm C (length a) (seed C s ep domain_beacon_attester) i" for i
  define b where "b = committee_bound (length a) (S * K)"
  have K: "0 < K" "K \<le> 2 ^ 10" using committee_count_bound [OF C(1)] K_def by simp_all
  have S: "0 < S" using C by (simp add: S_def config_ok_def word_less_nat_alt)
  have r: "range64 0 (of_nat K) = map of_nat [0..<K]"
    using K by (simp add: range64_def unat_of_nat_u64)
  note seg = beacon_committee_segment [OF C s ep _ K_def _ a_def, folded f_def S_def b_def]
  have "epoch_committees C s ep
      = Ok (map (\<lambda>j. map (\<lambda>i. map f [b (j * K + i)..<b (Suc (j * K + i))]) [0..<K]) [0..<S])"
    unfolding epoch_committees_def epoch_slots(1) [OF C(1) ep, folded S_def] collect_res_map
  proof (intro collect_res_all_Ok)
    fix j assume "j \<in> set [0..<S]"
    then have j: "j < S" by simp
    show "collect_res (beacon_committee C s (start_slot_of_epoch C ep + of_nat j))
        (range64 0 (committee_count_at_slot C s (start_slot_of_epoch C ep + of_nat j)))
      = Ok (map (\<lambda>i. map f [b (j * K + i)..<b (Suc (j * K + i))]) [0..<K])"
      unfolding seg(1) [OF j K(1)] r collect_res_map
      using seg(2) [OF j] by (intro collect_res_all_Ok) (simp add: b_def)
  qed
  moreover have "concat (concat (map (\<lambda>j. map (\<lambda>i. map f [b (j * K + i)..<b (Suc (j * K + i))]) [0..<K]) [0..<S]))
      = map f [0..<length a]"
  proof -
    have "b 0 = 0" "b (S * K) = length a" using K S by (simp_all add: b_def committee_bound_def)
    then show ?thesis
      unfolding concat_map_blocks [of "\<lambda>k. map f [b k..<b (Suc k)]"]
      by (subst concat_upt_segments) (simp_all add: b_def committee_bound_def div_le_mono)
  qed
  moreover have "mset (map f [0..<length a]) = mset a"
    unfolding f_def [abs_def] using length_active_validator_indices [of s ep] s
    by (intro mset_shuffle [OF C(2)]) (simp add: registry_ok_def a_def)
  ultimately show ?thesis by (simp add: a_def)
qed

section \<open>The proposer\<close>

lemma proposer_loop_hit:
  assumes "proposer_loop C s sd indices i = Some (Ok c)"
  shows "\<exists>k. proposer_step C s sd indices (i + of_nat k) = Ok (c, True) \<and>
    (\<forall>l<k. \<exists>c'. proposer_step C s sd indices (i + of_nat l) = Ok (c', False))"
proof -
  let ?P = "\<lambda>C s sd indices i r. r = Ok c \<longrightarrow>
    (\<exists>k. proposer_step C s sd indices (i + of_nat k) = Ok (c, True) \<and>
      (\<forall>l<k. \<exists>c'. proposer_step C s sd indices (i + of_nat l) = Ok (c', False)))"
  have "?P C s sd indices i r" if "proposer_loop C s sd indices i = Some r" for r
  proof (rule proposer_loop.raw_induct [where P = ?P, OF _ that])
    fix loop C s sd indices i r
    assume IH: "\<And>C s sd indices i r. loop C s sd indices i = Some r \<Longrightarrow> ?P C s sd indices i r"
      and eq: "(case proposer_step C s sd indices i of
          Ok (candidate, taken) \<Rightarrow>
            if taken then Some (Ok candidate) else loop C s sd indices (i + 1)
        | Err e \<Rightarrow> Some (Err e) | Panic \<Rightarrow> Some Panic | Diverge \<Rightarrow> Some Diverge) = Some r"
    show "?P C s sd indices i r"
    proof
      assume r: "r = Ok c"
      then consider "proposer_step C s sd indices i = Ok (c, True)"
        | c' where "proposer_step C s sd indices i = Ok (c', False)" "loop C s sd indices (i + 1) = Some r"
        using eq by (auto split: res.splits if_splits)
      then show "\<exists>k. proposer_step C s sd indices (i + of_nat k) = Ok (c, True) \<and>
          (\<forall>l<k. \<exists>c'. proposer_step C s sd indices (i + of_nat l) = Ok (c', False))"
      proof cases
        case 1
        then show ?thesis by (intro exI [of _ 0]) simp
      next
        case 2
        from IH [OF 2(2)] r obtain k where k: "proposer_step C s sd indices (i + 1 + of_nat k) = Ok (c, True)"
          "\<forall>l<k. \<exists>c'. proposer_step C s sd indices (i + 1 + of_nat l) = Ok (c', False)" by blast
        have "\<exists>c''. proposer_step C s sd indices (i + of_nat l) = Ok (c'', False)" if "l < Suc k" for l
          using that k(2) 2(1) by (cases l) (auto simp: algebra_simps)
        then show ?thesis using k(1) by (intro exI [of _ "Suc k"]) (simp add: algebra_simps)
      qed
    qed
  qed
  with assms show ?thesis by blast
qed

definition proposer_seed :: "Config \<Rightarrow> BeaconState \<Rightarrow> H256" where
  "proposer_seed C s =
     hash C [seed C s (current_epoch C s) domain_beacon_proposer, take 8 (to_le_bytes (slot s))]"

lemma proposer_step_active:
  assumes "digest_ok C" "registry_ok s" "active_validator_indices s ep \<noteq> []"
  shows "\<exists>c t. proposer_step C s sd (active_validator_indices s ep) i = Ok (c, t)"
proof (rule proposer_step_total [OF assms(1,3)])
  show "length (active_validator_indices s ep) \<le> 2 ^ 40"
    using length_active_validator_indices [of s ep] assms(2) by (simp add: registry_ok_def)
  show "j \<in> set (active_validator_indices s ep) \<Longrightarrow> unat j < length (validators s)" for j
    using assms(2) by (simp add: mem_active_validator_indices)
qed

text \<open>
  C13: Proposer selection is rejection sampling over the active validators: with at least one
  active validator the method returns a validator exactly when some iteration accepts it and every
  earlier iteration rejected its candidate, and the validator it returns is active in the current epoch.
\<close>

theorem beacon_proposer_index_iff:
  assumes "digest_ok C" "registry_ok s" "active_validator_indices s (current_epoch C s) \<noteq> []"
  shows "(beacon_proposer_index C s = Ok c \<longleftrightarrow>
      (\<exists>k. proposer_step C s (proposer_seed C s) (active_validator_indices s (current_epoch C s)) (of_nat k) = Ok (c, True) \<and>
        (\<forall>l<k. \<exists>c'. proposer_step C s (proposer_seed C s) (active_validator_indices s (current_epoch C s)) (of_nat l) = Ok (c', False))))
    \<and> (beacon_proposer_index C s = Ok c \<longrightarrow>
        unat c < length (validators s) \<and> is_active (validators s ! unat c) (current_epoch C s))"
proof -
  let ?a = "active_validator_indices s (current_epoch C s)"
  let ?step = "\<lambda>k. proposer_step C s (proposer_seed C s) ?a (of_nat k)"
  have r: "beacon_proposer_index C s = Ok c \<longleftrightarrow> proposer_loop C s (proposer_seed C s) ?a 0 = Some (Ok c)"
    by (auto simp: beacon_proposer_index_def Let_def proposer_seed_def split: option.splits)
  have "proposer_loop C s (proposer_seed C s) ?a 0 = Some (Ok c)"
    if h: "?step k = Ok (c, True)" "\<forall>l<k. \<exists>c'. ?step l = Ok (c', False)" for k
  proof -
    obtain m c' where m: "m \<le> k" "?step m = Ok (c', True)"
      "proposer_loop C s (proposer_seed C s) ?a 0 = Some (Ok c')"
      using proposer_loop_first [OF proposer_step_active [OF assms], of "proposer_seed C s" 0 k c] h(1)
      by auto
    have "m = k" using m(1,2) h(2) by (metis Pair_inject le_neq_implies_less res.inject(1))
    with m h(1) show ?thesis by simp
  qed
  moreover have "unat c < length (validators s) \<and> is_active (validators s ! unat c) (current_epoch C s)"
    if "proposer_loop C s (proposer_seed C s) ?a 0 = Some (Ok c)"
    using proposer_loop_result [OF that] assms(2) by (simp add: mem_active_validator_indices)
  ultimately show ?thesis
    unfolding r using proposer_loop_hit [of C s "proposer_seed C s" ?a 0 c] by auto
qed


text \<open>
  C31: Proposer selection terminates when every active validator has the full effective balance:
  the first sampled candidate is accepted whatever the random byte is.
\<close>

theorem beacon_proposer_index_returns:
  assumes "config_ok C" "digest_ok C" "registry_ok s"
    and "active_validator_indices s (current_epoch C s) \<noteq> []"
    and "\<forall>v\<in>set (validators s). is_active v (current_epoch C s) \<longrightarrow> effective_balance v = max_effective_balance C"
  shows "\<exists>i. beacon_proposer_index C s = Ok i"
proof -
  let ?a = "active_validator_indices s (current_epoch C s)"
  obtain c t where st: "proposer_step C s (proposer_seed C s) ?a 0 = Ok (c, t)"
    using proposer_step_active [OF assms(2-4), of "proposer_seed C s" 0] by blast
  have c: "unat c < length (validators s)" "is_active (validators s ! unat c) (current_epoch C s)"
    using proposer_step_mem [OF st] assms(3) by (simp_all add: mem_active_validator_indices)
  then have eb: "effective_balance (validators s ! unat c) = max_effective_balance C" using assms(5) by simp
  have "max_effective_balance C * ucast b \<le> max_effective_balance C * 255" for b :: u8
  proof -
    have m: "unat (max_effective_balance C) \<le> 2 ^ 40" and b: "unat b \<le> 255"
      using assms(1) unsigned_less [of b, where ?'a = nat] by (simp_all add: config_ok_def word_le_nat_alt)
    have "unat (max_effective_balance C) * unat b \<le> unat (max_effective_balance C) * 255"
      using b by (rule mult_le_mono2)
    moreover have "unat (max_effective_balance C) * 255 < 2 ^ 64" using m by simp
    moreover have "unat (ucast b :: u64) = unat b" by (simp add: unsigned_ucast_eq take_bit_nat_eq_self b le_less_trans [OF b])
    ultimately show ?thesis
      by (simp add: word_le_nat_alt unat_word_ariths order_trans [OF mod_less_eq_dividend] del: mult_le_cancel1)
  qed
  then have "t" using st eb by (auto simp: proposer_step_def split: if_splits)
  then have "proposer_loop C s (proposer_seed C s) ?a 0 = Some (Ok c)"
    using st by (simp add: proposer_loop_unfold [of C s _ _ 0])
  then show ?thesis by (simp add: beacon_proposer_index_def Let_def proposer_seed_def)
qed

section \<open>Committee assignments\<close>

lemma find_in_committees_Ok:
  assumes "collect_res (beacon_committee C s slt) ixs = Ok cs"
  shows "(\<exists>a. find_in_committees C s vi slt ixs = Ok (Some a) \<and> vi \<in> set (ca_validators a) \<and> ca_slot a = slt \<and>
      ca_index a \<in> set ixs \<and> beacon_committee C s slt (ca_index a) = Ok (ca_validators a) \<and> vi \<in> set (concat cs)) \<or>
    (find_in_committees C s vi slt ixs = Ok None \<and> vi \<notin> set (concat cs))"
  using assms
proof (induction ixs arbitrary: cs)
  case (Cons ix ixs)
  then obtain c cs' where c: "beacon_committee C s slt ix = Ok c" "collect_res (beacon_committee C s slt) ixs = Ok cs'"
    "cs = c # cs'" by auto
  show ?case using Cons.IH [OF c(2)] c by (cases "vi \<in> set c") auto
qed simp

lemma find_in_slots_Ok:
  assumes "collect_res (\<lambda>slt. collect_res (beacon_committee C s slt) (range64 0 (committee_count_at_slot C s slt))) slts = Ok css"
  shows "(\<exists>a. find_in_slots C s vi slts = Ok (Some a) \<and> vi \<in> set (ca_validators a) \<and> ca_slot a \<in> set slts \<and>
      ca_index a < committee_count_at_slot C s (ca_slot a) \<and>
      beacon_committee C s (ca_slot a) (ca_index a) = Ok (ca_validators a) \<and> vi \<in> set (concat (concat css))) \<or>
    (find_in_slots C s vi slts = Ok None \<and> vi \<notin> set (concat (concat css)))"
  using assms
proof (induction slts arbitrary: css)
  case (Cons slt slts)
  then obtain cs css' where c: "collect_res (beacon_committee C s slt) (range64 0 (committee_count_at_slot C s slt)) = Ok cs"
    "collect_res (\<lambda>slt. collect_res (beacon_committee C s slt) (range64 0 (committee_count_at_slot C s slt))) slts = Ok css'"
    "css = cs # css'" by auto
  consider a where "find_in_committees C s vi slt (range64 0 (committee_count_at_slot C s slt)) = Ok (Some a)"
      "vi \<in> set (ca_validators a)" "ca_slot a = slt" "ca_index a < committee_count_at_slot C s slt"
      "beacon_committee C s slt (ca_index a) = Ok (ca_validators a)" "vi \<in> set (concat cs)"
    | "find_in_committees C s vi slt (range64 0 (committee_count_at_slot C s slt)) = Ok None" "vi \<notin> set (concat cs)"
    using find_in_committees_Ok [OF c(1), of vi] by auto
  then show ?case
  proof cases
    case 1
    then show ?thesis using c(3) by auto
  next
    case 2
    then show ?thesis using Cons.IH [OF c(2)] c(3) by auto
  qed
qed simp


text \<open>
  C8: Committee assignments are complete and consistent: for every epoch up to the next one, a
  validator active in that epoch is told a slot of the epoch and a committee index whose committee
  is the one reported and contains it; a validator that is not active is told there is none.
\<close>

theorem committee_assignment_correct:
  assumes "config_ok C" "digest_ok C" "registry_ok s" "ep < 2 ^ 53" "ep \<le> current_epoch C s + 1"
  shows "if unat vi < length (validators s) \<and> is_active (validators s ! unat vi) ep
    then \<exists>a. committee_assignment C s ep vi = Ok (Some a) \<and> vi \<in> set (ca_validators a) \<and>
      epoch_of_slot C (ca_slot a) = ep \<and> ca_index a < committee_count_at_slot C s (ca_slot a) \<and>
      beacon_committee C s (ca_slot a) (ca_index a) = Ok (ca_validators a)
    else committee_assignment C s ep vi = Ok None"
proof -
  let ?slts = "range64 (start_slot_of_epoch C ep) (start_slot_of_epoch C ep + slots_per_epoch C)"
  obtain css where css: "epoch_committees C s ep = Ok css"
    "mset (concat (concat css)) = mset (active_validator_indices s ep)"
    using epoch_committees_partition [OF assms(1-4)] by blast
  have act: "vi \<in> set (concat (concat css)) \<longleftrightarrow>
      unat vi < length (validators s) \<and> is_active (validators s ! unat vi) ep"
    using css(2) assms(3) by (metis mem_active_validator_indices set_mset_mset)
  have slot: "epoch_of_slot C slt = ep" if "slt \<in> set ?slts" for slt
    using that epoch_slots(2) [OF assms(1,4)] unfolding epoch_slots(1) [OF assms(1,4)] by auto
  have "committee_assignment C s ep vi = find_in_slots C s vi ?slts"
    using assms(5) by (simp add: committee_assignment_def Let_def linorder_not_less [symmetric])
  then show ?thesis
    using find_in_slots_Ok [OF css(1) [unfolded epoch_committees_def], of vi] act slot by auto
qed

section \<open>A sample state\<close>

definition sample_validator :: "u8 \<Rightarrow> Validator" where
  "sample_validator k = \<lparr>
     pubkey = replicate 48 k, withdrawal_credentials = H256_default,
     effective_balance = 32000000000, slashed = False,
     activation_eligibility_epoch = 0, activation_epoch = 0,
     exit_epoch = FAR_FUTURE_EPOCH, withdrawable_epoch = FAR_FUTURE_EPOCH\<rparr>"

definition sample_state :: BeaconState where
  "sample_state = (BeaconState_default (MinimalConfig toy_hashing))
     \<lparr>slot := 8, validators := map sample_validator [1, 2, 3], balances := replicate 3 32000000000\<rparr>"

lemma current_epoch_sample [simp]: "current_epoch (MinimalConfig toy_hashing) sample_state = 1"
  by (simp add: current_epoch_def epoch_of_slot_def sample_state_def MinimalConfig_def)

lemma registry_ok_sample [simp]: "registry_ok sample_state"
  by (simp add: registry_ok_def sample_state_def)

lemma state_wf_sample [simp]: "state_wf (MinimalConfig toy_hashing) sample_state"
  using state_wf_default [of "MinimalConfig toy_hashing"] by (simp add: state_wf_def sample_state_def)

lemma active_sample [simp]: "active_validator_indices sample_state 1 = [0, 1, 2]"
  by (simp add: active_validator_indices_alt sample_state_def sample_validator_def is_active_def
    less_FAR_FUTURE_EPOCH_iff upt_conv_Cons) (simp add: FAR_FUTURE_EPOCH_def)

lemma proposer_step_sample:
  "proposer_step (MinimalConfig toy_hashing) sample_state
     (proposer_seed (MinimalConfig toy_hashing) sample_state) [0, 1, 2] 0 = Ok (0, True)"
  by code_simp

theorem beacon_proposer_index_iff_witness:
  "digest_ok (MinimalConfig toy_hashing) \<and> registry_ok sample_state \<and>
   active_validator_indices sample_state (current_epoch (MinimalConfig toy_hashing) sample_state) \<noteq> [] \<and>
   beacon_proposer_index (MinimalConfig toy_hashing) sample_state = Ok 0 \<and>
   is_active (validators sample_state ! 0) 1"
proof -
  have "beacon_proposer_index (MinimalConfig toy_hashing) sample_state = Ok 0"
    using proposer_step_sample
    by (intro beacon_proposer_index_iff [THEN conjunct1, THEN iffD2] exI [of _ 0]) simp_all
  then show ?thesis
    using beacon_proposer_index_iff [of "MinimalConfig toy_hashing" sample_state 0] by simp
qed

theorem beacon_proposer_index_returns_witness:
  "config_ok (MinimalConfig toy_hashing) \<and> digest_ok (MinimalConfig toy_hashing) \<and> registry_ok sample_state \<and>
   (\<exists>i. beacon_proposer_index (MinimalConfig toy_hashing) sample_state = Ok i)"
  using beacon_proposer_index_returns [of "MinimalConfig toy_hashing" sample_state]
  by (simp add: sample_state_def [THEN arg_cong, of validators] sample_validator_def)

theorem committee_assignment_correct_witness:
  "config_ok (MinimalConfig toy_hashing) \<and> digest_ok (MinimalConfig toy_hashing) \<and> registry_ok sample_state \<and>
   (2 :: Uint) \<le> current_epoch (MinimalConfig toy_hashing) sample_state + 1 \<and>
   (\<exists>a. committee_assignment (MinimalConfig toy_hashing) sample_state 2 1 = Ok (Some a) \<and> 1 \<in> set (ca_validators a)) \<and>
   committee_assignment (MinimalConfig toy_hashing) sample_state 2 3 = Ok None"
proof -
  have v: "length (validators sample_state) = 3" "is_active (validators sample_state ! 1) 2"
    by (simp_all add: sample_state_def sample_validator_def is_active_def FAR_FUTURE_EPOCH_def)
  show ?thesis
    using committee_assignment_correct [of "MinimalConfig toy_hashing" sample_state 2 1]
      committee_assignment_correct [of "MinimalConfig toy_hashing" sample_state 2 3] v by auto
qed

end
