(* ===== verification/Beacon_Mutators.thy ===== *)
theory Beacon_Mutators
  imports Beacon_Accessors
begin

text \<open>
  The mutators of \<^verbatim>\<open>BeaconExecutive\<close> (\<^verbatim>\<open>executive/helpers/mutators.rs\<close>): balance changes, the exit
  queue, and slashing. Each is a method of the calculus of the prelude: it returns an outcome
  and the state it leaves behind.
\<close>

type_synonym 'a executive = "(BeaconState, error, 'a) exec"

section \<open>Operations\<close>

definition increase_balance :: "ValidatorIndex \<Rightarrow> Gwei \<Rightarrow> unit executive" where
  "increase_balance i delta =
     ebind (eget (\<lambda>s. vec_index (balances s) i)) (\<lambda>b.
     emod (\<lambda>s. s\<lparr>balances := (balances s)[unat i := b + delta]\<rparr>))"

definition decrease_balance :: "ValidatorIndex \<Rightarrow> Gwei \<Rightarrow> unit executive" where
  "decrease_balance i delta =
     ebind (eget (\<lambda>s. vec_index (balances s) i)) (\<lambda>b.
     emod (\<lambda>s. s\<lparr>balances := (balances s)[unat i := saturating_sub b delta]\<rparr>))"

text \<open>The epoch at which the next validator to leave exits.\<close>

definition exit_churn :: "BeaconState \<Rightarrow> Epoch \<Rightarrow> nat" where
  "exit_churn s ep = length (filter (\<lambda>v. exit_epoch v = ep) (validators s))"

definition next_exit_epoch :: "Config \<Rightarrow> BeaconState \<Rightarrow> Epoch" where
  "next_exit_epoch C s =
     (let exit_epochs = filter (\<lambda>ep. ep \<noteq> FAR_FUTURE_EPOCH) (map exit_epoch (validators s));
          exit_queue_epoch = max (foldl max 0 exit_epochs) (activation_exit_epoch C (current_epoch C s));
          exit_queue_churn = of_nat (exit_churn s exit_queue_epoch)
      in if exit_queue_churn \<ge> validator_churn_limit C s then exit_queue_epoch + 1 else exit_queue_epoch)"

definition initiate_validator_exit :: "Config \<Rightarrow> ValidatorIndex \<Rightarrow> unit executive" where
  "initiate_validator_exit C i =
     ebind (eget (\<lambda>s. vec_index (validators s) i)) (\<lambda>v.
     if exit_epoch v \<noteq> FAR_FUTURE_EPOCH then eret ()
     else emod (\<lambda>s.
       let ep = next_exit_epoch C s
       in s\<lparr>validators := (validators s)[unat i :=
            v\<lparr>exit_epoch := ep, withdrawable_epoch := ep + min_validator_withdrawability_delay C\<rparr>]\<rparr>))"

definition slash_validator ::
    "Config \<Rightarrow> ValidatorIndex \<Rightarrow> ValidatorIndex option \<Rightarrow> unit executive" where
  "slash_validator C slashed_index whistleblower =
     ebind (eget (\<lambda>s. Ok (current_epoch C s))) (\<lambda>ce.
     eseq (initiate_validator_exit C slashed_index) (
     ebind (eget (\<lambda>s. vec_index (validators s) slashed_index)) (\<lambda>v.
     eseq (emod (\<lambda>s. s\<lparr>validators := (validators s)[unat slashed_index :=
            v\<lparr>slashed := True,
              withdrawable_epoch := max (withdrawable_epoch v) (ce + epochs_per_slashings_vector C)\<rparr>]\<rparr>)) (
     let slashed_balance = effective_balance v;
         k = unat (ce mod epochs_per_slashings_vector C) in
     eseq (emod (\<lambda>s. s\<lparr>slashings := (slashings s)[k := slashings s ! k + slashed_balance]\<rparr>)) (
     eseq (decrease_balance slashed_index (slashed_balance div min_slashing_penalty_quotient C)) (
     ebind (eget (beacon_proposer_index C)) (\<lambda>proposer_index.
     let whistleblower_index = (case whistleblower of Some w \<Rightarrow> w | None \<Rightarrow> proposer_index);
         whistleblowing_reward = slashed_balance div whistleblower_reward_quotient C;
         proposer_reward = whistleblowing_reward div proposer_reward_quotient C in
     eseq (increase_balance proposer_index proposer_reward)
       (increase_balance whistleblower_index (whistleblowing_reward - proposer_reward)))))))))"

section \<open>The life of a validator record\<close>

text \<open>
  What any method may do to one entry of the registry: its identity is fixed, a slashing is never
  undone, and eligibility, activation and exit epochs are assigned at most once.
\<close>

definition rounded_balance :: "Config \<Rightarrow> Gwei \<Rightarrow> Gwei" where
  "rounded_balance C b = min (b - b mod effective_balance_increment C) (max_effective_balance C)"

definition validator_step :: "Config \<Rightarrow> Validator \<Rightarrow> Validator \<Rightarrow> bool" where
  "validator_step C v w \<longleftrightarrow>
     pubkey w = pubkey v \<and>
     withdrawal_credentials w = withdrawal_credentials v \<and>
     (slashed v \<longrightarrow> slashed w) \<and>
     (effective_balance w = effective_balance v \<or> (\<exists>b. effective_balance w = rounded_balance C b)) \<and>
     (activation_eligibility_epoch v \<noteq> FAR_FUTURE_EPOCH \<longrightarrow>
        activation_eligibility_epoch w = activation_eligibility_epoch v) \<and>
     (activation_epoch v \<noteq> FAR_FUTURE_EPOCH \<longrightarrow> activation_epoch w = activation_epoch v) \<and>
     (exit_epoch v \<noteq> FAR_FUTURE_EPOCH \<longrightarrow>
        exit_epoch w = exit_epoch v \<and> withdrawable_epoch v \<le> withdrawable_epoch w)"

lemma validator_step_refl [simp]: "validator_step C v v"
  by (simp add: validator_step_def)

lemma validator_step_trans: "validator_step C u v \<Longrightarrow> validator_step C v w \<Longrightarrow> validator_step C u w"
  unfolding validator_step_def by (elim conjE, intro conjI; (metis order_trans)?)

text \<open>The registry only grows, and each old entry makes steps of its life.\<close>

definition registry_grows :: "Config \<Rightarrow> BeaconState \<Rightarrow> BeaconState \<Rightarrow> bool" where
  "registry_grows C s t \<longleftrightarrow>
     length (validators s) \<le> length (validators t) \<and>
     (\<forall>i<length (validators s). validator_step C (validators s ! i) (validators t ! i))"

lemma registry_grows_refl [simp]: "registry_grows C s s"
  by (simp add: registry_grows_def)

lemma registry_grows_trans: "registry_grows C r s \<Longrightarrow> registry_grows C s t \<Longrightarrow> registry_grows C r t"
  by (auto simp: registry_grows_def intro: validator_step_trans)

text \<open>Effective balances are at most the maximum, and whole increments below it.\<close>

definition balance_ok :: "Config \<Rightarrow> Gwei \<Rightarrow> bool" where
  "balance_ok C b \<longleftrightarrow>
     b \<le> max_effective_balance C \<and>
     (b = max_effective_balance C \<or> b mod effective_balance_increment C = 0)"

lemma minus_mod_mod: "(b - b mod n) mod n = (0 :: u64)"
proof -
  have "b mod n \<le> b" by (simp add: word_le_nat_alt unat_mod)
  then have "unat (b - b mod n) = unat b - unat b mod unat n" by (simp add: unat_sub unat_mod)
  then show ?thesis by (simp add: word_unat_eq_iff unat_mod minus_mod_eq_mult_div)
qed

lemma balance_ok_rounded: "balance_ok C (rounded_balance C b)"
  by (simp add: balance_ok_def rounded_balance_def min_def minus_mod_mod)

definition registry_balances_ok :: "Config \<Rightarrow> BeaconState \<Rightarrow> bool" where
  "registry_balances_ok C s \<longleftrightarrow> (\<forall>v\<in>set (validators s). balance_ok C (effective_balance v))"

definition distinct_pubkeys :: "BeaconState \<Rightarrow> bool" where
  "distinct_pubkeys s \<longleftrightarrow> distinct (map pubkey (validators s))"

section \<open>The interface of the mutators\<close>

text \<open>What the mutators do to one entry: a change that gives an exit epoch at most, the next one of the queue.\<close>

definition exit_step :: "Config \<Rightarrow> BeaconState \<Rightarrow> Validator \<Rightarrow> Validator \<Rightarrow> bool" where
  "exit_step C s v w \<longleftrightarrow>
     validator_step C v w \<and>
     effective_balance w = effective_balance v \<and>
     activation_epoch w = activation_epoch v \<and>
     (exit_epoch w = exit_epoch v \<or> exit_epoch v = FAR_FUTURE_EPOCH \<and> exit_epoch w = next_exit_epoch C s)"

text \<open>
  A property that survives the three elementary writes of the mutators. Everything that calls the
  mutators relies on this interface only, so one proof per method serves every such property.
\<close>

locale mutator_invariant =
  fixes C :: Config and I :: "BeaconState \<Rightarrow> bool"
  assumes balances_update:
      "I s \<Longrightarrow> i < length (balances s) \<Longrightarrow> I (s\<lparr>balances := (balances s)[i := b]\<rparr>)"
    and exit_update:
      "I s \<Longrightarrow> i < length (validators s) \<Longrightarrow> exit_step C s (validators s ! i) v \<Longrightarrow>
       I (s\<lparr>validators := (validators s)[i := v]\<rparr>)"
    and slashings_update:
      "I s \<Longrightarrow> I (s\<lparr>slashings := (slashings s)[k := g]\<rparr>)"
begin

lemma increase_balance_inv [preserves_intros]: "preserves I (increase_balance i d)"
  unfolding increase_balance_def
  by (rule preserves_eget_bind) (simp add: exec_simps balances_update)

lemma decrease_balance_inv [preserves_intros]: "preserves I (decrease_balance i d)"
  unfolding decrease_balance_def
  by (rule preserves_eget_bind) (simp add: exec_simps balances_update)

lemma initiate_validator_exit_inv [preserves_intros]: "preserves I (initiate_validator_exit C i)"
  unfolding initiate_validator_exit_def
  by (rule preserves_eget_bind) (simp add: exec_simps Let_def exit_update exit_step_def validator_step_def)

lemma slash_mark_inv:
  assumes "\<And>v. preserves I (k v)"
  shows "preserves I (ebind (eget (\<lambda>s. vec_index (validators s) i)) (\<lambda>v.
     eseq (emod (\<lambda>s. s\<lparr>validators := (validators s)[unat i :=
            v\<lparr>slashed := True, withdrawable_epoch := max (withdrawable_epoch v) e\<rparr>]\<rparr>)) (k v)))"
  using assms unfolding preserves_def
  by (intro preserves_eget_bind [unfolded preserves_def])
    (simp add: exec_simps exit_update exit_step_def validator_step_def)

lemma slash_validator_inv [preserves_intros]: "preserves I (slash_validator C i w)"
  unfolding slash_validator_def Let_def
  by (intro preserves_intros slash_mark_inv preserves_emod) (simp_all add: slashings_update)

end

text \<open>A property that survives any step in the life of a validator is one of them.\<close>

locale registry_invariant =
  fixes C :: Config and I :: "BeaconState \<Rightarrow> bool"
  assumes balance_update:
      "I s \<Longrightarrow> i < length (balances s) \<Longrightarrow> I (s\<lparr>balances := (balances s)[i := b]\<rparr>)"
    and validator_update:
      "I s \<Longrightarrow> i < length (validators s) \<Longrightarrow> validator_step C (validators s ! i) v \<Longrightarrow>
       I (s\<lparr>validators := (validators s)[i := v]\<rparr>)"
    and slashing_update:
      "I s \<Longrightarrow> I (s\<lparr>slashings := (slashings s)[k := g]\<rparr>)"

sublocale registry_invariant \<subseteq> mutator_invariant
  by unfold_locales (simp_all add: balance_update validator_update slashing_update exit_step_def)

interpretation wf: registry_invariant C "state_wf C" for C
  by unfold_locales (simp_all add: state_wf_def)

interpretation slot_frame: registry_invariant C "\<lambda>s. slot s = k" for C k
  by unfold_locales simp_all

interpretation life: registry_invariant C "registry_grows C s" for C s
proof
  show "registry_grows C s (t\<lparr>validators := (validators t)[i := v]\<rparr>)"
    if "registry_grows C s t" "i < length (validators t)" "validator_step C (validators t ! i) v" for t i v
    using that by (auto simp: registry_grows_def nth_list_update intro: validator_step_trans)
qed (simp_all add: registry_grows_def)

interpretation bal: registry_invariant C "registry_balances_ok C" for C
proof
  show "registry_balances_ok C (s\<lparr>validators := (validators s)[i := v]\<rparr>)"
    if "registry_balances_ok C s" "i < length (validators s)" "validator_step C (validators s ! i) v" for s i v
  proof -
    have "balance_ok C (effective_balance v)"
      using that
      by (auto simp: registry_balances_ok_def validator_step_def balance_ok_rounded)
    then show ?thesis
      using that(1) set_update_subset_insert [of "validators s" i v] by (auto simp: registry_balances_ok_def)
  qed
qed (simp_all add: registry_balances_ok_def)

interpretation keys: registry_invariant C distinct_pubkeys for C
proof
  show "distinct_pubkeys (s\<lparr>validators := (validators s)[i := v]\<rparr>)"
    if "distinct_pubkeys s" "i < length (validators s)" "validator_step C (validators s ! i) v" for s i v
    using that by (simp add: distinct_pubkeys_def validator_step_def map_update list_update_same_conv [THEN iffD2])
qed (simp_all add: distinct_pubkeys_def)

section \<open>The exit queue\<close>


lemma current_epoch_frame [simp]:
  "current_epoch C (s\<lparr>validators := vs\<rparr>) = current_epoch C s"
  "current_epoch C (s\<lparr>balances := bs\<rparr>) = current_epoch C s"
  "current_epoch C (s\<lparr>slashings := sl\<rparr>) = current_epoch C s"
  by (simp_all add: current_epoch_def)

lemma validator_churn_limit_pos: "config_ok C \<Longrightarrow> 0 < unat (validator_churn_limit C s)"
  by (simp add: config_ok_def validator_churn_limit_def unat_gt_0 max_def) auto

lemma active_validator_indices_update:
  assumes "i < length (validators s)" "is_active v ep = is_active (validators s ! i) ep"
  shows "active_validator_indices (s\<lparr>validators := (validators s)[i := v]\<rparr>) ep = active_validator_indices s ep"
proof -
  have "filter (\<lambda>j. is_active ((validators s)[i := v] ! j) ep) [0..<length (validators s)] =
      filter (\<lambda>j. is_active (validators s ! j) ep) [0..<length (validators s)]"
    using assms by (intro filter_cong) (auto simp: nth_list_update)
  then show ?thesis by (simp add: active_validator_indices_alt)
qed

text \<open>Where the queue puts the next validator, when epochs are far from the end of time.\<close>

lemma next_exit_epoch_bounds:
  assumes C: "config_ok C" and ce: "current_epoch C s < 2 ^ 62"
    and ex: "\<forall>v\<in>set (validators s). exit_epoch v = FAR_FUTURE_EPOCH \<or> exit_epoch v < 2 ^ 62"
  shows "current_epoch C s < next_exit_epoch C s" "next_exit_epoch C s \<noteq> FAR_FUTURE_EPOCH"
    and "v \<in> set (validators s) \<Longrightarrow> exit_epoch v \<noteq> FAR_FUTURE_EPOCH \<Longrightarrow> exit_epoch v \<le> next_exit_epoch C s"
    and "registry_ok s \<Longrightarrow> exit_churn s (next_exit_epoch C s) < unat (validator_churn_limit C s)"
proof -
  define es where "es = filter (\<lambda>ep. ep \<noteq> FAR_FUTURE_EPOCH) (map exit_epoch (validators s))"
  define q where "q = max (foldl max 0 es) (activation_exit_epoch C (current_epoch C s))"
  have nx: "next_exit_epoch C s =
      (if of_nat (exit_churn s q) \<ge> validator_churn_limit C s then q + 1 else q)"
    by (simp add: next_exit_epoch_def q_def es_def)
  have uc: "unat (current_epoch C s) < 2 ^ 62" using ce by (simp add: word_less_nat_alt)
  have ul: "unat (max_seed_lookahead C) \<le> 2 ^ 10" using C by (simp add: config_ok_def word_le_nat_alt)
  have ua: "unat (activation_exit_epoch C (current_epoch C s)) = unat (current_epoch C s) + 1 + unat (max_seed_lookahead C)"
    using uc ul by (simp add: activation_exit_epoch_def unat_word_ariths)
  have "foldl max 0 es < 2 ^ 63"
  proof -
    have "x \<le> 2 ^ 62" if "x \<in> set es" for x using that ex by (force simp: es_def)
    then have "foldl max 0 es \<le> 2 ^ 62" by (intro foldl_max_le) simp_all
    then show ?thesis by (rule order_le_less_trans) simp
  qed
  moreover have "activation_exit_epoch C (current_epoch C s) < 2 ^ 63"
    using ua uc ul by (simp add: word_less_nat_alt)
  ultimately have q63: "unat q < 2 ^ 63" by (simp add: q_def word_less_nat_alt max_def)
  then have uq: "unat (q + 1) = unat q + 1" by (simp add: unat_word_ariths)
  have qc: "unat (current_epoch C s) < unat q"
    using ua by (auto simp: q_def max_def word_le_nat_alt)
  have qe: "exit_epoch v \<le> q" if "v \<in> set (validators s)" "exit_epoch v \<noteq> FAR_FUTURE_EPOCH" for v
    using foldl_max_ge(2) [of "exit_epoch v" es 0] that by (auto simp: q_def es_def le_max_iff_disj)
  show "current_epoch C s < next_exit_epoch C s"
    using qc uq by (simp add: nx word_less_nat_alt)
  show "next_exit_epoch C s \<noteq> FAR_FUTURE_EPOCH"
    using q63 uq unat_FAR_FUTURE_EPOCH by (auto simp: nx word_unat_eq_iff)
  show "exit_epoch v \<le> next_exit_epoch C s" if "v \<in> set (validators s)" "exit_epoch v \<noteq> FAR_FUTURE_EPOCH"
    using qe [OF that] uq by (simp add: nx word_le_nat_alt)
  assume reg: "registry_ok s"
  have "exit_churn s q \<le> length (validators s)" by (simp add: exit_churn_def)
  then have uch: "unat (of_nat (exit_churn s q) :: u64) = exit_churn s q"
    using reg by (intro unat_of_nat_u64) (simp add: registry_ok_def)
  have new: "exit_churn s (q + 1) = 0"
  proof -
    have "exit_epoch v \<noteq> q + 1" if "v \<in> set (validators s)" for v
    proof
      assume eq: "exit_epoch v = q + 1"
      have "q + 1 \<noteq> FAR_FUTURE_EPOCH" using q63 uq unat_FAR_FUTURE_EPOCH by (auto simp: word_unat_eq_iff)
      with qe [OF that] eq have "q + 1 \<le> q" by simp
      then show False using uq by (simp add: word_le_nat_alt)
    qed
    then show ?thesis by (simp add: exit_churn_def filter_empty_conv)
  qed
  show "exit_churn s (next_exit_epoch C s) < unat (validator_churn_limit C s)"
    using uch new validator_churn_limit_pos [OF C, of s]
    by (auto simp: nx word_le_nat_alt)
qed

text \<open>
  C24: The exit queue respects the churn limit. If no epoch has more exits than the churn limit,
  then giving a validator its exit keeps that so; the exit lies in the future and behind every exit
  already scheduled; the churn limit itself does not change.
\<close>

theorem initiate_validator_exit_queue:
  assumes "config_ok C" "registry_ok s"
    and "unat i < length (validators s)" "exit_epoch (validators s ! unat i) = FAR_FUTURE_EPOCH"
    and "current_epoch C s < 2 ^ 62"
    and "\<forall>v\<in>set (validators s). exit_epoch v = FAR_FUTURE_EPOCH \<or> exit_epoch v < 2 ^ 62"
    and "\<forall>ep. ep \<noteq> FAR_FUTURE_EPOCH \<longrightarrow> exit_churn s ep \<le> unat (validator_churn_limit C s)"
  shows "\<exists>t w. initiate_validator_exit C i s = (Ok (), t) \<and> validators t = (validators s)[unat i := w] \<and>
    current_epoch C s < exit_epoch w \<and> exit_epoch w \<noteq> FAR_FUTURE_EPOCH \<and>
    withdrawable_epoch w = exit_epoch w + min_validator_withdrawability_delay C \<and>
    (\<forall>v\<in>set (validators s). exit_epoch v \<noteq> FAR_FUTURE_EPOCH \<longrightarrow> exit_epoch v \<le> exit_epoch w) \<and>
    validator_churn_limit C t = validator_churn_limit C s \<and>
    (\<forall>ep. ep \<noteq> FAR_FUTURE_EPOCH \<longrightarrow> exit_churn t ep \<le> unat (validator_churn_limit C t))"
proof -
  let ?v = "validators s ! unat i"
  define w where "w = ?v\<lparr>exit_epoch := next_exit_epoch C s,
    withdrawable_epoch := next_exit_epoch C s + min_validator_withdrawability_delay C\<rparr>"
  define t where "t = s\<lparr>validators := (validators s)[unat i := w]\<rparr>"
  note nx = next_exit_epoch_bounds [OF assms(1,5,6)]
  have run: "initiate_validator_exit C i s = (Ok (), t)"
    using assms(3,4) by (simp add: initiate_validator_exit_def ebind_eget vec_index_in_range exec_simps Let_def t_def w_def)
  have "current_epoch C s < FAR_FUTURE_EPOCH"
    using assms(5) by (auto simp: less_FAR_FUTURE_EPOCH_iff FAR_FUTURE_EPOCH_def word_less_nat_alt unsigned_minus_1_eq_mask mask_eq_exp_minus_1)
  then have "is_active w (current_epoch C s) = is_active ?v (current_epoch C s)"
    using nx(1) assms(4) by (simp add: is_active_def w_def)
  then have churn: "validator_churn_limit C t = validator_churn_limit C s"
    using assms(3) by (simp add: validator_churn_limit_def active_validator_len_def t_def active_validator_indices_update)
  have "exit_churn t ep \<le> unat (validator_churn_limit C s)" if "ep \<noteq> FAR_FUTURE_EPOCH" for ep
  proof -
    have "exit_churn t ep = exit_churn s ep + (if next_exit_epoch C s = ep then 1 else 0)"
      using length_filter_update [OF assms(3), of "\<lambda>v. exit_epoch v = ep" w] assms(4) that
      by (simp add: exit_churn_def t_def w_def split: if_splits)
    then show ?thesis using nx(4) [OF assms(2)] assms(7) that by (auto split: if_splits)
  qed
  then show ?thesis
    using run churn nx(1-3) by (intro exI [of _ t] exI [of _ w]) (simp add: t_def w_def)
qed

theorem initiate_validator_exit_queue_witness:
  "config_ok (MinimalConfig toy_hashing) \<and> registry_ok sample_state \<and>
   unat (1 :: u64) < length (validators sample_state) \<and>
   (\<exists>t w. initiate_validator_exit (MinimalConfig toy_hashing) 1 sample_state = (Ok (), t) \<and>
     validators t = (validators sample_state)[1 := w] \<and> 1 < exit_epoch w)"
proof -
  have len: "length (validators sample_state) = 3" by (simp add: sample_state_def)
  have ex: "exit_epoch v = FAR_FUTURE_EPOCH" if "v \<in> set (validators sample_state)" for v
    using that by (auto simp: sample_state_def sample_validator_def)
  then have "exit_churn sample_state ep \<le> unat (validator_churn_limit (MinimalConfig toy_hashing) sample_state)"
    if "ep \<noteq> FAR_FUTURE_EPOCH" for ep using that by (simp add: exit_churn_def filter_empty_conv)
  moreover have "exit_epoch (validators sample_state ! unat (1 :: u64)) = FAR_FUTURE_EPOCH"
    by (rule ex) (simp add: len)
  ultimately show ?thesis
    using initiate_validator_exit_queue [of "MinimalConfig toy_hashing" sample_state 1] ex
    by (auto simp: len)
qed

section \<open>The proposer is stable\<close>

text \<open>
  The proposer depends on the slot, the randomness, who is active in the current epoch and their
  effective balances, and on nothing else.
\<close>

definition same_proposer_inputs :: "Config \<Rightarrow> BeaconState \<Rightarrow> BeaconState \<Rightarrow> bool" where
  "same_proposer_inputs C s t \<longleftrightarrow>
     slot t = slot s \<and>
     seed C t (current_epoch C s) domain_beacon_proposer = seed C s (current_epoch C s) domain_beacon_proposer \<and>
     active_validator_indices t (current_epoch C s) = active_validator_indices s (current_epoch C s) \<and>
     (\<forall>i\<in>set (active_validator_indices s (current_epoch C s)).
        unat i < length (validators s) \<and> unat i < length (validators t) \<and>
        effective_balance (validators t ! unat i) = effective_balance (validators s ! unat i))"

lemma proposer_step_cong:
  assumes "\<And>i. i \<in> set indices \<Longrightarrow> unat i < length (validators s) \<and> unat i < length (validators t) \<and>
    effective_balance (validators t ! unat i) = effective_balance (validators s ! unat i)"
  shows "proposer_step C t sd indices i = proposer_step C s sd indices i"
  unfolding proposer_step_def
  by (intro if_cong refl, (rule rbind_cong [OF refl])+) (auto simp: vec_index_in_range assms)

lemma proposer_loop_mono:
  assumes step: "\<And>i. proposer_step C t sd indices i = proposer_step C s sd indices i"
    and run: "proposer_loop C s sd indices i = Some r"
  shows "proposer_loop C t sd indices i = Some r"
proof -
  let ?P = "\<lambda>C' s' sd' indices' i' r'. (C', s', sd', indices') = (C, s, sd, indices) \<longrightarrow>
    proposer_loop C t sd indices i' = Some r'"
  have "?P C s sd indices i r"
  proof (rule proposer_loop.raw_induct [where P = ?P, OF _ run])
    fix loop C' s' sd' indices' i' r'
    assume IH: "\<And>C' s' sd' indices' i' r'. loop C' s' sd' indices' i' = Some r' \<Longrightarrow> ?P C' s' sd' indices' i' r'"
      and eq: "(case proposer_step C' s' sd' indices' i' of
          Ok (candidate, taken) \<Rightarrow>
            if taken then Some (Ok candidate) else loop C' s' sd' indices' (i' + 1)
        | Err e \<Rightarrow> Some (Err e) | Panic \<Rightarrow> Some Panic | Diverge \<Rightarrow> Some Diverge) = Some r'"
    show "?P C' s' sd' indices' i' r'"
      using eq IH [of C' s' sd' indices' "i' + 1" r'] step [of i']
      by (auto simp: proposer_loop_unfold [of C t sd indices i'] split: res.splits if_splits)
  qed
  then show ?thesis by simp
qed

lemma proposer_loop_cong:
  assumes "\<And>i. proposer_step C t sd indices i = proposer_step C s sd indices i"
  shows "proposer_loop C t sd indices i = proposer_loop C s sd indices i"
  using proposer_loop_mono [OF assms, of i] proposer_loop_mono [of C s sd indices t i] assms
  by (metis not_None_eq)

lemma beacon_proposer_index_cong:
  assumes "same_proposer_inputs C s t"
  shows "beacon_proposer_index C t = beacon_proposer_index C s"
proof -
  have ce: "current_epoch C t = current_epoch C s"
    using assms by (simp add: same_proposer_inputs_def current_epoch_def)
  have "proposer_loop C t sd (active_validator_indices s (current_epoch C s)) 0
      = proposer_loop C s sd (active_validator_indices s (current_epoch C s)) 0" for sd
    using assms by (intro proposer_loop_cong proposer_step_cong) (simp add: same_proposer_inputs_def)
  then show ?thesis
    using assms by (simp add: beacon_proposer_index_def ce Let_def same_proposer_inputs_def)
qed

section \<open>Value\<close>

definition total_balances :: "BeaconState \<Rightarrow> nat" where
  "total_balances s = sum_list (map unat (balances s))"


lemma increase_balance_total:
  assumes "increase_balance i d s = (Ok (), t)" "total_balances s + unat d < 2 ^ 64"
  shows "total_balances t = total_balances s + unat d"
proof -
  have i: "unat i < length (balances s)" and t: "balances t = (balances s)[unat i := balances s ! unat i + d]"
    using assms(1) by (auto simp: increase_balance_def ebind_eq_Ok)
  have "unat (balances s ! unat i) \<le> total_balances s"
    unfolding total_balances_def using i by (rule nth_le_sum_list)
  then have "unat (balances s ! unat i + d) = unat (balances s ! unat i) + unat d"
    using assms(2) by (simp add: unat_word_ariths)
  then show ?thesis
    using sum_list_update_nat [OF i, of unat "balances s ! unat i + d"] by (simp add: total_balances_def t)
qed

lemma decrease_balance_total:
  assumes "decrease_balance i d s = (Ok (), t)"
  shows "total_balances t + min (unat d) (unat (balances s ! unat i)) = total_balances s"
proof -
  have i: "unat i < length (balances s)"
    and t: "balances t = (balances s)[unat i := saturating_sub (balances s ! unat i) d]"
    using assms(1) by (auto simp: decrease_balance_def ebind_eq_Ok)
  show ?thesis
    using sum_list_update_nat [OF i, of unat "saturating_sub (balances s ! unat i) d"]
    by (auto simp: total_balances_def t min_def)
qed

section \<open>Slashing\<close>

text \<open>The entry of the registry after the slashing, and the state before any balance moves.\<close>

definition slash_entry :: "Config \<Rightarrow> BeaconState \<Rightarrow> Validator \<Rightarrow> Validator" where
  "slash_entry C s v =
     (let u = (if exit_epoch v = FAR_FUTURE_EPOCH
               then v\<lparr>exit_epoch := next_exit_epoch C s,
                      withdrawable_epoch := next_exit_epoch C s + min_validator_withdrawability_delay C\<rparr>
               else v)
      in u\<lparr>slashed := True,
           withdrawable_epoch := max (withdrawable_epoch u) (current_epoch C s + epochs_per_slashings_vector C)\<rparr>)"

definition slash_marked :: "Config \<Rightarrow> ValidatorIndex \<Rightarrow> BeaconState \<Rightarrow> BeaconState" where
  "slash_marked C i s =
     (let k = unat (current_epoch C s mod epochs_per_slashings_vector C)
      in s\<lparr>validators := (validators s)[unat i := slash_entry C s (validators s ! unat i)],
           slashings := (slashings s)[k := slashings s ! k + effective_balance (validators s ! unat i)]\<rparr>)"

lemma slash_validator_run:
  assumes "slash_validator C i wb s = (Ok (), t)"
  shows "unat i < length (validators s) \<and> (\<exists>s1 s2 p.
    decrease_balance i (effective_balance (validators s ! unat i) div min_slashing_penalty_quotient C)
      (slash_marked C i s) = (Ok (), s1) \<and>
    beacon_proposer_index C s1 = Ok p \<and>
    increase_balance p
      (effective_balance (validators s ! unat i) div whistleblower_reward_quotient C div proposer_reward_quotient C)
      s1 = (Ok (), s2) \<and>
    increase_balance (case wb of Some x \<Rightarrow> x | None \<Rightarrow> p)
      (effective_balance (validators s ! unat i) div whistleblower_reward_quotient C -
       effective_balance (validators s ! unat i) div whistleblower_reward_quotient C div proposer_reward_quotient C)
      s2 = (Ok (), t))"
  using assms
  by (cases "exit_epoch (validators s ! unat i) = FAR_FUTURE_EPOCH")
    (auto simp: slash_validator_def initiate_validator_exit_def slash_marked_def slash_entry_def
      exec_ok exec_simps Let_def)

lemma balance_change_frame:
  "increase_balance i d s = (Ok (), t) \<Longrightarrow> t = s\<lparr>balances := balances t\<rparr>"
  "decrease_balance i d s = (Ok (), t) \<Longrightarrow> t = s\<lparr>balances := balances t\<rparr>"
  by (auto simp: increase_balance_def decrease_balance_def exec_ok)

lemma slash_validator_spec:
  assumes "slash_validator C i wb s = (Ok (), t)"
  shows "\<exists>w. validators t = (validators s)[unat i := w] \<and> slashed w \<and>
      exit_epoch w = (if exit_epoch (validators s ! unat i) = FAR_FUTURE_EPOCH
        then next_exit_epoch C s else exit_epoch (validators s ! unat i)) \<and>
      current_epoch C s + epochs_per_slashings_vector C \<le> withdrawable_epoch w \<and>
      effective_balance w = effective_balance (validators s ! unat i) \<and>
      slashings t = (slashings s)[unat (current_epoch C s mod epochs_per_slashings_vector C) :=
        slashings s ! unat (current_epoch C s mod epochs_per_slashings_vector C) + effective_balance w] \<and>
      t\<lparr>validators := validators s, balances := balances s, slashings := slashings s\<rparr> = s"
proof -
  obtain s1 s2 p d e f j where
    1: "decrease_balance i d (slash_marked C i s) = (Ok (), s1)" and
    2: "increase_balance p e s1 = (Ok (), s2)" and 3: "increase_balance j f s2 = (Ok (), t)" and
    i: "unat i < length (validators s)"
    using slash_validator_run [OF assms] by blast
  obtain b1 b2 b3 where "s1 = (slash_marked C i s)\<lparr>balances := b1\<rparr>"
    "s2 = s1\<lparr>balances := b2\<rparr>" "t = s2\<lparr>balances := b3\<rparr>"
    using balance_change_frame(2) [OF 1] balance_change_frame(1) [OF 2] balance_change_frame(1) [OF 3] by blast
  then have "t = (slash_marked C i s)\<lparr>balances := b3\<rparr>" by simp
  then show ?thesis
    by (intro exI [of _ "slash_entry C s (validators s ! unat i)"])
      (simp add: slash_marked_def slash_entry_def Let_def)
qed

text \<open>
  C25: A slashing that succeeds marks exactly that validator: it is slashed, its exit is scheduled,
  it cannot withdraw for a whole slashings period, its effective balance is added to the slashings
  of the current epoch, and apart from the registry, the balances and the slashings nothing changes.
\<close>

theorem slash_validator_effect:
  assumes "slash_validator C i wb s = (Ok (), t)"
  shows "\<exists>w. validators t = (validators s)[unat i := w] \<and> slashed w \<and>
      exit_epoch w = (if exit_epoch (validators s ! unat i) = FAR_FUTURE_EPOCH
        then next_exit_epoch C s else exit_epoch (validators s ! unat i)) \<and>
      current_epoch C s + epochs_per_slashings_vector C \<le> withdrawable_epoch w \<and>
      effective_balance w = effective_balance (validators s ! unat i) \<and>
      slashings t = (slashings s)[unat (current_epoch C s mod epochs_per_slashings_vector C) :=
        slashings s ! unat (current_epoch C s mod epochs_per_slashings_vector C) + effective_balance w] \<and>
      t\<lparr>validators := validators s, balances := balances s, slashings := slashings s\<rparr> = s"
  using assms by (rule slash_validator_spec)

text \<open>
  Slashing creates no value: when the offender can pay the penalty and the balances together
  fit in 64 bits, the sum of all balances does not grow, whoever proposes and whoever reports.
\<close>

lemma slash_validator_no_mint:
  assumes "slash_validator C i wb s = (Ok (), t)"
    and "0 < min_slashing_penalty_quotient C" "min_slashing_penalty_quotient C \<le> whistleblower_reward_quotient C"
    and "effective_balance (validators s ! unat i) div min_slashing_penalty_quotient C \<le> balances s ! unat i"
    and "total_balances s < 2 ^ 64"
  shows "total_balances t \<le> total_balances s"
proof -
  define v where "v = validators s ! unat i"
  let ?pen = "effective_balance v div min_slashing_penalty_quotient C"
  let ?wr = "effective_balance v div whistleblower_reward_quotient C"
  let ?pr = "?wr div proposer_reward_quotient C"
  obtain s1 s2 p where
    1: "decrease_balance i ?pen (slash_marked C i s) = (Ok (), s1)" and
    2: "increase_balance p ?pr s1 = (Ok (), s2)" and
    3: "increase_balance (case wb of Some x \<Rightarrow> x | None \<Rightarrow> p) (?wr - ?pr) s2 = (Ok (), t)"
    using slash_validator_run [OF assms(1)] unfolding v_def by blast
  have t0: "balances (slash_marked C i s) = balances s" "total_balances (slash_marked C i s) = total_balances s"
    by (simp_all add: total_balances_def slash_marked_def Let_def)
  have t1: "total_balances s1 + unat ?pen = total_balances s"
    using decrease_balance_total [OF 1] assms(4) by (simp add: t0 v_def word_le_nat_alt min_absorb1)
  have wr: "unat ?wr \<le> unat ?pen"
    using assms(2,3) by (simp add: unat_div div_le_mono2 word_le_nat_alt word_less_nat_alt)
  have pr: "?pr \<le> ?wr" by (simp add: word_le_nat_alt unat_div)
  then have d: "unat (?wr - ?pr) = unat ?wr - unat ?pr" and le: "unat ?pr \<le> unat ?wr"
    by (simp_all add: unat_sub word_le_nat_alt)
  have t2: "total_balances s2 = total_balances s1 + unat ?pr"
    using t1 wr le assms(5) by (intro increase_balance_total [OF 2]) simp
  have "total_balances t = total_balances s2 + unat (?wr - ?pr)"
    using t1 t2 wr le d assms(5) by (intro increase_balance_total [OF 3]) simp
  then show ?thesis using t1 t2 d wr le by simp
qed

lemma slash_sample:
  "\<exists>t. slash_validator (MinimalConfig toy_hashing) 1 None sample_state = (Ok (), t)"
proof -
  have "fst (slash_validator (MinimalConfig toy_hashing) 1 None sample_state) = Ok ()" by code_simp
  then show ?thesis by (metis prod.collapse)
qed

theorem slash_validator_effect_witness:
  "\<exists>t. slash_validator (MinimalConfig toy_hashing) 1 None sample_state = (Ok (), t) \<and>
     slashed (validators t ! 1) \<and> 65 \<le> withdrawable_epoch (validators t ! 1)"
proof -
  obtain t where run: "slash_validator (MinimalConfig toy_hashing) 1 None sample_state = (Ok (), t)"
    using slash_sample by blast
  have "length (validators sample_state) = 3" by (simp add: sample_state_def)
  then show ?thesis using slash_validator_effect [OF run] run by auto
qed

end
