(* ===== verification/Casper_Justifier.thy ===== *)
theory Casper_Justifier
  imports Beacon_Types
begin

text \<open>
  The reusable finality gadget: \<^verbatim>\<open>components/justification.rs\<close> over the traits of \<^verbatim>\<open>components/mod.rs\<close>.
  A registry is what the \<^verbatim>\<open>JustifierRegistry\<close> trait asks for; a justifier is generic in the type of
  checkpoints, of which only the epoch is read. The lemmas follow a justifier through the epochs
  of a chain, with the set of checkpoints that ever had a two-thirds majority as a history variable.
\<close>

section \<open>Definitions\<close>

record ('c, 'e) JustifierRegistry =
  checkpoint_epoch :: "'c \<Rightarrow> Epoch"
  registry_total_active_balance :: "('e, Gwei) res"
  registry_attesting_target_balance :: "'c \<Rightarrow> ('e, Gwei) res"

record 'c Justifier =
  j_justification_bits :: "bool list"
  j_current_justified_checkpoint :: 'c
  j_previous_justified_checkpoint :: 'c
  j_finalized_checkpoint :: 'c

text \<open>The test \<^verbatim>\<open>attesting_target_balance * 3 >= total_active_balance * 2\<close>, on wrapping integers.\<close>

definition supermajority :: "('c, 'e) JustifierRegistry \<Rightarrow> 'c \<Rightarrow> ('e, bool) res" where
  "supermajority R c =
     rbind (registry_attesting_target_balance R c) (\<lambda>b.
     rbind (registry_total_active_balance R) (\<lambda>t.
     Ok (b * 3 \<ge> t * 2)))"

definition bits_all :: "bool list \<Rightarrow> nat \<Rightarrow> nat \<Rightarrow> bool" where
  "bits_all bits a b = list_all id (take (b - a) (drop a bits))"

definition justify_when :: "bool \<Rightarrow> nat \<Rightarrow> 'c \<Rightarrow> 'c Justifier \<Rightarrow> 'c Justifier" where
  "justify_when b k c j =
     (if b then j\<lparr>j_current_justified_checkpoint := c, j_justification_bits := (j_justification_bits j)[k := True]\<rparr>
      else j)"

definition finalize_when :: "bool \<Rightarrow> 'c \<Rightarrow> 'c Justifier \<Rightarrow> 'c Justifier" where
  "finalize_when b c j = (if b then j\<lparr>j_finalized_checkpoint := c\<rparr> else j)"

definition justifier_process ::
    "('c, 'e) JustifierRegistry \<Rightarrow> 'c \<Rightarrow> 'c \<Rightarrow> ('c Justifier, 'e, unit) exec" where
  "justifier_process R previous_checkpoint current_checkpoint =
     (let ce = checkpoint_epoch R current_checkpoint in
      ebind (eget (\<lambda>j. Ok (j_previous_justified_checkpoint j))) (\<lambda>old_previous.
      ebind (eget (\<lambda>j. Ok (j_current_justified_checkpoint j))) (\<lambda>old_current.
      eseq (emod (\<lambda>j. j\<lparr>
        j_previous_justified_checkpoint := j_current_justified_checkpoint j,
        j_justification_bits := False # take (length (j_justification_bits j) - 1) (j_justification_bits j)\<rparr>)) (
      ebind (eget (\<lambda>_. supermajority R previous_checkpoint)) (\<lambda>sm_previous.
      eseq (emod (justify_when sm_previous 1 previous_checkpoint)) (
      ebind (eget (\<lambda>_. supermajority R current_checkpoint)) (\<lambda>sm_current.
      eseq (emod (justify_when sm_current 0 current_checkpoint)) (
      ebind (eget (\<lambda>j. Ok (j_justification_bits j))) (\<lambda>bits.
      emod (\<lambda>j.
        finalize_when (bits_all bits 0 2 \<and> checkpoint_epoch R old_current + 1 = ce) old_current (
        finalize_when (bits_all bits 0 3 \<and> checkpoint_epoch R old_current + 2 = ce) old_current (
        finalize_when (bits_all bits 1 3 \<and> checkpoint_epoch R old_previous + 2 = ce) old_previous (
        finalize_when (bits_all bits 1 4 \<and> checkpoint_epoch R old_previous + 3 = ce) old_previous j)))))))))))))"

section \<open>One epoch\<close>

lemma justifier_process_Ok:
  assumes "justifier_process R pc cc j = (Ok (), j')" "length (j_justification_bits j) = 4"
  obtains b0 b1 b2 b3 smp smc where
    "j_justification_bits j = [b0, b1, b2, b3]"
    "supermajority R pc = Ok smp" "supermajority R cc = Ok smc"
    "j_justification_bits j' = [smc, smp \<or> b0, b1, b2]"
    "j_previous_justified_checkpoint j' = j_current_justified_checkpoint j"
    "j_current_justified_checkpoint j' = (if smc then cc else if smp then pc else j_current_justified_checkpoint j)"
    "j_finalized_checkpoint j' =
      (if smc \<and> (smp \<or> b0) \<and> checkpoint_epoch R (j_current_justified_checkpoint j) + 1 = checkpoint_epoch R cc
       then j_current_justified_checkpoint j
       else if smc \<and> (smp \<or> b0) \<and> b1 \<and> checkpoint_epoch R (j_current_justified_checkpoint j) + 2 = checkpoint_epoch R cc
       then j_current_justified_checkpoint j
       else if (smp \<or> b0) \<and> b1 \<and> checkpoint_epoch R (j_previous_justified_checkpoint j) + 2 = checkpoint_epoch R cc
       then j_previous_justified_checkpoint j
       else if (smp \<or> b0) \<and> b1 \<and> b2 \<and> checkpoint_epoch R (j_previous_justified_checkpoint j) + 3 = checkpoint_epoch R cc
       then j_previous_justified_checkpoint j
       else j_finalized_checkpoint j)"
proof -
  obtain b0 b1 b2 b3 where b: "j_justification_bits j = [b0, b1, b2, b3]"
    using assms(2) by (auto simp: numeral_eq_Suc length_Suc_conv)
  obtain smp smc where sm: "supermajority R pc = Ok smp" "supermajority R cc = Ok smc"
    using assms(1) by (auto simp: justifier_process_def Let_def exec_ok)
  let ?j' = "snd (justifier_process R pc cc j)"
  have j': "j' = ?j'" using assms(1) by simp
  show thesis
    by (rule that [OF b sm]; unfold j')
      (auto simp: justifier_process_def Let_def exec_simps ebind_eget sm b justify_when_def finalize_when_def bits_all_def)
qed

section \<open>A chain of epochs\<close>

text \<open>
  \<open>ffg_reach ep g e j G\<close>: starting from the genesis checkpoint \<open>g\<close>, after the epochs up to \<open>e\<close> have been
  processed, each with a registry of its own, the justifier is \<open>j\<close> and \<open>G\<close> are the checkpoints that had
  two thirds of the balance when they were the current or the previous one. The first processed epoch is 2, as
  in \<^verbatim>\<open>process_justification_and_finalization\<close>. The comparison of the code wraps around, so it is a two-thirds majority
  only of balances that fit: for a total of \<open>2\<^sup>63\<close> no vote at all would be enough.
\<close>

definition justifier_init :: "'c \<Rightarrow> 'c Justifier" where
  "justifier_init g = \<lparr>
     j_justification_bits = replicate JustificationBitsLength False,
     j_current_justified_checkpoint = g,
     j_previous_justified_checkpoint = g,
     j_finalized_checkpoint = g\<rparr>"

definition newly_justified :: "('c, 'e) JustifierRegistry \<Rightarrow> 'c \<Rightarrow> 'c \<Rightarrow> 'c set" where
  "newly_justified R pc cc = {c. (c = pc \<or> c = cc) \<and>
     (\<exists>b t. registry_attesting_target_balance R c = Ok b \<and> registry_total_active_balance R = Ok t \<and>
        2 * unat t \<le> 3 * unat b)}"

definition balances_fit :: "('c, 'e) JustifierRegistry \<Rightarrow> bool" where
  "balances_fit R \<longleftrightarrow> (\<forall>t. registry_total_active_balance R = Ok t \<longrightarrow> 2 * unat t < 2 ^ 64) \<and>
     (\<forall>c b. registry_attesting_target_balance R c = Ok b \<longrightarrow> 3 * unat b < 2 ^ 64)"

lemma supermajority_two_thirds:
  assumes "supermajority R c = Ok sm" "balances_fit R" "c = pc \<or> c = cc"
  shows "sm \<longleftrightarrow> c \<in> newly_justified R pc cc"
proof -
  obtain b t where bt: "registry_attesting_target_balance R c = Ok b" "registry_total_active_balance R = Ok t"
    and sm: "sm \<longleftrightarrow> t * 2 \<le> b * 3"
    using assms(1) by (auto simp: supermajority_def rbind_eq_Ok)
  have "unat (t * 2) = 2 * unat t" "unat (b * 3) = 3 * unat b"
    using assms(2) bt by (auto simp: balances_fit_def unat_word_ariths mult.commute)
  then show ?thesis using assms(3) bt sm by (simp add: newly_justified_def word_le_nat_alt)
qed

inductive ffg_reach :: "('c \<Rightarrow> Epoch) \<Rightarrow> 'c \<Rightarrow> nat \<Rightarrow> 'c Justifier \<Rightarrow> 'c set \<Rightarrow> bool" for ep g where
  ffg_start: "ep g = 0 \<Longrightarrow> ffg_reach ep g 1 (justifier_init g) {}"
| ffg_epoch: "ffg_reach ep g (Suc e) j' (G \<union> newly_justified R pc cc)"
    if "ffg_reach ep g e j G"
      "checkpoint_epoch (R :: ('c, error) JustifierRegistry) = ep" "ep pc = of_nat e" "ep cc = of_nat (Suc e)"
      "e < 2 ^ 63" "balances_fit R" "justifier_process R pc cc j = (Ok (), j')"

inductive_cases ffg_epochE: "ffg_reach ep g (Suc e) j G"

definition ffg_inv :: "('c \<Rightarrow> Epoch) \<Rightarrow> 'c \<Rightarrow> nat \<Rightarrow> 'c Justifier \<Rightarrow> 'c set \<Rightarrow> bool" where
  "ffg_inv ep g e j G \<longleftrightarrow>
     ep g = 0 \<and>
     length (j_justification_bits j) = 4 \<and>
     (\<forall>k<4. j_justification_bits j ! k \<longrightarrow> (\<exists>c\<in>G. unat (ep c) + k = e)) \<and>
     (\<forall>c\<in>G. unat (ep c) \<le> e) \<and>
     j_current_justified_checkpoint j \<in> insert g G \<and>
     j_previous_justified_checkpoint j \<in> insert g G \<and>
     unat (ep (j_finalized_checkpoint j)) \<le> unat (ep (j_previous_justified_checkpoint j)) \<and>
     unat (ep (j_previous_justified_checkpoint j)) \<le> unat (ep (j_current_justified_checkpoint j)) \<and>
     unat (ep (j_current_justified_checkpoint j)) \<le> e \<and>
     (j_finalized_checkpoint j = g \<or>
      j_finalized_checkpoint j \<in> G \<and>
      (\<exists>c\<in>G. unat (ep c) = unat (ep (j_finalized_checkpoint j)) + 1))"

lemma ffg_inv_start: "ep g = 0 \<Longrightarrow> ffg_inv ep g 1 (justifier_init g) {}"
  by (auto simp: ffg_inv_def justifier_init_def JustificationBitsLength_def numeral_eq_Suc less_Suc_eq)

lemma all_less_4: "(\<forall>k<4. P k) \<longleftrightarrow> P 0 \<and> P 1 \<and> P 2 \<and> P (3 :: nat)"
  by (auto simp: numeral_eq_Suc less_Suc_eq)

lemma unat_epoch_plus:
  assumes "(w :: Epoch) + of_nat d = of_nat (Suc e)" "unat w \<le> e" "e < 2 ^ 63" "d \<le> 3"
  shows "unat w + d = Suc e"
proof -
  have "unat (w + of_nat d) = unat w + d"
    using assms(2-4) by (simp add: unat_word_ariths unat_of_nat_u64)
  then show ?thesis using assms(1,3) unat_of_nat_u64 [of "Suc e"] by simp
qed

lemma if_chain:
  "x = (if A then a else if B then b else if C then c else if D then d else z) \<Longrightarrow>
   A \<and> x = a \<or> B \<and> x = b \<or> C \<and> x = c \<or> D \<and> x = d \<or> x = z"
  by (auto split: if_splits)

lemma ffg_inv_epoch:
  fixes R :: "('c, 'e) JustifierRegistry"
  assumes inv: "ffg_inv ep g e j G" and R: "checkpoint_epoch R = ep"
    and pc: "ep pc = of_nat e" and cc: "ep cc = of_nat (Suc e)" and e: "e < 2 ^ 63"
    and fit: "balances_fit R" and run: "justifier_process R pc cc j = (Ok (), j')"
  shows "ffg_inv ep g (Suc e) j' (G \<union> newly_justified R pc cc)"
    and "unat (ep (j_finalized_checkpoint j)) \<le> unat (ep (j_finalized_checkpoint j'))"
proof -
  let ?G = "G \<union> newly_justified R pc cc"
  let ?cj = "j_current_justified_checkpoint j" and ?pj = "j_previous_justified_checkpoint j"
  have len: "length (j_justification_bits j) = 4" using inv by (simp add: ffg_inv_def)
  obtain b0 b1 b2 b3 smp smc where b: "j_justification_bits j = [b0, b1, b2, b3]"
    and sm: "supermajority R pc = Ok smp" "supermajority R cc = Ok smc"
    and bits: "j_justification_bits j' = [smc, smp \<or> b0, b1, b2]"
    and prev: "j_previous_justified_checkpoint j' = ?cj"
    and cur: "j_current_justified_checkpoint j' = (if smc then cc else if smp then pc else ?cj)"
    and fin: "j_finalized_checkpoint j' =
      (if smc \<and> (smp \<or> b0) \<and> ep ?cj + 1 = ep cc then ?cj
       else if smc \<and> (smp \<or> b0) \<and> b1 \<and> ep ?cj + 2 = ep cc then ?cj
       else if (smp \<or> b0) \<and> b1 \<and> ep ?pj + 2 = ep cc then ?pj
       else if (smp \<or> b0) \<and> b1 \<and> b2 \<and> ep ?pj + 3 = ep cc then ?pj
       else j_finalized_checkpoint j)"
    by (rule justifier_process_Ok [OF run len, unfolded R])
  have u: "unat (ep pc) = e" "unat (ep cc) = Suc e"
    using e unat_of_nat_u64 [of e] unat_of_nat_u64 [of "Suc e"] by (simp_all add: pc cc del: of_nat_Suc)
  have old: "unat (ep ?pj) \<le> e" "unat (ep ?cj) \<le> e" "unat (ep ?pj) \<le> unat (ep ?cj)"
    "unat (ep (j_finalized_checkpoint j)) \<le> unat (ep ?pj)" "?cj \<in> insert g G" "?pj \<in> insert g G"
    using inv by (auto simp: ffg_inv_def)
  have J: "smp \<longrightarrow> pc \<in> ?G" "smc \<longrightarrow> cc \<in> ?G"
    using supermajority_two_thirds [OF sm(1) fit, of pc cc] supermajority_two_thirds [OF sm(2) fit, of pc cc] by auto
  have new_le: "\<forall>c\<in>?G. unat (ep c) \<le> Suc e" using inv u by (auto simp: ffg_inv_def newly_justified_def)
  have hist: "b0 \<longrightarrow> (\<exists>c\<in>?G. unat (ep c) = e)" "b1 \<longrightarrow> (\<exists>c\<in>?G. unat (ep c) + 1 = e)" "b2 \<longrightarrow> (\<exists>c\<in>?G. unat (ep c) + 2 = e)"
    using inv by (auto simp: ffg_inv_def b all_less_4)
  have pos1: "smp \<or> b0 \<longrightarrow> (\<exists>c\<in>?G. unat (ep c) = e)" using J(1) hist(1) u(1) by auto
  have dist: "ep w + of_nat d = ep cc \<Longrightarrow> unat (ep w) \<le> e \<Longrightarrow> d \<le> 3 \<Longrightarrow> unat (ep w) + d = Suc e" for w d
    using unat_epoch_plus [of "ep w" d e] e cc by simp
  have d1: "ep ?cj + 1 = ep cc \<Longrightarrow> unat (ep ?cj) = e" using dist [of ?cj 1] old by simp
  have d2: "ep ?cj + 2 = ep cc \<Longrightarrow> unat (ep ?cj) + 1 = e" using dist [of ?cj 2] old by simp
  have d3: "ep ?pj + 2 = ep cc \<Longrightarrow> unat (ep ?pj) + 1 = e" using dist [of ?pj 2] old by simp
  have d4: "ep ?pj + 3 = ep cc \<Longrightarrow> unat (ep ?pj) + 2 = e" using dist [of ?pj 3] old by simp
  have final: "j_finalized_checkpoint j' = g \<or> j_finalized_checkpoint j' \<in> ?G \<and>
      (\<exists>c\<in>?G. unat (ep c) = unat (ep (j_finalized_checkpoint j')) + 1)"
    "unat (ep (j_finalized_checkpoint j')) \<le> unat (ep ?cj)"
    "unat (ep (j_finalized_checkpoint j)) \<le> unat (ep (j_finalized_checkpoint j'))"
  proof -
    consider
        (cur1) "smc" "unat (ep ?cj) = e" "j_finalized_checkpoint j' = ?cj"
      | (cur2) "smp \<or> b0" "unat (ep ?cj) + 1 = e" "j_finalized_checkpoint j' = ?cj"
      | (prev) "b1" "smp \<or> b0" "unat (ep ?pj) + 1 = e" "j_finalized_checkpoint j' = ?pj"
      | (prev2) "b1" "unat (ep ?pj) + 2 = e" "j_finalized_checkpoint j' = ?pj"
      | (same) "j_finalized_checkpoint j' = j_finalized_checkpoint j"
    proof -
      have "smc \<and> ep ?cj + 1 = ep cc \<and> j_finalized_checkpoint j' = ?cj \<or>
          (smp \<or> b0) \<and> ep ?cj + 2 = ep cc \<and> j_finalized_checkpoint j' = ?cj \<or>
          b1 \<and> (smp \<or> b0) \<and> ep ?pj + 2 = ep cc \<and> j_finalized_checkpoint j' = ?pj \<or>
          b1 \<and> ep ?pj + 3 = ep cc \<and> j_finalized_checkpoint j' = ?pj \<or>
          j_finalized_checkpoint j' = j_finalized_checkpoint j"
        using if_chain [OF fin] by blast
      then show thesis using that d1 d2 d3 d4 by blast
    qed
    note cases = this
    show "j_finalized_checkpoint j' = g \<or> j_finalized_checkpoint j' \<in> ?G \<and>
        (\<exists>c\<in>?G. unat (ep c) = unat (ep (j_finalized_checkpoint j')) + 1)"
      using cases
    proof cases
      case cur1
      then show ?thesis using old(5) J(2) u(2) by auto
    next
      case cur2
      then show ?thesis using old(5) pos1 by auto
    next
      case prev
      then show ?thesis using old(6) pos1 by auto
    next
      case prev2
      then show ?thesis using old(6) hist(2) by auto
    next
      case same
      then show ?thesis using inv by (auto simp: ffg_inv_def)
    qed
    show "unat (ep (j_finalized_checkpoint j')) \<le> unat (ep ?cj)"
      "unat (ep (j_finalized_checkpoint j)) \<le> unat (ep (j_finalized_checkpoint j'))"
      by (rule cases; use old in simp)+
  qed
  show "unat (ep (j_finalized_checkpoint j)) \<le> unat (ep (j_finalized_checkpoint j'))" by (rule final)
  have "\<forall>k<4. j_justification_bits j' ! k \<longrightarrow> (\<exists>c\<in>?G. unat (ep c) + k = Suc e)"
    using J(2) u(2) pos1 hist unfolding bits all_less_4 by (auto simp: numeral_eq_Suc)
  then show "ffg_inv ep g (Suc e) j' ?G"
    unfolding ffg_inv_def using final new_le old J u inv by (auto simp: bits prev cur ffg_inv_def)
qed

lemma ffg_reach_inv: "ffg_reach ep g e j G \<Longrightarrow> ffg_inv ep g e j G"
  by (induction rule: ffg_reach.induct) (blast intro: ffg_inv_start ffg_inv_epoch(1))+

text \<open>
  C4: Whatever balances below \<open>2\<^sup>64 div 3\<close> the registries report epoch after epoch, a finalized checkpoint is the genesis
  checkpoint, or it had two thirds of the balance, as numbers without wrap-around, and so had a checkpoint of the very
  next epoch. The finalized epoch is at most the previously justified one, which is at most the currently justified one,
  which is not in the future.
\<close>

theorem ffg_finalized_justified:
  assumes "ffg_reach ep g e j G"
  shows "(j_finalized_checkpoint j = g \<or>
      j_finalized_checkpoint j \<in> G \<and> (\<exists>c\<in>G. unat (ep c) = unat (ep (j_finalized_checkpoint j)) + 1)) \<and>
    unat (ep (j_finalized_checkpoint j)) \<le> unat (ep (j_previous_justified_checkpoint j)) \<and>
    unat (ep (j_previous_justified_checkpoint j)) \<le> unat (ep (j_current_justified_checkpoint j)) \<and>
    unat (ep (j_current_justified_checkpoint j)) \<le> e"
  using ffg_reach_inv [OF assms] by (auto simp: ffg_inv_def)

text \<open>
  Finality is never lost: along every chain of epochs the finalized epoch does not decrease.
\<close>

lemma ffg_finality_monotone:
  assumes "ffg_reach ep g e j G" "checkpoint_epoch (R :: ('c, error) JustifierRegistry) = ep"
    "ep pc = of_nat e" "ep cc = of_nat (Suc e)" "e < 2 ^ 63" "balances_fit R"
    "justifier_process R pc cc j = (Ok (), j')"
  shows "ep (j_finalized_checkpoint j) \<le> ep (j_finalized_checkpoint j')"
  using ffg_inv_epoch(2) [OF ffg_reach_inv [OF assms(1)] assms(2-7)] by (simp add: word_le_nat_alt)

text \<open>
  C21: Two epochs in a row whose checkpoints pass the majority test of the code finalize the first of them, from any
  state of the justifier.
\<close>

theorem ffg_two_epochs_finalize:
  assumes "length (j_justification_bits j) = 4"
    and "justifier_process R p1 c1 j = (Ok (), j1)" "supermajority R c1 = Ok True"
    and "justifier_process R' p2 c2 j1 = (Ok (), j2)" "supermajority R' c2 = Ok True"
    and "checkpoint_epoch R' c1 + 1 = checkpoint_epoch R' c2"
  shows "j_finalized_checkpoint j2 = c1 \<and> j_current_justified_checkpoint j2 = c2"
proof (rule justifier_process_Ok [OF assms(2,1)])
  fix b0 b1 b2 b3 smp smc
  assume 1: "supermajority R c1 = Ok smc" "j_justification_bits j1 = [smc, smp \<or> b0, b1, b2]"
    "j_current_justified_checkpoint j1 = (if smc then c1 else if smp then p1 else j_current_justified_checkpoint j)"
  have l: "length (j_justification_bits j1) = 4" by (simp add: 1(2))
  show ?thesis
    by (rule justifier_process_Ok [OF assms(4) l]) (use 1 assms(3,5,6) in auto)
qed

section \<open>A chain with two supermajorities\<close>

definition sample_registry :: "(Checkpoint, error) JustifierRegistry" where
  "sample_registry = \<lparr>
     checkpoint_epoch = epoch,
     registry_total_active_balance = Ok 96,
     registry_attesting_target_balance = (\<lambda>c. Ok (if epoch c = 1 then 32 else 64))\<rparr>"

definition sample_checkpoint :: "Epoch \<Rightarrow> Checkpoint" where
  "sample_checkpoint e = \<lparr>epoch = e, root = replicate 32 (ucast e)\<rparr>"

definition sample_justifier :: "Checkpoint Justifier" where
  "sample_justifier =
     snd (justifier_process sample_registry (sample_checkpoint 1) (sample_checkpoint 2)
       (justifier_init Checkpoint_default))"

lemma sample_supermajority:
  "supermajority sample_registry (sample_checkpoint e) = Ok (e \<noteq> 1)"
  by (simp add: supermajority_def sample_registry_def sample_checkpoint_def)

lemma sample_process:
  "justifier_process sample_registry (sample_checkpoint e) (sample_checkpoint f) j =
     (Ok (), snd (justifier_process sample_registry (sample_checkpoint e) (sample_checkpoint f) j))"
  by (simp add: justifier_process_def Let_def ebind_eget exec_simps sample_supermajority prod_eq_iff)

lemma sample_reach:
  "ffg_reach epoch Checkpoint_default 2 sample_justifier
     (newly_justified sample_registry (sample_checkpoint 1) (sample_checkpoint 2))"
proof -
  have "ffg_reach epoch Checkpoint_default (Suc 1) sample_justifier
     ({} \<union> newly_justified sample_registry (sample_checkpoint 1) (sample_checkpoint 2))"
  proof (rule ffg_epoch)
    show "ffg_reach epoch Checkpoint_default 1 (justifier_init Checkpoint_default) {}"
      by (rule ffg_start) (simp add: Checkpoint_default_def)
    show "justifier_process sample_registry (sample_checkpoint 1) (sample_checkpoint 2) (justifier_init Checkpoint_default)
        = (Ok (), sample_justifier)"
      unfolding sample_justifier_def by (rule sample_process)
  qed (simp_all add: sample_registry_def sample_checkpoint_def balances_fit_def)
  then show ?thesis by (simp add: numeral_2_eq_2)
qed

theorem ffg_finalized_justified_witness:
  "ffg_reach epoch Checkpoint_default 2 sample_justifier
     (newly_justified sample_registry (sample_checkpoint 1) (sample_checkpoint 2)) \<and>
   epoch (j_finalized_checkpoint sample_justifier) \<le> epoch (j_current_justified_checkpoint sample_justifier)"
  using ffg_finalized_justified [OF sample_reach] sample_reach by (auto simp: word_le_nat_alt)

theorem ffg_two_epochs_finalize_witness:
  "j_finalized_checkpoint (snd (justifier_process sample_registry (sample_checkpoint 2) (sample_checkpoint 3) sample_justifier))
   = sample_checkpoint 2"
proof -
  have "j_finalized_checkpoint (snd (justifier_process sample_registry (sample_checkpoint 2) (sample_checkpoint 3) sample_justifier))
      = sample_checkpoint 2 \<and> j_current_justified_checkpoint (snd (justifier_process sample_registry (sample_checkpoint 2)
      (sample_checkpoint 3) sample_justifier)) = sample_checkpoint 3"
    unfolding sample_justifier_def
    by (rule ffg_two_epochs_finalize [OF _ sample_process _ sample_process])
      (simp_all add: sample_supermajority justifier_init_def JustificationBitsLength_def,
       simp add: sample_registry_def sample_checkpoint_def)
  then show ?thesis by simp
qed

end
