(* ===== verification/Epoch_Processing.thy ===== *)
theory Epoch_Processing
  imports Beacon_Mutators Casper_Justifier
begin

text \<open>
  The epoch transition, \<^verbatim>\<open>executive/transition/per_epoch/\<close>: attestation queries, justification and
  finalization through the generic justifier, rewards and penalties, registry updates,
  slashings, and the final updates, in the order of \<^verbatim>\<open>process_epoch\<close>. The implementation of the
  component traits for the executive (\<^verbatim>\<open>executive/mod.rs\<close>) is here too.
\<close>

section \<open>Attestation queries (helpers.rs)\<close>

definition matching_source_attestations ::
    "Config \<Rightarrow> BeaconState \<Rightarrow> Epoch \<Rightarrow> PendingAttestation list result" where
  "matching_source_attestations C s ep =
     (if ep = current_epoch C s then Ok (current_epoch_attestations s)
      else if ep = previous_epoch C s then Ok (previous_epoch_attestations s)
      else Err EpochOutOfRange)"

definition matching_target_attestations ::
    "Config \<Rightarrow> BeaconState \<Rightarrow> Epoch \<Rightarrow> PendingAttestation list result" where
  "matching_target_attestations C s ep =
     rbind (block_root C s ep) (\<lambda>br.
     rbind (matching_source_attestations C s ep) (\<lambda>as.
     Ok (filter (\<lambda>a. root (target (pa_data a)) = br) as)))"

definition matching_head_attestations ::
    "Config \<Rightarrow> BeaconState \<Rightarrow> Epoch \<Rightarrow> PendingAttestation list result" where
  "matching_head_attestations C s ep =
     rbind (matching_source_attestations C s ep) (\<lambda>as.
     rbind (collect_res (\<lambda>a.
       rbind (block_root_at_slot C s (ad_slot (pa_data a))) (\<lambda>br.
       Ok (beacon_block_root (pa_data a) = br, a))) as) (\<lambda>r.
     Ok (map snd (filter fst r))))"

text \<open>\<^verbatim>\<open>if !ret.contains(&x) { ret.push(x) }\<close>\<close>

definition push_unique :: "'a list \<Rightarrow> 'a \<Rightarrow> 'a list" where
  "push_unique ret x = (if x \<in> set ret then ret else ret @ [x])"

definition unslashed_attesting_indices ::
    "Config \<Rightarrow> BeaconState \<Rightarrow> PendingAttestation list \<Rightarrow> ValidatorIndex list result" where
  "unslashed_attesting_indices C s as =
     rbind (collect_res (\<lambda>a. attesting_indices C s (pa_data a) (pa_aggregation_bits a)) as) (\<lambda>iss.
     let ret = foldl push_unique [] (concat iss) in
     rbind (collect_res (\<lambda>i. rbind (vec_index (validators s) i) (\<lambda>v. Ok (i, \<not> slashed v))) ret) (\<lambda>marked.
     Ok (sort (map fst (filter snd marked)))))"

definition attesting_balance ::
    "Config \<Rightarrow> BeaconState \<Rightarrow> PendingAttestation list \<Rightarrow> Gwei result" where
  "attesting_balance C s as = rbind (unslashed_attesting_indices C s as) (total_balance s)"

section \<open>The component traits of the executive (executive/mod.rs)\<close>

definition executive_registry :: "Config \<Rightarrow> BeaconState \<Rightarrow> (Checkpoint, error) JustifierRegistry" where
  "executive_registry C s = \<lparr>
     checkpoint_epoch = epoch,
     registry_total_active_balance = total_active_balance C s,
     registry_attesting_target_balance =
       (\<lambda>c. rbind (matching_target_attestations C s (epoch c)) (attesting_balance C s))\<rparr>"

text \<open>The macros \<^verbatim>\<open>unslashed_balance\<close> and \<^verbatim>\<open>unslashed_validators\<close>, for the three kinds of matching.\<close>

definition unslashed_balance ::
    "(Config \<Rightarrow> BeaconState \<Rightarrow> Epoch \<Rightarrow> PendingAttestation list result) \<Rightarrow>
     Config \<Rightarrow> BeaconState \<Rightarrow> Checkpoint \<Rightarrow> Gwei result" where
  "unslashed_balance matching C s c =
     rbind (matching C s (epoch c)) (\<lambda>as.
     rbind (unslashed_attesting_indices C s as) (total_balance s))"

definition unslashed_validators ::
    "(Config \<Rightarrow> BeaconState \<Rightarrow> Epoch \<Rightarrow> PendingAttestation list result) \<Rightarrow>
     Config \<Rightarrow> BeaconState \<Rightarrow> Checkpoint \<Rightarrow> (ValidatorIndex \<times> Validator) list result" where
  "unslashed_validators matching C s c =
     rbind (matching C s (epoch c)) (\<lambda>as.
     rbind (unslashed_attesting_indices C s as)
       (collect_res (\<lambda>i. rbind (vec_index (validators s) i) (\<lambda>v. Ok (i, v)))))"

text \<open>
  The fold over the attestations that contain a validator, starting from the first matching
  attestation: \<^verbatim>\<open>if a.inclusion_delay < b.inclusion_delay { a } else { b }\<close>.
\<close>

definition min_inclusion_delay ::
    "Config \<Rightarrow> BeaconState \<Rightarrow> PendingAttestation list \<Rightarrow> ValidatorIndex \<Rightarrow> PendingAttestation result" where
  "min_inclusion_delay C s as i =
     rbind (collect_res (\<lambda>a.
       rbind (attesting_indices C s (pa_data a) (pa_aggregation_bits a)) (\<lambda>is. Ok (a, i \<in> set is))) as) (\<lambda>r.
     rbind (vec_index as 0) (\<lambda>first.
     Ok (foldl (\<lambda>a b. if inclusion_delay a < inclusion_delay b then a else b) first
           (map fst (filter snd r)))))"

definition min_inclusion_delay_attestation ::
    "Config \<Rightarrow> BeaconState \<Rightarrow> Checkpoint \<Rightarrow> ValidatorIndex \<Rightarrow> PendingAttestation option result" where
  "min_inclusion_delay_attestation C s c i =
     rbind (matching_source_attestations C s (epoch c)) (\<lambda>as.
     rbind (min_inclusion_delay C s as i) (\<lambda>a. Ok (Some a)))"

definition registry_balance :: "BeaconState \<Rightarrow> ValidatorIndex \<Rightarrow> Gwei result" where
  "registry_balance s i =
     (if unat i < length (balances s) then Ok (balances s ! unat i) else Err IndexOutOfRange)"

definition registry_effective_balance :: "BeaconState \<Rightarrow> ValidatorIndex \<Rightarrow> Gwei result" where
  "registry_effective_balance s i =
     (if unat i < length (validators s) then Ok (effective_balance (validators s ! unat i))
      else Err IndexOutOfRange)"

section \<open>Justification and finalization (justification.rs)\<close>

definition state_justifier :: "BeaconState \<Rightarrow> Checkpoint Justifier" where
  "state_justifier s = \<lparr>
     j_justification_bits = justification_bits s,
     j_current_justified_checkpoint = current_justified_checkpoint s,
     j_previous_justified_checkpoint = previous_justified_checkpoint s,
     j_finalized_checkpoint = finalized_checkpoint s\<rparr>"

definition with_justifier :: "Checkpoint Justifier \<Rightarrow> BeaconState \<Rightarrow> BeaconState" where
  "with_justifier j s = s\<lparr>
     justification_bits := j_justification_bits j,
     current_justified_checkpoint := j_current_justified_checkpoint j,
     previous_justified_checkpoint := j_previous_justified_checkpoint j,
     finalized_checkpoint := j_finalized_checkpoint j\<rparr>"


definition process_justification_and_finalization :: "Config \<Rightarrow> unit executive" where
  "process_justification_and_finalization C =
     ebind (eget (\<lambda>s. Ok (current_epoch C s))) (\<lambda>ce.
     if ce \<le> genesis_epoch C + 1 then eret ()
     else
       ebind (eget (\<lambda>s. Ok (previous_epoch C s))) (\<lambda>pe.
       ebind (eget (\<lambda>s. block_root C s pe)) (\<lambda>pr.
       ebind (eget (\<lambda>s. block_root C s ce)) (\<lambda>cr.
       ebind (eget (\<lambda>s. run_local
           (justifier_process (executive_registry C s) \<lparr>epoch = pe, root = pr\<rparr> \<lparr>epoch = ce, root = cr\<rparr>)
           (state_justifier s))) (\<lambda>j.
       emod (with_justifier j))))))"

section \<open>Rewards and penalties (reward.rs)\<close>

definition base_reward :: "Config \<Rightarrow> BeaconState \<Rightarrow> ValidatorIndex \<Rightarrow> Gwei result" where
  "base_reward C s i =
     rbind (total_active_balance C s) (\<lambda>total.
     rbind (vec_index (validators s) i) (\<lambda>v.
     rbind (integer_squareroot total) (\<lambda>sq.
     rbind (div_checked (effective_balance v * base_reward_factor C) sq) (\<lambda>x.
     Ok (x div BASE_REWARDS_PER_EPOCH)))))"

text \<open>The two local vectors \<^verbatim>\<open>rewards\<close> and \<^verbatim>\<open>penalties\<close> of \<^verbatim>\<open>attestation_deltas\<close>.\<close>

type_synonym deltas = "Gwei list \<times> Gwei list"

definition add_reward :: "ValidatorIndex \<Rightarrow> Gwei \<Rightarrow> (deltas, error, unit) exec" where
  "add_reward i d =
     ebind (eget (\<lambda>(r, p). vec_index r i)) (\<lambda>x. emod (\<lambda>(r, p). (r[unat i := x + d], p)))"

definition add_penalty :: "ValidatorIndex \<Rightarrow> Gwei \<Rightarrow> (deltas, error, unit) exec" where
  "add_penalty i d =
     ebind (eget (\<lambda>(r, p). vec_index p i)) (\<lambda>x. emod (\<lambda>(r, p). (r, p[unat i := x + d])))"

definition eligible_validator_indices :: "Config \<Rightarrow> BeaconState \<Rightarrow> ValidatorIndex list" where
  "eligible_validator_indices C s =
     map (\<lambda>(i, v). of_nat i) (filter (\<lambda>(i, v).
       is_active v (previous_epoch C s) \<or>
       (slashed v \<and> previous_epoch C s + 1 < withdrawable_epoch v)) (enumerate 0 (validators s)))"

definition micro_incentives ::
    "Config \<Rightarrow> BeaconState \<Rightarrow> Gwei \<Rightarrow> PendingAttestation list \<Rightarrow> (deltas, error, unit) exec" where
  "micro_incentives C s tb as =
     ebind (eget (\<lambda>_. unslashed_attesting_indices C s as)) (\<lambda>unslashed.
     ebind (eget (\<lambda>_. total_balance s unslashed)) (\<lambda>attesting.
     for_each (eligible_validator_indices C s) (\<lambda>i.
       ebind (eget (\<lambda>_. base_reward C s i)) (\<lambda>base.
       if i \<in> set unslashed
       then ebind (eget (\<lambda>_. div_checked (base * attesting) tb)) (add_reward i)
       else add_penalty i base))))"

definition inclusion_rewards ::
    "Config \<Rightarrow> BeaconState \<Rightarrow> PendingAttestation list \<Rightarrow> (deltas, error, unit) exec" where
  "inclusion_rewards C s as =
     ebind (eget (\<lambda>_. unslashed_attesting_indices C s as)) (\<lambda>unslashed.
     for_each unslashed (\<lambda>i.
       ebind (eget (\<lambda>_. min_inclusion_delay C s as i)) (\<lambda>a.
       ebind (eget (\<lambda>_. base_reward C s i)) (\<lambda>base.
       let proposer_reward = base div proposer_reward_quotient C in
       eseq (add_reward (pa_proposer_index a) proposer_reward) (
       let max_attester_reward = base - proposer_reward in
       ebind (eget (\<lambda>_. div_checked max_attester_reward (inclusion_delay a))) (add_reward i))))))"

definition inactivity_penalties ::
    "Config \<Rightarrow> BeaconState \<Rightarrow> PendingAttestation list \<Rightarrow> (deltas, error, unit) exec" where
  "inactivity_penalties C s target_as =
     (let finality_delay = previous_epoch C s - epoch (finalized_checkpoint s) in
      if finality_delay > min_epochs_to_inactivity_penalty C
      then
        ebind (eget (\<lambda>_. unslashed_attesting_indices C s target_as)) (\<lambda>attesting.
        for_each (eligible_validator_indices C s) (\<lambda>i.
          ebind (eget (\<lambda>_. base_reward C s i)) (\<lambda>base.
          eseq (add_penalty i (BASE_REWARDS_PER_EPOCH * base)) (
          if i \<notin> set attesting
          then
            ebind (eget (\<lambda>_. vec_index (validators s) i)) (\<lambda>v.
            add_penalty i (effective_balance v * finality_delay div inactivity_penalty_quotient C))
          else eret ()))))
      else eret ())"

definition attestation_deltas :: "Config \<Rightarrow> BeaconState \<Rightarrow> deltas result" where
  "attestation_deltas C s =
     rbind (total_active_balance C s) (\<lambda>total.
     rbind (matching_source_attestations C s (previous_epoch C s)) (\<lambda>source_as.
     rbind (matching_target_attestations C s (previous_epoch C s)) (\<lambda>target_as.
     rbind (matching_head_attestations C s (previous_epoch C s)) (\<lambda>head_as.
     run_local
       (eseq (for_each [source_as, target_as, head_as] (micro_incentives C s total))
       (eseq (inclusion_rewards C s source_as)
         (inactivity_penalties C s target_as)))
       (replicate (length (validators s)) 0, replicate (length (validators s)) 0)))))"

definition process_rewards_and_penalties :: "Config \<Rightarrow> unit executive" where
  "process_rewards_and_penalties C =
     ebind (eget (\<lambda>s. Ok (current_epoch C s))) (\<lambda>ce.
     if ce = genesis_epoch C then eret ()
     else
       ebind (eget (attestation_deltas C)) (\<lambda>(rewards, penalties).
       ebind (eget (\<lambda>s. Ok (length (validators s)))) (\<lambda>n.
       for_each [0..<n] (\<lambda>i.
         ebind (eget (\<lambda>_. vec_index rewards (of_nat i))) (\<lambda>r.
         eseq (increase_balance (of_nat i) r) (
         ebind (eget (\<lambda>_. vec_index penalties (of_nat i))) (\<lambda>p.
         decrease_balance (of_nat i) p)))))))"

section \<open>Registry updates (registry.rs)\<close>

definition set_validator :: "nat \<Rightarrow> (Validator \<Rightarrow> Validator) \<Rightarrow> BeaconState \<Rightarrow> BeaconState" where
  "set_validator i f s = s\<lparr>validators := (validators s)[i := f (validators s ! i)]\<rparr>"

definition registry_eligibility_and_ejection :: "Config \<Rightarrow> ValidatorIndex \<Rightarrow> unit executive" where
  "registry_eligibility_and_ejection C i =
     ebind (eget (\<lambda>s. vec_index (validators s) i)) (\<lambda>v.
     eseq (if activation_eligibility_epoch v = FAR_FUTURE_EPOCH \<and>
              effective_balance v = max_effective_balance C
           then emod (\<lambda>s. set_validator (unat i) (\<lambda>v. v\<lparr>activation_eligibility_epoch := current_epoch C s\<rparr>) s)
           else eret ()) (
     ebind (eget (\<lambda>s. vec_index (validators s) i)) (\<lambda>v.
     ebind (eget (\<lambda>s. Ok (current_epoch C s))) (\<lambda>ce.
     if is_active v ce \<and> effective_balance v \<le> ejection_balance C
     then initiate_validator_exit C i
     else eret ()))))"

definition activation_queue :: "Config \<Rightarrow> BeaconState \<Rightarrow> ValidatorIndex list" where
  "activation_queue C s =
     sort_key (\<lambda>i. activation_eligibility_epoch (validators s ! unat i))
       (map (\<lambda>(i, v). of_nat i) (filter (\<lambda>(i, v).
          activation_eligibility_epoch v \<noteq> FAR_FUTURE_EPOCH \<and>
          activation_epoch v \<ge> activation_exit_epoch C (epoch (finalized_checkpoint s)))
        (enumerate 0 (validators s))))"

definition activate_validator :: "Config \<Rightarrow> ValidatorIndex \<Rightarrow> unit executive" where
  "activate_validator C i =
     ebind (eget (\<lambda>s. vec_index (validators s) i)) (\<lambda>v.
     if activation_epoch v = FAR_FUTURE_EPOCH
     then emod (\<lambda>s. set_validator (unat i)
            (\<lambda>v. v\<lparr>activation_epoch := activation_exit_epoch C (current_epoch C s)\<rparr>) s)
     else eret ())"

definition process_registry_updates :: "Config \<Rightarrow> unit executive" where
  "process_registry_updates C =
     ebind (eget (\<lambda>s. Ok (length (validators s)))) (\<lambda>n.
     eseq (for_each [0..<n] (\<lambda>i. registry_eligibility_and_ejection C (of_nat i))) (
     ebind (eget (\<lambda>s. Ok (take (min (length (activation_queue C s)) (unat (validator_churn_limit C s)))
        (activation_queue C s)))) (\<lambda>queue.
     for_each queue (activate_validator C))))"

section \<open>Slashings (slashing.rs)\<close>

definition slashing_penalty :: "Config \<Rightarrow> BeaconState \<Rightarrow> Gwei \<Rightarrow> Epoch \<Rightarrow> Validator \<Rightarrow> Gwei option result" where
  "slashing_penalty C s tb ce v =
     (if slashed v \<and> ce + epochs_per_slashings_vector C div 2 = withdrawable_epoch v
      then
        let increment = effective_balance_increment C;
            penalty_numerator = effective_balance v div increment *
              min (foldl (+) 0 (slashings s) * 3) tb
        in rbind (div_checked penalty_numerator tb) (\<lambda>x. Ok (Some (x * increment)))
      else Ok None)"

definition process_slashings :: "Config \<Rightarrow> unit executive" where
  "process_slashings C =
     ebind (eget (\<lambda>s. Ok (current_epoch C s))) (\<lambda>ce.
     ebind (eget (total_active_balance C)) (\<lambda>total.
     ebind (eget (\<lambda>s. Ok (len64 (validators s)))) (\<lambda>n.
     for_each (range64 0 n) (\<lambda>i.
       ebind (eget (\<lambda>s. rbind (vec_index (validators s) i) (slashing_penalty C s total ce))) (\<lambda>penalty.
       case penalty of
         Some p \<Rightarrow> decrease_balance i p
       | None \<Rightarrow> eret ())))))"

section \<open>Final updates (finalize.rs)\<close>

definition update_effective_balance :: "Config \<Rightarrow> Gwei \<Rightarrow> Validator \<Rightarrow> Validator" where
  "update_effective_balance C balance v =
     (let half_increment = effective_balance_increment C div 2 in
      if balance < effective_balance v \<or> effective_balance v + 3 * half_increment < balance
      then v\<lparr>effective_balance := rounded_balance C balance\<rparr>
      else v)"

definition effective_balance_step :: "Config \<Rightarrow> ValidatorIndex \<Rightarrow> unit executive" where
  "effective_balance_step C i =
     ebind (eget (\<lambda>s. vec_index (validators s) i)) (\<lambda>v.
     ebind (eget (\<lambda>s. vec_index (balances s) i)) (\<lambda>balance.
     emod (set_validator (unat i) (update_effective_balance C balance))))"

definition process_final_updates :: "Config \<Rightarrow> unit executive" where
  "process_final_updates C =
     ebind (eget (\<lambda>s. Ok (current_epoch C s))) (\<lambda>ce.
     let next_epoch = ce + 1 in
     eseq (emod (\<lambda>s. if (slot s + 1) mod slots_per_eth1_voting_period C = 0
                      then s\<lparr>eth1_data_votes := []\<rparr> else s)) (
     ebind (eget (\<lambda>s. Ok (len64 (validators s)))) (\<lambda>n.
     eseq (for_each (range64 0 n) (effective_balance_step C)) (
     eseq (emod (\<lambda>s. s\<lparr>slashings := (slashings s)[unat (next_epoch mod epochs_per_slashings_vector C) := 0]\<rparr>)) (
     eseq (emod (\<lambda>s. s\<lparr>randao_mixes :=
       (randao_mixes s)[unat (next_epoch mod epochs_per_historical_vector C) := randao_mix C s ce]\<rparr>)) (
     eseq (emod (\<lambda>s. if next_epoch mod (slots_per_historical_root C div slots_per_epoch C) = 0
       then s\<lparr>historical_roots := historical_roots s @
         [root_historical_batch (hashing C)
            \<lparr>hb_block_roots = block_roots s, hb_state_roots = state_roots s\<rparr>]\<rparr>
       else s)) (
     emod (\<lambda>s. s\<lparr>previous_epoch_attestations := current_epoch_attestations s,
                  current_epoch_attestations := []\<rparr>))))))))"

section \<open>The epoch transition (mod.rs)\<close>

definition process_epoch :: "Config \<Rightarrow> unit executive" where
  "process_epoch C =
     eseq (process_justification_and_finalization C) (
     eseq (process_rewards_and_penalties C) (
     eseq (process_registry_updates C) (
     eseq (process_slashings C)
       (process_final_updates C))))"

section \<open>The interface of the epoch transition\<close>


lemma finalize_when_bits [simp]: "j_justification_bits (finalize_when b c j) = j_justification_bits j"
  by (simp add: finalize_when_def)

lemma justify_when_bits [simp]:
  "length (j_justification_bits (justify_when b k c j)) = length (j_justification_bits j)"
  by (simp add: justify_when_def)

lemma justifier_process_bits:
  assumes "justifier_process R pc cc j = (Ok (), j')" "j_justification_bits j \<noteq> []"
  shows "length (j_justification_bits j') = length (j_justification_bits j)"
proof -
  from assms(1) obtain smp smc where "supermajority R pc = Ok smp" "supermajority R cc = Ok smc"
    unfolding justifier_process_def Let_def exec_ok by auto
  with assms(1) have "length (j_justification_bits j') = Suc (length (j_justification_bits j) - 1)"
    unfolding justifier_process_def Let_def by (auto simp: exec_simps ebind_eget)
  with assms(2) show ?thesis by simp
qed

text \<open>
  A property that also survives the writes of the epoch transition outside the registry: first those of
  every part but the justification, then those of the justification.
\<close>

locale epoch_body_invariant = registry_invariant +
  assumes votes_reset: "I s \<Longrightarrow> I (s\<lparr>eth1_data_votes := []\<rparr>)"
    and randao_update: "I s \<Longrightarrow> I (s\<lparr>randao_mixes := (randao_mixes s)[k := m]\<rparr>)"
    and historical_push: "I s \<Longrightarrow> I (s\<lparr>historical_roots := historical_roots s @ [h]\<rparr>)"
    and attestations_rotate:
      "I s \<Longrightarrow> I (s\<lparr>previous_epoch_attestations := current_epoch_attestations s, current_epoch_attestations := []\<rparr>)"
begin

lemma set_validator_inv:
  "I s \<Longrightarrow> i < length (validators s) \<Longrightarrow> validator_step C (validators s ! i) (f (validators s ! i)) \<Longrightarrow>
   I (set_validator i f s)"
  by (simp add: set_validator_def validator_update)

lemma rewards_inv [preserves_intros]: "preserves I (process_rewards_and_penalties C)"
  unfolding process_rewards_and_penalties_def by (intro preserves_intros)

lemma eligibility_inv [preserves_intros]: "preserves I (registry_eligibility_and_ejection C i)"
  unfolding registry_eligibility_and_ejection_def
  by (rule preserves_eget_bind, rule preserves_eseq_at)
    (auto simp: exec_simps validator_step_def intro!: set_validator_inv preserves_intros)

lemma activate_inv [preserves_intros]: "preserves I (activate_validator C i)"
  unfolding activate_validator_def
  by (rule preserves_eget_bind) (auto simp: exec_simps validator_step_def intro!: set_validator_inv)

lemma registry_updates_inv [preserves_intros]: "preserves I (process_registry_updates C)"
  unfolding process_registry_updates_def by (intro preserves_intros)

lemma slashings_inv [preserves_intros]: "preserves I (process_slashings C)"
  unfolding process_slashings_def by (intro preserves_intros)

lemma effective_balance_step_inv [preserves_intros]: "preserves I (effective_balance_step C i)"
  unfolding effective_balance_step_def
  by (rule preserves_eget_bind)
    (auto simp: ebind_eget vec_index_def exec_simps update_effective_balance_def Let_def validator_step_def
      intro!: set_validator_inv split: if_splits)

lemma final_updates_inv [preserves_intros]: "preserves I (process_final_updates C)"
  unfolding process_final_updates_def Let_def
  by (intro preserves_intros preserves_emod)
    (simp_all add: votes_reset slashings_update randao_update historical_push attestations_rotate)

end

locale epoch_invariant = epoch_body_invariant +
  assumes justifier_update:
      "I s \<Longrightarrow> (justification_bits s \<noteq> [] \<longrightarrow> length (j_justification_bits j) = length (justification_bits s)) \<Longrightarrow>
       I (with_justifier j s)"
begin

lemma justification_inv [preserves_intros]: "preserves I (process_justification_and_finalization C)"
proof -
  have "I (with_justifier j s)"
    if "I s" "run_local (justifier_process (executive_registry C s) pc cc) (state_justifier s) = Ok j" for s j pc cc
    using that justifier_process_bits [of "executive_registry C s" pc cc "state_justifier s" j]
    by (intro justifier_update) (simp_all add: run_local_Ok state_justifier_def)
  then show ?thesis
    unfolding process_justification_and_finalization_def
    by (intro preserves_if preserves_eret preserves_ebind [OF preserves_eget] preserves_eget_bind)
      (simp_all add: exec_simps)
qed

lemma process_epoch_inv [preserves_intros]: "preserves I (process_epoch C)"
  unfolding process_epoch_def by (intro preserves_intros)

end

interpretation wf: epoch_invariant C "state_wf C" for C
  by unfold_locales (auto simp: state_wf_def with_justifier_def JustificationBitsLength_def)

interpretation slot_frame: epoch_invariant C "\<lambda>s. slot s = k" for C k
  by unfold_locales (simp_all add: with_justifier_def)

interpretation life: epoch_invariant C "registry_grows C s" for C s
  by unfold_locales (simp_all add: with_justifier_def registry_grows_def)

interpretation bal: epoch_invariant C "registry_balances_ok C" for C
  by unfold_locales (simp_all add: with_justifier_def registry_balances_ok_def)

interpretation keys: epoch_invariant C distinct_pubkeys for C
  by unfold_locales (simp_all add: with_justifier_def distinct_pubkeys_def)

section \<open>Effective balances\<close>


text \<open>A loop that rewrites one registry entry per iteration.\<close>

lemma for_each_set_validator:
  assumes body: "\<And>i u. i \<in> set ks \<Longrightarrow> length (validators u) = n \<Longrightarrow> balances u = bs \<Longrightarrow>
      body i u = (Ok (), set_validator (unat i) (g (unat i)) u)"
    and "distinct ks" "\<And>i. i \<in> set ks \<Longrightarrow> unat i < n"
    and "length (validators s) = n" "balances s = bs"
  shows "\<exists>vs. for_each ks body s = (Ok (), s\<lparr>validators := vs\<rparr>) \<and> length vs = n \<and>
    (\<forall>j<n. vs ! j = (if j \<in> unat ` set ks then g j (validators s ! j) else validators s ! j))"
  using assms
proof (induction ks arbitrary: s)
  case Nil
  then show ?case by (intro exI [of _ "validators s"]) (simp add: exec_simps)
next
  case (Cons i ks)
  let ?s1 = "set_validator (unat i) (g (unat i)) s"
  have s1: "length (validators ?s1) = n" "balances ?s1 = bs"
    "validators ?s1 = (validators s)[unat i := g (unat i) (validators s ! unat i)]"
    "\<And>vs. ?s1\<lparr>validators := vs\<rparr> = s\<lparr>validators := vs\<rparr>"
    using Cons.prems by (simp_all add: set_validator_def)
  obtain vs where vs: "for_each ks body ?s1 = (Ok (), ?s1\<lparr>validators := vs\<rparr>)" "length vs = n"
    "\<forall>j<n. vs ! j = (if j \<in> unat ` set ks then g j (validators ?s1 ! j) else validators ?s1 ! j)"
    using Cons.IH [of ?s1] Cons.prems s1 by auto
  have "for_each (i # ks) body s = (Ok (), s\<lparr>validators := vs\<rparr>)"
    using Cons.prems(1) [of i s] Cons.prems(4,5) vs(1) s1(4) by (simp add: eseq_def exec_simps)
  moreover have "unat i \<notin> unat ` set ks" using Cons.prems(2) by (auto simp: word_unat_eq_iff [symmetric])
  then have "\<forall>j<n. vs ! j = (if j \<in> unat ` set (i # ks) then g j (validators s ! j) else validators s ! j)"
    using vs(3) Cons.prems(3) [of i] Cons.prems(4) by (auto simp: s1(3) nth_list_update)
  ultimately show ?case using vs(2) by blast
qed


lemma effective_balance_tracks:
  assumes C: "config_ok C" and v: "effective_balance v \<le> max_effective_balance C"
    and w: "w = update_effective_balance C b v"
  shows "effective_balance w \<le> b \<and>
    (effective_balance w = max_effective_balance C \<or>
     unat b \<le> unat (effective_balance w) + 3 * (unat (effective_balance_increment C) div 2))"
proof -
  let ?inc = "unat (effective_balance_increment C)" and ?max = "unat (max_effective_balance C)"
  have inc: "0 < ?inc" "?inc \<le> 2 ^ 40" "?max \<le> 2 ^ 40"
    using C by (auto simp: config_ok_def word_le_nat_alt word_less_nat_alt)
  have half: "unat (3 * (effective_balance_increment C div 2)) = 3 * (?inc div 2)"
    using inc by (simp add: unat_word_ariths unat_div)
  have add: "unat (effective_balance v + 3 * (effective_balance_increment C div 2)) =
      unat (effective_balance v) + 3 * (?inc div 2)"
    using inc v half by (simp add: unat_word_ariths word_le_nat_alt)
  have rb: "unat (b - b mod effective_balance_increment C) = unat b - unat b mod ?inc"
    by (simp add: unat_sub unat_mod word_le_nat_alt)
  have "unat b mod ?inc \<le> 3 * (?inc div 2)"
    using mod_less_divisor [OF inc(1), of "unat b"] by linarith
  then show ?thesis
    using half add rb unfolding w update_effective_balance_def rounded_balance_def Let_def
    by (auto simp: word_le_nat_alt word_less_nat_alt word_unat_eq_iff min_def)
qed

lemma effective_balance_loop:
  assumes "state_wf C s" "registry_ok s"
  shows "\<exists>vs. for_each (range64 0 (len64 (validators s))) (effective_balance_step C) s = (Ok (), s\<lparr>validators := vs\<rparr>) \<and>
    length vs = length (validators s) \<and>
    (\<forall>j<length (validators s). vs ! j = update_effective_balance C (balances s ! j) (validators s ! j))"
proof -
  let ?n = "length (validators s)" and ?ks = "range64 0 (len64 (validators s))"
  have n: "unat (len64 (validators s)) = ?n" using assms(2) by (simp add: registry_ok_def)
  have rng: "unat i < ?n" if "i \<in> set ?ks" for i
    using that n by (simp add: word_less_nat_alt)
  have body: "effective_balance_step C i u = (Ok (), set_validator (unat i) (update_effective_balance C (balances s ! unat i)) u)"
    if "i \<in> set ?ks" "length (validators u) = ?n" "balances u = balances s" for i u
    using that rng [of i] assms(1)
    by (simp add: effective_balance_step_def ebind_eget vec_index_in_range exec_simps state_wf_def del: set_range64)
  have all: "j \<in> unat ` set ?ks" if "j < ?n" for j
  proof -
    have "unat (of_nat j :: u64) = j" using that assms(2) by simp
    then show ?thesis using that n by (intro image_eqI [of _ _ "of_nat j"]) (simp_all add: word_less_nat_alt)
  qed
  obtain vs where "for_each ?ks (effective_balance_step C) s = (Ok (), s\<lparr>validators := vs\<rparr>)" "length vs = ?n"
    "\<forall>j<?n. vs ! j = (if j \<in> unat ` set ?ks
       then update_effective_balance C (balances s ! j) (validators s ! j) else validators s ! j)"
    using for_each_set_validator [where g = "\<lambda>j. update_effective_balance C (balances s ! j)" and s = s,
        OF body distinct_range64 rng refl refl] by blast
  then show ?thesis using all by auto
qed

text \<open>
  C27: After the final updates of an epoch every effective balance is backed by the actual balance,
  and either is the maximal effective balance or lags behind the balance by at most one and a half increments.
  The updates cannot fail on a well-formed state, no balance changes, the slashings slot of the next
  epoch is cleared, the randomness is carried over, and the attestations are rotated.
\<close>

theorem process_final_updates_correct:
  assumes "config_ok C" "state_wf C s" "registry_ok s" "registry_balances_ok C s"
  shows "\<exists>t. process_final_updates C s = (Ok (), t) \<and>
    length (validators t) = length (validators s) \<and> balances t = balances s \<and>
    (\<forall>i<length (validators s).
       effective_balance (validators t ! i) \<le> balances s ! i \<and>
       (effective_balance (validators t ! i) = max_effective_balance C \<or>
        unat (balances s ! i) \<le>
          unat (effective_balance (validators t ! i)) + 3 * (unat (effective_balance_increment C) div 2))) \<and>
    slashings t ! unat ((current_epoch C s + 1) mod epochs_per_slashings_vector C) = 0 \<and>
    randao_mix C t (current_epoch C s + 1) = randao_mix C s (current_epoch C s) \<and>
    previous_epoch_attestations t = current_epoch_attestations s \<and> current_epoch_attestations t = []"
proof -
  let ?ce = "current_epoch C s"
  define s1 where "s1 = (if (slot s + 1) mod slots_per_eth1_voting_period C = 0 then s\<lparr>eth1_data_votes := []\<rparr> else s)"
  have s1: "validators s1 = validators s" "balances s1 = balances s" "slashings s1 = slashings s"
    "randao_mixes s1 = randao_mixes s" "current_epoch_attestations s1 = current_epoch_attestations s"
    by (simp_all add: s1_def)
  have "state_wf C s1" "registry_ok s1" using assms(2,3) by (simp_all add: s1_def state_wf_def registry_ok_def)
  then obtain vs where vs: "for_each (range64 0 (len64 (validators s))) (effective_balance_step C) s1 = (Ok (), s1\<lparr>validators := vs\<rparr>)"
    "length vs = length (validators s)"
    "\<forall>j<length (validators s). vs ! j = update_effective_balance C (balances s ! j) (validators s ! j)"
    using effective_balance_loop [of C s1] unfolding s1 by blast
  have run: "process_final_updates C s = (Ok (), snd (process_final_updates C s)) \<and>
      validators (snd (process_final_updates C s)) = vs \<and>
      balances (snd (process_final_updates C s)) = balances s \<and>
      slashings (snd (process_final_updates C s)) = (slashings s)[unat ((?ce + 1) mod epochs_per_slashings_vector C) := 0] \<and>
      randao_mixes (snd (process_final_updates C s)) =
        (randao_mixes s)[unat ((?ce + 1) mod epochs_per_historical_vector C) := randao_mix C s ?ce] \<and>
      previous_epoch_attestations (snd (process_final_updates C s)) = current_epoch_attestations s \<and>
      current_epoch_attestations (snd (process_final_updates C s)) = []"
    unfolding process_final_updates_def Let_def
    by (simp add: ebind_eget exec_simps s1_def [symmetric] s1 eseq_run [of "for_each _ _" s1, OF vs(1)] randao_mix_def prod_eq_iff)
  have in1: "unat ((?ce + 1) mod epochs_per_slashings_vector C) < length (slashings s)"
    "unat ((?ce + 1) mod epochs_per_historical_vector C) < length (randao_mixes s)"
    using assms(1,2) by (auto simp: state_wf_def config_ok_def unat_mod word_less_nat_alt)
  have "effective_balance (vs ! i) \<le> balances s ! i \<and>
      (effective_balance (vs ! i) = max_effective_balance C \<or>
       unat (balances s ! i) \<le> unat (effective_balance (vs ! i)) + 3 * (unat (effective_balance_increment C) div 2))"
    if "i < length (validators s)" for i
    using effective_balance_tracks [OF assms(1), of "validators s ! i" "vs ! i" "balances s ! i"]
      vs(3) that assms(4) by (simp add: registry_balances_ok_def balance_ok_def)
  then show ?thesis
    using run vs(2) in1 by (intro exI [of _ "snd (process_final_updates C s)"]) (simp add: randao_mix_def)
qed

theorem process_final_updates_correct_witness:
  "config_ok (MinimalConfig toy_hashing) \<and> state_wf (MinimalConfig toy_hashing) sample_state \<and>
   registry_ok sample_state \<and> registry_balances_ok (MinimalConfig toy_hashing) sample_state \<and>
   (\<exists>t. process_final_updates (MinimalConfig toy_hashing) sample_state = (Ok (), t) \<and>
      effective_balance (validators t ! 0) \<le> 32000000000)"
proof -
  have b: "registry_balances_ok (MinimalConfig toy_hashing) sample_state" "length (validators sample_state) = 3"
    "balances sample_state ! 0 = 32000000000"
    by (simp_all add: registry_balances_ok_def balance_ok_def sample_state_def sample_validator_def)
  then show ?thesis
    using process_final_updates_correct [of "MinimalConfig toy_hashing" sample_state] by fastforce
qed

section \<open>Slashing penalties and base rewards\<close>

text \<open>
  The penalty a slashed validator pays half-way through its period never exceeds its effective
  balance, and is paid exactly once, by validators whose withdrawal is half a slashings vector away.
\<close>

lemma slashing_penalty_bounded:
  assumes "0 < tb" "unat (effective_balance v) * unat tb < 2 ^ 64" "0 < effective_balance_increment C"
  shows "\<exists>p. slashing_penalty C s tb ce v = Ok p \<and>
    (p \<noteq> None \<longleftrightarrow> slashed v \<and> ce + epochs_per_slashings_vector C div 2 = withdrawable_epoch v) \<and>
    (\<forall>x. p = Some x \<longrightarrow> x \<le> effective_balance v)"
proof -
  let ?inc = "effective_balance_increment C"
  define m where "m = min (foldl (+) 0 (slashings s) * 3) tb"
  define q where "q = effective_balance v div ?inc"
  have i: "0 < unat ?inc" "0 < unat tb" using assms(1,3) by (simp_all add: word_less_nat_alt)
  have m: "unat m \<le> unat tb" by (simp add: m_def min_def word_le_nat_alt)
  have q: "unat q * unat ?inc \<le> unat (effective_balance v)" by (simp add: q_def unat_div)
  have "unat q \<le> unat (effective_balance v)" by (simp add: q_def unat_div)
  with m have "unat q * unat m \<le> unat (effective_balance v) * unat tb" by (intro mult_le_mono)
  then have qm: "unat (q * m) = unat q * unat m" using assms(2) by (simp add: unat_word_ariths)
  have "unat q * unat m div unat tb \<le> unat q"
    using m i(2) by (metis div_le_mono mult_le_mono2 nonzero_mult_div_cancel_right not_less_zero)
  then have "unat (q * m div tb) * unat ?inc \<le> unat (effective_balance v)"
    using q by (simp add: unat_div qm) (meson le_trans mult_le_mono1)
  then have "q * m div tb * ?inc \<le> effective_balance v"
    by (simp add: word_le_nat_alt unat_word_ariths order_trans [OF mod_less_eq_dividend])
  moreover have "tb \<noteq> 0" using assms(1) by auto
  ultimately show ?thesis
    by (simp add: slashing_penalty_def Let_def div_checked_def m_def q_def)
qed

text \<open>
  Base rewards are always defined: for every validator of the registry \<^verbatim>\<open>base_reward\<close> returns, it
  neither divides by zero nor indexes out of range, as long as the total active balance is not the
  largest 64-bit number.
\<close>

lemma base_reward_defined:
  assumes "registry_ok s" "total_active_balance C s = Ok b" "b \<noteq> - 1" "unat i < length (validators s)"
  shows "\<exists>sq. integer_squareroot b = Ok sq \<and> 0 < sq \<and>
    base_reward C s i = Ok (effective_balance (validators s ! unat i) * base_reward_factor C div sq div 4)"
proof -
  obtain sq where sq: "integer_squareroot b = Ok sq" "unat b < (unat sq + 1)\<^sup>2"
    using integer_squareroot_floor [OF assms(3)] by blast
  have "1 \<le> b" using total_active_balance_Ok [OF assms(1), of C] assms(2) by simp
  then have "sq \<noteq> 0" using sq(2) by (auto simp: word_le_nat_alt)
  then show ?thesis
    using sq(1) assms(2,4)
    by (simp add: base_reward_def vec_index_in_range div_checked_def BASE_REWARDS_PER_EPOCH_def word_gt_0)
qed

section \<open>The activation queue\<close>

lemma initiate_exit_activation [preserves_intros]:
  "preserves (\<lambda>s. map activation_epoch (validators s) = xs) (initiate_validator_exit C i)"
  unfolding initiate_validator_exit_def
  by (rule preserves_eget_bind) (auto simp: exec_simps Let_def map_update list_update_same_conv [THEN iffD2])

lemma eligibility_activation [preserves_intros]:
  "preserves (\<lambda>s. map activation_epoch (validators s) = xs) (registry_eligibility_and_ejection C i)"
  unfolding registry_eligibility_and_ejection_def
  by (rule preserves_eget_bind, rule preserves_eseq_at)
    (auto simp: exec_simps set_validator_def map_update list_update_same_conv [THEN iffD2] intro!: preserves_intros)

text \<open>Activating a list of validators: exactly those of them that had no activation epoch get one.\<close>

definition activated :: "Config \<Rightarrow> ValidatorIndex list \<Rightarrow> BeaconState \<Rightarrow> Validator list" where
  "activated C q s = map (\<lambda>j. let v = validators s ! j in
     if of_nat j \<in> set q \<and> activation_epoch v = FAR_FUTURE_EPOCH
     then v\<lparr>activation_epoch := activation_exit_epoch C (current_epoch C s)\<rparr> else v) [0..<length (validators s)]"

lemma for_each_activate:
  assumes "\<And>i. i \<in> set q \<Longrightarrow> unat i < length (validators s)" "registry_ok s"
    "activation_exit_epoch C (current_epoch C s) \<noteq> FAR_FUTURE_EPOCH"
  shows "for_each q (activate_validator C) s = (Ok (), s\<lparr>validators := activated C q s\<rparr>)"
  using assms
proof (induction q arbitrary: s)
  case Nil
  then show ?case by (simp add: exec_simps activated_def Let_def map_nth)
next
  case (Cons i q)
  let ?v = "validators s ! unat i" and ?a = "activation_exit_epoch C (current_epoch C s)"
  define s1 where "s1 = (if activation_epoch ?v = FAR_FUTURE_EPOCH
    then set_validator (unat i) (\<lambda>v. v\<lparr>activation_epoch := ?a\<rparr>) s else s)"
  have i: "unat i < length (validators s)" using Cons.prems by simp
  have run1: "activate_validator C i s = (Ok (), s1)"
    using i by (simp add: activate_validator_def ebind_eget vec_index_in_range exec_simps s1_def)
  have s1: "length (validators s1) = length (validators s)" "current_epoch C s1 = current_epoch C s"
    "registry_ok s1" "\<And>vs. s1\<lparr>validators := vs\<rparr> = s\<lparr>validators := vs\<rparr>"
    using Cons.prems(2) by (auto simp: s1_def set_validator_def registry_ok_def)
  have "activated C q s1 = activated C (i # q) s"
    unfolding activated_def s1(1,2)
  proof (rule map_cong [OF refl])
    fix j assume "j \<in> set [0..<length (validators s)]"
    then have j: "j < length (validators s)" "unat (of_nat j :: u64) = j" using Cons.prems(2) by simp_all
    then have eq: "of_nat j = i \<longleftrightarrow> j = unat i" by (auto simp: word_unat_eq_iff)
    have "validators s1 ! j = (if j = unat i \<and> activation_epoch ?v = FAR_FUTURE_EPOCH
        then ?v\<lparr>activation_epoch := ?a\<rparr> else validators s ! j)"
      using i by (simp add: s1_def set_validator_def nth_list_update)
    then show "(let v = validators s1 ! j in if of_nat j \<in> set q \<and> activation_epoch v = FAR_FUTURE_EPOCH
         then v\<lparr>activation_epoch := ?a\<rparr> else v) =
       (let v = validators s ! j in if of_nat j \<in> set (i # q) \<and> activation_epoch v = FAR_FUTURE_EPOCH
         then v\<lparr>activation_epoch := ?a\<rparr> else v)"
      using Cons.prems(3) by (auto simp: Let_def eq)
  qed
  moreover have "for_each q (activate_validator C) s1 = (Ok (), s1\<lparr>validators := activated C q s1\<rparr>)"
    using Cons.prems s1 by (intro Cons.IH) simp_all
  ultimately show ?case by (simp add: eseq_run [of "activate_validator C i" s, OF run1] s1(4))
qed

lemma activation_exit_epoch_future:
  assumes "config_ok C" "ce < 2 ^ 62"
  shows "ce < activation_exit_epoch C ce" "activation_exit_epoch C ce \<noteq> FAR_FUTURE_EPOCH"
proof -
  have "unat ce < 2 ^ 62" "unat (max_seed_lookahead C) \<le> 2 ^ 10"
    using assms by (simp_all add: config_ok_def word_le_nat_alt word_less_nat_alt)
  then have "unat (activation_exit_epoch C ce) = unat ce + 1 + unat (max_seed_lookahead C)"
    "unat ce + 1 + unat (max_seed_lookahead C) < 2 ^ 63"
    by (simp_all add: activation_exit_epoch_def unat_word_ariths)
  then show "ce < activation_exit_epoch C ce" "activation_exit_epoch C ce \<noteq> FAR_FUTURE_EPOCH"
    using unat_FAR_FUTURE_EPOCH by (auto simp: word_less_nat_alt word_unat_eq_iff)
qed

lemma length_activated [simp]: "length (activated C q s) = length (validators s)"
  by (simp add: activated_def)

lemma nth_activated:
  "j < length (validators s) \<Longrightarrow> activated C q s ! j =
    (if of_nat j \<in> set q \<and> activation_epoch (validators s ! j) = FAR_FUTURE_EPOCH
     then (validators s ! j)\<lparr>activation_epoch := activation_exit_epoch C (current_epoch C s)\<rparr>
     else validators s ! j)"
  by (simp add: activated_def Let_def)

lemma activated_churn:
  assumes "config_ok C" "current_epoch C s < 2 ^ 62"
  shows "validator_churn_limit C (s\<lparr>validators := activated C q s\<rparr>) = validator_churn_limit C s"
proof -
  let ?ce = "current_epoch C s"
  have "?ce < FAR_FUTURE_EPOCH" using assms(2)
    by (auto simp: less_FAR_FUTURE_EPOCH_iff FAR_FUTURE_EPOCH_def word_less_nat_alt unsigned_minus_1_eq_mask mask_eq_exp_minus_1)
  then have "is_active (activated C q s ! j) ?ce = is_active (validators s ! j) ?ce" if "j < length (validators s)" for j
    using activation_exit_epoch_future(1) [OF assms] that by (auto simp: nth_activated is_active_def)
  then have "filter (\<lambda>j. is_active (activated C q s ! j) ?ce) [0..<length (validators s)] =
      filter (\<lambda>j. is_active (validators s ! j) ?ce) [0..<length (validators s)]"
    by (intro filter_cong) simp_all
  then show ?thesis
    by (simp add: validator_churn_limit_def active_validator_len_def active_validator_indices_alt)
qed

lemma mem_activation_queue:
  assumes "registry_ok s"
  shows "i \<in> set (activation_queue C s) \<longleftrightarrow> unat i < length (validators s) \<and>
    activation_eligibility_epoch (validators s ! unat i) \<noteq> FAR_FUTURE_EPOCH \<and>
    activation_epoch (validators s ! unat i) \<ge> activation_exit_epoch C (epoch (finalized_checkpoint s))"
proof -
  have "enumerate 0 xs = map (\<lambda>i. (i, xs ! i)) [0..<length xs]" for xs :: "Validator list"
    by (rule nth_equalityI) (simp_all add: nth_enumerate_eq)
  then have q: "set (activation_queue C s) = of_nat ` {j. j < length (validators s) \<and>
      activation_eligibility_epoch (validators s ! j) \<noteq> FAR_FUTURE_EPOCH \<and>
      activation_epoch (validators s ! j) \<ge> activation_exit_epoch C (epoch (finalized_checkpoint s))}"
    by (auto simp: activation_queue_def filter_map comp_def)
  have "unat (of_nat j :: u64) = j" if "j < length (validators s)" for j using assms that by simp
  then show ?thesis unfolding q by (auto intro: image_eqI [of _ _ "unat i"])
qed

text \<open>A registry update ends by activating a prefix of the queue of an intermediate state.\<close>

lemma process_registry_updates_shape:
  assumes "config_ok C" "registry_ok s" "current_epoch C s < 2 ^ 62"
    and "process_registry_updates C s = (Ok (), t)"
  obtains s1 m where "t = s1\<lparr>validators := activated C (take m (activation_queue C s1)) s1\<rparr>"
    "m \<le> unat (validator_churn_limit C s1)" "registry_ok s1" "current_epoch C s1 = current_epoch C s"
    "map activation_epoch (validators s1) = map activation_epoch (validators s)"
proof -
  let ?n = "length (validators s)"
  let ?loop = "for_each [0..<?n] (\<lambda>i. registry_eligibility_and_ejection C (of_nat i))"
  obtain s1 m where run1: "?loop s = (Ok (), s1)"
    and m: "m = min (length (activation_queue C s1)) (unat (validator_churn_limit C s1))"
    and run2: "for_each (take m (activation_queue C s1)) (activate_validator C) s1 = (Ok (), t)"
    using assms(4) by (auto simp: process_registry_updates_def exec_ok)
  have "preserves (\<lambda>u. map activation_epoch (validators u) = map activation_epoch (validators s)) ?loop"
    by (intro preserves_intros)
  from preservesD [OF this refl run1]
  have ae: "map activation_epoch (validators s1) = map activation_epoch (validators s)" .
  then have "length (validators s1) = ?n" by (metis length_map)
  then have reg: "registry_ok s1" using assms(2) by (simp add: registry_ok_def)
  have "preserves (\<lambda>u. slot u = slot s) ?loop" by (intro preserves_intros)
  from preservesD [OF this refl run1] have ce: "current_epoch C s1 = current_epoch C s"
    by (simp add: current_epoch_def)
  have "unat i < length (validators s1)" if "i \<in> set (take m (activation_queue C s1))" for i
    using that reg by (auto simp: mem_activation_queue dest: in_set_takeD)
  then have "for_each (take m (activation_queue C s1)) (activate_validator C) s1
      = (Ok (), s1\<lparr>validators := activated C (take m (activation_queue C s1)) s1\<rparr>)"
    using reg activation_exit_epoch_future(2) [OF assms(1,3)] by (intro for_each_activate) (simp_all add: ce)
  then show thesis using run2 m ae reg ce by (intro that [of m s1]) simp_all
qed

lemma activation_queue_order:
  assumes "i \<in> set (take m (activation_queue C s))"
    and "j \<in> set (activation_queue C s)" "j \<notin> set (take m (activation_queue C s))"
  shows "activation_eligibility_epoch (validators s ! unat i) \<le> activation_eligibility_epoch (validators s ! unat j)"
proof -
  let ?Q = "activation_queue C s"
  have "j \<in> set (drop m ?Q)" using assms(2,3) by (metis Un_iff append_take_drop_id set_append)
  moreover have "sorted (map (\<lambda>i. activation_eligibility_epoch (validators s ! unat i)) (take m ?Q @ drop m ?Q))"
    by (simp add: activation_queue_def)
  ultimately show ?thesis using assms(1) unfolding map_append sorted_append by fastforce
qed

text \<open>
  C26: Activations are rationed and fair: one epoch transition gives an activation epoch to at most
  as many validators as the churn limit allows, and a validator that is passed over was not eligible
  before any that was chosen.
\<close>

theorem process_registry_updates_churn:
  assumes "config_ok C" "registry_ok s" "current_epoch C s < 2 ^ 62"
    and "process_registry_updates C s = (Ok (), t)"
  shows "card {i. i < length (validators s) \<and> activation_epoch (validators s ! i) = FAR_FUTURE_EPOCH \<and>
        activation_epoch (validators t ! i) \<noteq> FAR_FUTURE_EPOCH} \<le> unat (validator_churn_limit C t) \<and>
    (\<forall>i<length (validators s). \<forall>j<length (validators s).
       activation_epoch (validators s ! i) = FAR_FUTURE_EPOCH \<and> activation_epoch (validators t ! i) \<noteq> FAR_FUTURE_EPOCH \<and>
       activation_eligibility_epoch (validators t ! j) \<noteq> FAR_FUTURE_EPOCH \<and> activation_epoch (validators t ! j) = FAR_FUTURE_EPOCH \<longrightarrow>
       activation_eligibility_epoch (validators t ! i) \<le> activation_eligibility_epoch (validators t ! j))"
proof (rule process_registry_updates_shape [OF assms])
  fix s1 m
  let ?n = "length (validators s)" and ?Q = "activation_queue C s1"
  define q where "q = take m ?Q"
  assume t0: "t = s1\<lparr>validators := activated C (take m ?Q) s1\<rparr>" and m: "m \<le> unat (validator_churn_limit C s1)"
    and reg: "registry_ok s1" and ce: "current_epoch C s1 = current_epoch C s"
    and ae: "map activation_epoch (validators s1) = map activation_epoch (validators s)"
  have t: "t = s1\<lparr>validators := activated C q s1\<rparr>" using t0 by (simp add: q_def)
  from ae have n: "length (validators s1) = ?n" by (metis length_map)
  have ae': "activation_epoch (validators s1 ! j) = activation_epoch (validators s ! j)" if "j < ?n" for j
    using arg_cong [OF ae, of "\<lambda>xs. xs ! j"] that n by simp
  note fut = activation_exit_epoch_future [OF assms(1,3)]
  have churn: "validator_churn_limit C t = validator_churn_limit C s1"
    unfolding t using assms(1,3) by (intro activated_churn) (simp_all add: ce)
  let ?A = "{i. i < ?n \<and> activation_epoch (validators s ! i) = FAR_FUTURE_EPOCH \<and> activation_epoch (validators t ! i) \<noteq> FAR_FUTURE_EPOCH}"
  have inq: "of_nat i \<in> set q" if "i \<in> ?A" for i
    using that n by (auto simp: t nth_activated ae' split: if_splits)
  have inj: "unat (of_nat i :: u64) = i" if "i < ?n" for i using assms(2) that by simp
  have "?A \<subseteq> unat ` set q" using inq inj by (force simp: image_iff)
  then have "card ?A \<le> card (set q)" by (meson List.finite_set card_image_le card_mono finite_imageI le_trans)
  also have "\<dots> \<le> unat (validator_churn_limit C s1)" by (rule order_trans [OF card_length]) (use m in \<open>simp add: q_def\<close>)
  finally have 1: "card ?A \<le> unat (validator_churn_limit C t)" by (simp add: churn)
  have elig: "activation_eligibility_epoch (validators t ! j) = activation_eligibility_epoch (validators s1 ! j)" if "j < ?n" for j
    using that n by (simp add: t nth_activated)
  have 2: "activation_eligibility_epoch (validators t ! i) \<le> activation_eligibility_epoch (validators t ! j)"
    if i: "i \<in> ?A" and j: "j < ?n" "activation_eligibility_epoch (validators t ! j) \<noteq> FAR_FUTURE_EPOCH"
      "activation_epoch (validators t ! j) = FAR_FUTURE_EPOCH" for i j
  proof -
    have "activation_epoch (validators s1 ! j) = FAR_FUTURE_EPOCH" "of_nat j \<notin> set q"
      using j n fut(2) by (auto simp: t nth_activated ce split: if_splits)
    then have "of_nat j \<in> set ?Q" "of_nat j \<notin> set q"
      using j n elig reg inj by (simp_all add: mem_activation_queue)
    then have "activation_eligibility_epoch (validators s1 ! unat (of_nat i :: u64)) \<le>
        activation_eligibility_epoch (validators s1 ! unat (of_nat j :: u64))"
      using inq [OF i] unfolding q_def by (intro activation_queue_order)
    then show ?thesis using i j elig inj by simp
  qed
  from 1 2 show ?thesis by blast
qed

definition pending_state :: BeaconState where
  "pending_state = sample_state\<lparr>
     validators := validators sample_state @ [sample_validator 4\<lparr>activation_epoch := FAR_FUTURE_EPOCH\<rparr>],
     balances := replicate 4 32000000000\<rparr>"

theorem process_registry_updates_churn_witness:
  "\<exists>t. process_registry_updates (MinimalConfig toy_hashing) pending_state = (Ok (), t) \<and>
     card {i. i < 4 \<and> activation_epoch (validators pending_state ! i) = FAR_FUTURE_EPOCH \<and>
       activation_epoch (validators t ! i) \<noteq> FAR_FUTURE_EPOCH} \<le> unat (validator_churn_limit (MinimalConfig toy_hashing) t) \<and>
     activation_epoch (validators pending_state ! 3) = FAR_FUTURE_EPOCH \<and> activation_epoch (validators t ! 3) = 6"
proof -
  have "fst (process_registry_updates (MinimalConfig toy_hashing) pending_state) = Ok ()" by code_simp
  then obtain t where t: "process_registry_updates (MinimalConfig toy_hashing) pending_state = (Ok (), t)"
    by (metis prod.collapse)
  have "activation_epoch (validators (snd (process_registry_updates (MinimalConfig toy_hashing) pending_state)) ! 3) = 6"
    by code_simp
  then have 6: "activation_epoch (validators t ! 3) = 6" using t by simp
  have s: "length (validators pending_state) = 4" "registry_ok pending_state"
    "current_epoch (MinimalConfig toy_hashing) pending_state = 1"
    "activation_epoch (validators pending_state ! 3) = FAR_FUTURE_EPOCH"
    by (simp_all add: pending_state_def sample_state_def registry_ok_def current_epoch_def epoch_of_slot_def nth_append)
  show ?thesis
    using process_registry_updates_churn [OF _ s(2) _ t] s 6 t by auto
qed

end
