(* ===== verification/Generic_Rewards.thy ===== *)
theory Generic_Rewards
  imports Epoch_Processing
begin

text \<open>
  The computation of rewards against the interface \<^verbatim>\<open>Registry\<close>, \<^verbatim>\<open>beacon/src/components/reward.rs\<close>, and the executive as an
  implementation of that interface (\<^verbatim>\<open>executive/mod.rs\<close>). The epoch transition uses a version of its own, with vectors
  and everything computed once. The main lemma is that both change the balances in the same way.
\<close>

section \<open>The interface\<close>

text \<open>
  \<^verbatim>\<open>Registry\<close> with the methods of its checkpoints, validators and attestations; \<open>'r\<close> is the registry. Balances are
  changed in place.
\<close>

record ('c, 'v, 'a, 'r) Registry =
  reg_total_active_balance :: "'r \<Rightarrow> Gwei result"
  reg_min_inclusion_delay_attestation :: "'r \<Rightarrow> 'c \<Rightarrow> ValidatorIndex \<Rightarrow> 'a option result"
  reg_unslashed_attesting_balance :: "'r \<Rightarrow> 'c \<Rightarrow> Gwei result"
  reg_unslashed_attesting_validators :: "'r \<Rightarrow> 'c \<Rightarrow> (ValidatorIndex \<times> 'v) list result"
  reg_unslashed_attesting_target_balance :: "'r \<Rightarrow> 'c \<Rightarrow> Gwei result"
  reg_unslashed_attesting_target_validators :: "'r \<Rightarrow> 'c \<Rightarrow> (ValidatorIndex \<times> 'v) list result"
  reg_unslashed_attesting_matching_head_balance :: "'r \<Rightarrow> 'c \<Rightarrow> Gwei result"
  reg_unslashed_attesting_matching_head_validators :: "'r \<Rightarrow> 'c \<Rightarrow> (ValidatorIndex \<times> 'v) list result"
  reg_balance :: "'r \<Rightarrow> ValidatorIndex \<Rightarrow> Gwei result"
  reg_effective_balance :: "'r \<Rightarrow> ValidatorIndex \<Rightarrow> Gwei result"
  reg_increase_balance :: "ValidatorIndex \<Rightarrow> Gwei \<Rightarrow> ('r, error, unit) exec"
  reg_decrease_balance :: "ValidatorIndex \<Rightarrow> Gwei \<Rightarrow> ('r, error, unit) exec"
  reg_validators :: "'r \<Rightarrow> (ValidatorIndex \<times> 'v) list result"
  reg_is_eligible :: "'v \<Rightarrow> 'c \<Rightarrow> bool"
  reg_epoch :: "'c \<Rightarrow> Epoch"
  reg_proposer_index :: "'a \<Rightarrow> ValidatorIndex"
  reg_inclusion_delay :: "'a \<Rightarrow> u64"

definition generic_base :: "('c, 'v, 'a, 'r) Registry \<Rightarrow> Config \<Rightarrow> 'r \<Rightarrow> ValidatorIndex \<Rightarrow> Gwei result" where
  "generic_base R C r index =
     rbind (reg_total_active_balance R r) (\<lambda>tb.
     rbind (reg_effective_balance R r index) (\<lambda>effective_balance.
     rbind (integer_squareroot tb) (\<lambda>sq.
     rbind (div_checked (effective_balance * base_reward_factor C) sq) (\<lambda>x.
     Ok (x div BASE_REWARDS_PER_EPOCH)))))"

section \<open>Rewards and penalties\<close>

text \<open>A \<^verbatim>\<open>BTreeMap\<close> as a list in the order of its keys, and \<^verbatim>\<open>*map.entry(k).or_default() += d\<close>.\<close>

type_synonym delta_map = "(ValidatorIndex \<times> Gwei) list"

fun entry_add :: "ValidatorIndex \<Rightarrow> Gwei \<Rightarrow> delta_map \<Rightarrow> delta_map" where
  "entry_add k d [] = [(k, d)]"
| "entry_add k d ((k', x) # m) =
     (if k < k' then (k, d) # (k', x) # m
      else if k = k' then (k', x + d) # m
      else (k', x) # entry_add k d m)"

definition map_reward :: "ValidatorIndex \<Rightarrow> Gwei \<Rightarrow> (delta_map \<times> delta_map, error, unit) exec" where
  "map_reward i d = emod (\<lambda>(rewards, penalties). (entry_add i d rewards, penalties))"

definition map_penalty :: "ValidatorIndex \<Rightarrow> Gwei \<Rightarrow> (delta_map \<times> delta_map, error, unit) exec" where
  "map_penalty i d = emod (\<lambda>(rewards, penalties). (rewards, entry_add i d penalties))"

text \<open>The macro \<^verbatim>\<open>micro_incentives\<close>, with its two methods as arguments.\<close>

definition generic_micro_incentives ::
  "('c, 'v, 'a, 'r) Registry \<Rightarrow> Config \<Rightarrow> 'r \<Rightarrow> 'c \<Rightarrow> Gwei \<Rightarrow> ('r \<Rightarrow> 'c \<Rightarrow> Gwei result) \<Rightarrow>
   ('r \<Rightarrow> 'c \<Rightarrow> (ValidatorIndex \<times> 'v) list result) \<Rightarrow> (delta_map \<times> delta_map, error, unit) exec" where
  "generic_micro_incentives R C r previous_checkpoint tb balance_of validators_of =
     ebind (eget (\<lambda>_. balance_of r previous_checkpoint)) (\<lambda>attesting_balance.
     ebind (eget (\<lambda>_. reg_validators R r)) (\<lambda>vs.
     for_each vs (\<lambda>(index, validator).
       if reg_is_eligible R validator previous_checkpoint then
         ebind (eget (\<lambda>_. validators_of r previous_checkpoint)) (\<lambda>found.
         ebind (eget (\<lambda>_. generic_base R C r index)) (\<lambda>base.
         if list_ex (\<lambda>(i, _). i = index) found
         then ebind (eget (\<lambda>_. div_checked (base * attesting_balance) tb)) (map_reward index)
         else map_penalty index base))
       else eret ())))"

definition generic_inclusion_rewards ::
  "('c, 'v, 'a, 'r) Registry \<Rightarrow> Config \<Rightarrow> 'r \<Rightarrow> 'c \<Rightarrow> (delta_map \<times> delta_map, error, unit) exec" where
  "generic_inclusion_rewards R C r previous_checkpoint =
     ebind (eget (\<lambda>_. reg_unslashed_attesting_validators R r previous_checkpoint)) (\<lambda>vs.
     for_each vs (\<lambda>(index, _).
       ebind (eget (\<lambda>_. reg_min_inclusion_delay_attestation R r previous_checkpoint index)) (\<lambda>attestation.
       case attestation of
         None \<Rightarrow> eret ()
       | Some a \<Rightarrow>
           ebind (eget (\<lambda>_. generic_base R C r index)) (\<lambda>base.
           let proposer_reward = base div proposer_reward_quotient C in
           eseq (map_reward (reg_proposer_index R a) proposer_reward) (
           ebind (eget (\<lambda>_. generic_base R C r index)) (\<lambda>base.
           let max_attester_reward = base - proposer_reward in
           ebind (eget (\<lambda>_. div_checked max_attester_reward (reg_inclusion_delay R a))) (map_reward index)))))))"

definition generic_inactivity_penalties ::
  "('c, 'v, 'a, 'r) Registry \<Rightarrow> Config \<Rightarrow> 'r \<Rightarrow> 'c \<Rightarrow> 'c \<Rightarrow> (delta_map \<times> delta_map, error, unit) exec" where
  "generic_inactivity_penalties R C r previous_checkpoint finalized =
     (let finality_delay = reg_epoch R previous_checkpoint - reg_epoch R finalized in
      if finality_delay > min_epochs_to_inactivity_penalty C then
        ebind (eget (\<lambda>_. reg_validators R r)) (\<lambda>vs.
        for_each vs (\<lambda>(index, validator).
          if reg_is_eligible R validator previous_checkpoint then
            ebind (eget (\<lambda>_. generic_base R C r index)) (\<lambda>base.
            eseq (map_penalty index (base * BASE_REWARDS_PER_EPOCH)) (
            ebind (eget (\<lambda>_. reg_unslashed_attesting_target_validators R r previous_checkpoint)) (\<lambda>found.
            if \<not> list_ex (\<lambda>(i, _). i = index) found then
              ebind (eget (\<lambda>_. reg_effective_balance R r index)) (\<lambda>b.
              map_penalty index (b * finality_delay div inactivity_penalty_quotient C))
            else eret ())))
          else eret ()))
      else eret ())"

definition generic_deltas ::
  "('c, 'v, 'a, 'r) Registry \<Rightarrow> Config \<Rightarrow> 'c \<Rightarrow> 'c \<Rightarrow> 'r \<Rightarrow> (delta_map \<times> delta_map) result" where
  "generic_deltas R C previous_checkpoint finalized r =
     rbind (reg_total_active_balance R r) (\<lambda>tb.
     run_local
       (eseq (generic_micro_incentives R C r previous_checkpoint tb
          (reg_unslashed_attesting_balance R) (reg_unslashed_attesting_validators R))
       (eseq (generic_micro_incentives R C r previous_checkpoint tb
          (reg_unslashed_attesting_target_balance R) (reg_unslashed_attesting_target_validators R))
       (eseq (generic_micro_incentives R C r previous_checkpoint tb
          (reg_unslashed_attesting_matching_head_balance R) (reg_unslashed_attesting_matching_head_validators R))
       (eseq (generic_inclusion_rewards R C r previous_checkpoint)
         (generic_inactivity_penalties R C r previous_checkpoint finalized)))))
       ([], []))"

definition generic_process :: "('c, 'v, 'a, 'r) Registry \<Rightarrow> Config \<Rightarrow> 'c \<Rightarrow> 'c \<Rightarrow> ('r, error, unit) exec" where
  "generic_process R C previous_checkpoint finalized =
     ebind (eget (generic_deltas R C previous_checkpoint finalized)) (\<lambda>(rewards, penalties).
     eseq (for_each rewards (\<lambda>(index, delta). reg_increase_balance R index delta))
       (for_each penalties (\<lambda>(index, delta). reg_decrease_balance R index delta)))"

section \<open>The executive as a registry\<close>

definition executive_full_registry :: "Config \<Rightarrow> (Checkpoint, Validator, PendingAttestation, BeaconState) Registry" where
  "executive_full_registry C = \<lparr>
     reg_total_active_balance = total_active_balance C,
     reg_min_inclusion_delay_attestation = min_inclusion_delay_attestation C,
     reg_unslashed_attesting_balance = unslashed_balance matching_source_attestations C,
     reg_unslashed_attesting_validators = unslashed_validators matching_source_attestations C,
     reg_unslashed_attesting_target_balance = unslashed_balance matching_target_attestations C,
     reg_unslashed_attesting_target_validators = unslashed_validators matching_target_attestations C,
     reg_unslashed_attesting_matching_head_balance = unslashed_balance matching_head_attestations C,
     reg_unslashed_attesting_matching_head_validators = unslashed_validators matching_head_attestations C,
     reg_balance = registry_balance,
     reg_effective_balance = registry_effective_balance,
     reg_increase_balance = increase_balance,
     reg_decrease_balance = decrease_balance,
     reg_validators = (\<lambda>s. Ok (map (\<lambda>(i, v). (of_nat i, v)) (enumerate 0 (validators s)))),
     reg_is_eligible = is_eligible,
     reg_epoch = epoch,
     reg_proposer_index = pa_proposer_index,
     reg_inclusion_delay = inclusion_delay\<rparr>"

section \<open>Maps and vectors of deltas\<close>

text \<open>The delta of a validator in a map, and when a map and a vector hold the same deltas.\<close>

fun delta_at :: "delta_map \<Rightarrow> nat \<Rightarrow> Gwei" where
  "delta_at [] i = 0"
| "delta_at ((k, x) # m) i = (if unat k = i then x else delta_at m i)"

definition same_deltas :: "nat \<Rightarrow> delta_map \<Rightarrow> Gwei list \<Rightarrow> bool" where
  "same_deltas n m r \<longleftrightarrow> length r = n \<and> sorted_wrt (<) (map fst m) \<and> (\<forall>k\<in>set (map fst m). unat k < n) \<and>
     (\<forall>i<n. r ! i = delta_at m i)"

lemma delta_at_absent: "i \<notin> unat ` set (map fst m) \<Longrightarrow> delta_at m i = 0"
  by (induction m i rule: delta_at.induct) auto

lemma entry_add_keys: "set (map fst (entry_add k d m)) = insert k (set (map fst m))"
  by (induction k d m rule: entry_add.induct) auto

lemma entry_add_sorted: "sorted_wrt (<) (map fst m) \<Longrightarrow> sorted_wrt (<) (map fst (entry_add k d m))"
proof (induction k d m rule: entry_add.induct)
  case (2 k d k' x m)
  then show ?case using entry_add_keys [of k d m] by (auto simp: not_less)
qed simp

lemma delta_at_entry_add:
  "sorted_wrt (<) (map fst m) \<Longrightarrow> delta_at (entry_add k d m) i = (if unat k = i then delta_at m i + d else delta_at m i)"
proof (induction k d m rule: entry_add.induct)
  case (2 k d k' x m)
  have "delta_at ((k', x) # m) (unat k) = 0" if "k < k'"
    using 2(2) that by (intro delta_at_absent) (auto simp flip: word_unat_eq_iff)
  then show ?case using 2 by (auto simp flip: word_unat_eq_iff)
qed simp

lemma same_deltas_empty: "same_deltas n [] (replicate n 0)"
  by (simp add: same_deltas_def)

lemma same_deltas_add:
  "same_deltas n m r \<Longrightarrow> unat k < length r \<Longrightarrow> same_deltas n (entry_add k d m) (r[unat k := r ! unat k + d])"
  unfolding same_deltas_def by (auto simp: entry_add_sorted delta_at_entry_add nth_list_update entry_add_keys simp del: set_map)

text \<open>A step on vectors is followed by a step on maps.\<close>

definition delta_sim :: "nat \<Rightarrow> (delta_map \<times> delta_map, error, unit) exec \<Rightarrow> (deltas, error, unit) exec \<Rightarrow> bool" where
  "delta_sim n e e' \<longleftrightarrow> (\<forall>m p r q r' q'. same_deltas n m r \<longrightarrow> same_deltas n p q \<longrightarrow> e' (r, q) = (Ok (), (r', q')) \<longrightarrow>
     (\<exists>m' p'. e (m, p) = (Ok (), (m', p')) \<and> same_deltas n m' r' \<and> same_deltas n p' q'))"

named_theorems delta_sims

lemma delta_sim_reward [delta_sims]: "delta_sim n (map_reward i d) (add_reward i d)"
  by (auto simp: delta_sim_def map_reward_def add_reward_def exec_ok exec_simps same_deltas_add)

lemma delta_sim_penalty [delta_sims]: "delta_sim n (map_penalty i d) (add_penalty i d)"
  by (auto simp: delta_sim_def map_penalty_def add_penalty_def exec_ok exec_simps same_deltas_add)

lemma delta_sim_ret [delta_sims]: "delta_sim n (eret ()) (eret ())"
  by (auto simp: delta_sim_def exec_simps)

lemma delta_sim_seq [delta_sims]: "delta_sim n e e' \<Longrightarrow> delta_sim n f f' \<Longrightarrow> delta_sim n (eseq e f) (eseq e' f')"
  unfolding delta_sim_def eseq_eq_Ok split_paired_Ex by meson

lemma delta_sim_each [delta_sims]:
  "(\<And>x. x \<in> set xs \<Longrightarrow> delta_sim n (f x) (g x)) \<Longrightarrow> delta_sim n (for_each xs f) (for_each xs g)"
  by (induction xs) (simp_all add: delta_sims)

lemma delta_sim_if [delta_sims]:
  "(P \<Longrightarrow> delta_sim n e e') \<Longrightarrow> (\<not> P \<Longrightarrow> delta_sim n f f') \<Longrightarrow>
   delta_sim n (if P then e else f) (if P then e' else f')"
  by simp

lemma delta_sim_read:
  "(\<And>v. x = Ok v \<Longrightarrow> delta_sim n e (g v)) \<Longrightarrow> delta_sim n e (ebind (eget (\<lambda>_. x)) g)"
  by (auto simp: delta_sim_def exec_ok eget_def)

lemma delta_sim_read_left:
  "x = Ok v \<Longrightarrow> delta_sim n (f v) e \<Longrightarrow> delta_sim n (ebind (eget (\<lambda>_. x)) f) e"
  by (simp add: delta_sim_def ebind_eget)

lemma delta_sim_read_both:
  "(\<And>v. x = Ok v \<Longrightarrow> y = Ok v) \<Longrightarrow> (\<And>v. x = Ok v \<Longrightarrow> delta_sim n (f v) (g v)) \<Longrightarrow>
   delta_sim n (ebind (eget (\<lambda>_. y)) f) (ebind (eget (\<lambda>_. x)) g)"
  by (intro delta_sim_read) (simp add: delta_sim_read_left)

lemma read_Ok: "x = Ok v \<Longrightarrow> ebind (eget (\<lambda>_. x)) f = f v"
  by (rule ext) (simp add: ebind_eget)

section \<open>The computation of the epoch transition follows the generic one\<close>

lemma registry_sel:
  "reg_total_active_balance (executive_full_registry C) = total_active_balance C"
  "reg_min_inclusion_delay_attestation (executive_full_registry C) = min_inclusion_delay_attestation C"
  "reg_unslashed_attesting_balance (executive_full_registry C) = unslashed_balance matching_source_attestations C"
  "reg_unslashed_attesting_validators (executive_full_registry C) = unslashed_validators matching_source_attestations C"
  "reg_unslashed_attesting_target_balance (executive_full_registry C) = unslashed_balance matching_target_attestations C"
  "reg_unslashed_attesting_target_validators (executive_full_registry C) = unslashed_validators matching_target_attestations C"
  "reg_unslashed_attesting_matching_head_balance (executive_full_registry C) = unslashed_balance matching_head_attestations C"
  "reg_unslashed_attesting_matching_head_validators (executive_full_registry C) = unslashed_validators matching_head_attestations C"
  "reg_effective_balance (executive_full_registry C) = registry_effective_balance"
  "reg_increase_balance (executive_full_registry C) = increase_balance"
  "reg_decrease_balance (executive_full_registry C) = decrease_balance"
  "reg_validators (executive_full_registry C) s = Ok (map (\<lambda>(i, v). (of_nat i, v)) (enumerate 0 (validators s)))"
  "reg_is_eligible (executive_full_registry C) = is_eligible"
  "reg_epoch (executive_full_registry C) = epoch"
  "reg_proposer_index (executive_full_registry C) = pa_proposer_index"
  "reg_inclusion_delay (executive_full_registry C) = inclusion_delay"
  by (simp_all add: executive_full_registry_def)

lemma generic_base_executive:
  "base_reward C s i = Ok b \<Longrightarrow> generic_base (executive_full_registry C) C s i = Ok b"
  by (auto simp: generic_base_def base_reward_def registry_sel registry_effective_balance_def rbind_eq_Ok)

lemma unslashed_indices_bounded:
  assumes "unslashed_attesting_indices C s as = Ok js" "i \<in> set js"
  shows "unat i < length (validators s)"
proof -
  obtain ret marked where marked: "(collect_res (\<lambda>i. rbind (vec_index (validators s) i) (\<lambda>v. Ok (i, \<not> slashed v))) ret :: _ result) = Ok marked"
    and "js = sort (map fst (filter snd marked))"
    using assms(1) by (auto simp: unslashed_attesting_indices_def rbind_eq_Ok Let_def)
  then obtain y where y: "y \<in> set marked" "i = fst y" using assms(2) by auto
  obtain x where "(rbind (vec_index (validators s) x) (\<lambda>v. Ok (x, \<not> slashed v)) :: _ result) = Ok y"
    using collect_res_member [OF marked y(1)] by blast
  then show ?thesis using y(2) by (auto simp: rbind_eq_Ok)
qed

lemma unslashed_validators_executive:
  assumes "matching C s (epoch c) = Ok as" "unslashed_attesting_indices C s as = Ok js"
  shows "unslashed_validators matching C s c = Ok (map (\<lambda>i. (i, validators s ! unat i)) js)"
  using assms unslashed_indices_bounded [OF assms(2)]
  by (auto simp: unslashed_validators_def vec_index_in_range intro!: collect_res_all_Ok)

lemma eligible_loop:
  assumes "epoch c = previous_epoch C s"
  shows "for_each (eligible_validator_indices C s) f =
    for_each (enumerate 0 (validators s)) (\<lambda>(i, v). if is_eligible v c then f (of_nat i) else eret ())"
  unfolding eligible_validator_indices_def for_each_map for_each_filter is_eligible_def assms
  by (rule arg_cong [where f = "for_each _"]) (auto simp: fun_eq_iff)

lemma list_ex_index: "list_ex (\<lambda>(i, _). i = k) (map (\<lambda>i. (i, f i)) js) \<longleftrightarrow> k \<in> set js"
  by (auto simp: list_ex_iff)

lemma micro_incentives_sim:
  assumes "epoch c = previous_epoch C s" "matching C s (epoch c) = Ok as"
  shows "delta_sim n (generic_micro_incentives (executive_full_registry C) C s c tb
      (unslashed_balance matching C) (unslashed_validators matching C)) (micro_incentives C s tb as)"
  unfolding micro_incentives_def
proof (intro delta_sim_read, goal_cases)
  case (1 js b)
  have balance: "unslashed_balance matching C s c = Ok b" using 1 assms by (simp add: unslashed_balance_def)
  note found = unslashed_validators_executive [where matching = matching and c = c, OF assms(2) 1(1)]
  show ?case
    unfolding generic_micro_incentives_def balance found registry_sel read_Ok [OF refl] list_ex_index
      for_each_map eligible_loop [OF assms(1)] split_beta fst_conv snd_conv
    by (intro delta_sim_each delta_sim_if delta_sim_ret delta_sim_read_both delta_sim_reward delta_sim_penalty generic_base_executive) 
qed

lemma inclusion_rewards_sim:
  assumes "matching_source_attestations C s (epoch c) = Ok as"
  shows "delta_sim n (generic_inclusion_rewards (executive_full_registry C) C s c) (inclusion_rewards C s as)"
  unfolding inclusion_rewards_def
proof (intro delta_sim_read, goal_cases)
  case (1 js)
  note found = unslashed_validators_executive [where matching = matching_source_attestations and c = c, OF assms 1]
  have attestation: "delta_sim n
      (ebind (eget (\<lambda>_. min_inclusion_delay_attestation C s c i)) (\<lambda>attestation.
       case attestation of None \<Rightarrow> eret () | Some a \<Rightarrow> f a)) (ebind (eget (\<lambda>_. min_inclusion_delay C s as i)) g)"
    if "\<And>a. delta_sim n (f a) (g a)" for f g i
    using that assms by (intro delta_sim_read delta_sim_read_left) (auto simp: min_inclusion_delay_attestation_def)
  show ?case
    unfolding generic_inclusion_rewards_def found registry_sel read_Ok [OF refl] for_each_map split_beta fst_conv Let_def
    by (intro delta_sim_each) (rule attestation delta_sim_read_both delta_sim_seq delta_sim_read_left delta_sim_reward | assumption | erule generic_base_executive)+
qed

lemma effective_balance_penalty_sim:
  "delta_sim n (ebind (eget (\<lambda>_. registry_effective_balance s i)) (\<lambda>b. map_penalty i (h b)))
     (ebind (eget (\<lambda>_. vec_index (validators s) i)) (\<lambda>v. add_penalty i (h (effective_balance v))))"
  by (intro delta_sim_read) (simp add: registry_effective_balance_def read_Ok delta_sims)

lemma inactivity_penalties_sim:
  assumes "epoch c = previous_epoch C s" "matching_target_attestations C s (epoch c) = Ok as"
  shows "delta_sim n (generic_inactivity_penalties (executive_full_registry C) C s c (finalized_checkpoint s))
    (inactivity_penalties C s as)"
proof -
  have read: "delta_sim n (ebind (eget (\<lambda>_. reg_validators (executive_full_registry C) s)) f)
      (ebind (eget (\<lambda>_. unslashed_attesting_indices C s as)) g)"
    if "\<And>js. unslashed_validators matching_target_attestations C s c = Ok (map (\<lambda>i. (i, validators s ! unat i)) js) \<Longrightarrow>
      delta_sim n (f (map (\<lambda>(i, v). (of_nat i, v)) (enumerate 0 (validators s)))) (g js)" for f g
    using that unslashed_validators_executive [where matching = matching_target_attestations and c = c, OF assms(2)]
    by (intro delta_sim_read) (simp add: registry_sel read_Ok)
  show ?thesis
    unfolding inactivity_penalties_def generic_inactivity_penalties_def Let_def
  proof (simp only: registry_sel assms(1), intro delta_sim_if delta_sim_ret read [unfolded registry_sel], goal_cases)
    case (1 js)
    then show ?case
      unfolding for_each_map eligible_loop [OF assms(1)] split_beta fst_conv snd_conv read_Ok [OF 1(2)] list_ex_index [unfolded split_beta]
        mult.commute [of BASE_REWARDS_PER_EPOCH]
      by (intro delta_sim_each delta_sim_if delta_sim_ret) 
        (rule effective_balance_penalty_sim delta_sim_read_both delta_sim_seq delta_sim_if delta_sim_penalty delta_sim_ret | assumption | erule generic_base_executive)+
  qed
qed

lemma delta_simD:
  "delta_sim n e e' \<Longrightarrow> e' (replicate n 0, replicate n 0) = (Ok (), (r, q)) \<Longrightarrow>
   \<exists>m p. e ([], []) = (Ok (), (m, p)) \<and> same_deltas n m r \<and> same_deltas n p q"
  using same_deltas_empty [of n] unfolding delta_sim_def by blast

lemma generic_deltas_executive:
  assumes "attestation_deltas C s = Ok (r, q)" "epoch c = previous_epoch C s"
  shows "\<exists>m p. generic_deltas (executive_full_registry C) C c (finalized_checkpoint s) s = Ok (m, p) \<and>
    same_deltas (length (validators s)) m r \<and> same_deltas (length (validators s)) p q"
proof -
  let ?n = "length (validators s)"
  obtain tb source_as target_as head_as where reads: "total_active_balance C s = Ok tb"
    "matching_source_attestations C s (epoch c) = Ok source_as"
    "matching_target_attestations C s (epoch c) = Ok target_as"
    "matching_head_attestations C s (epoch c) = Ok head_as"
    and run: "eseq (micro_incentives C s tb source_as) (eseq (micro_incentives C s tb target_as)
        (eseq (micro_incentives C s tb head_as)
        (eseq (inclusion_rewards C s source_as) (inactivity_penalties C s target_as))))
        (replicate ?n 0, replicate ?n 0) = (Ok (), (r, q))"
    using assms by (auto simp: attestation_deltas_def rbind_eq_Ok run_local_Ok eseq_assoc eseq_ret)
  note micro = micro_incentives_sim [where n = ?n and tb = tb, OF assms(2)]
  note sim = delta_sim_seq [OF micro [where matching = matching_source_attestations, OF reads(2)]
      delta_sim_seq [OF micro [where matching = matching_target_attestations, OF reads(3)]
      delta_sim_seq [OF micro [where matching = matching_head_attestations, OF reads(4)]
      delta_sim_seq [OF inclusion_rewards_sim [OF reads(2)] inactivity_penalties_sim [OF assms(2) reads(3)]]]]]
  show ?thesis
    using delta_simD [OF sim run] reads(1) by (auto simp: generic_deltas_def registry_sel run_local_Ok)
qed

section \<open>Applying the deltas\<close>

definition balance_step :: "(Gwei \<Rightarrow> Gwei \<Rightarrow> Gwei) \<Rightarrow> ValidatorIndex \<Rightarrow> Gwei \<Rightarrow> unit executive" where
  "balance_step f i d =
     ebind (eget (\<lambda>s. vec_index (balances s) i)) (\<lambda>b. emod (\<lambda>s. s\<lparr>balances := (balances s)[unat i := f b d]\<rparr>))"

lemma balance_steps: "increase_balance = balance_step (+)" "decrease_balance = balance_step saturating_sub"
  by (simp_all add: fun_eq_iff increase_balance_def decrease_balance_def balance_step_def)

lemma balance_step_run:
  "unat i < length (balances s) \<Longrightarrow> balance_step f i d s = (Ok (), s\<lparr>balances := (balances s)[unat i := f (balances s ! unat i) d]\<rparr>)"
  by (simp add: balance_step_def ebind_eget vec_index_in_range emod_def)

lemma apply_map:
  assumes "\<And>b. f b 0 = b" "distinct (map fst m)" "\<forall>k\<in>set (map fst m). unat k < length (balances s)"
  shows "for_each m (\<lambda>(i, d). balance_step f i d) s =
    (Ok (), s\<lparr>balances := map (\<lambda>i. f (balances s ! i) (delta_at m i)) [0..<length (balances s)]\<rparr>)"
  using assms(2,3)
proof (induction m arbitrary: s)
  case Nil
  then show ?case by (simp add: eret_def assms(1) map_nth)
next
  case (Cons e m)
  obtain k d where e: "e = (k, d)" by force
  have "delta_at m (unat k) = 0"
    using Cons.prems(1) by (intro delta_at_absent) (force simp: e simp flip: word_unat_eq_iff)
  then show ?case
    using Cons by (auto simp: e eseq_run [OF balance_step_run] nth_list_update assms(1))
qed

lemma apply_vectors:
  assumes "n \<le> length (balances s)" "n \<le> length r" "n \<le> length q" "n \<le> 2 ^ 64"
  shows "for_each [0..<n] (\<lambda>i.
      ebind (eget (\<lambda>_. vec_index r (of_nat i))) (\<lambda>d.
      eseq (balance_step f (of_nat i) d) (
      ebind (eget (\<lambda>_. vec_index q (of_nat i))) (\<lambda>d. balance_step g (of_nat i) d)))) s =
    (Ok (), s\<lparr>balances := map (\<lambda>i. g (f (balances s ! i) (r ! i)) (q ! i)) [0..<n] @ drop n (balances s)\<rparr>)"
  using assms
proof (induction n)
  case 0
  then show ?case by (simp add: eret_def)
next
  case (Suc n)
  have "unat (of_nat n :: u64) = n" using Suc.prems by (intro unat_of_nat_u64) simp
  then show ?case
    using Suc by (simp add: for_each_append eseq_run ebind_eget vec_index_in_range balance_step_run eseq_ret nth_append
      list_update_append Cons_nth_drop_Suc [symmetric])
qed

section \<open>Properties\<close>

lemma same_deltas_lookup: "same_deltas n m r \<Longrightarrow> i < n \<Longrightarrow> delta_at m i = r ! i"
  by (simp add: same_deltas_def)

lemma apply_same_deltas:
  assumes "same_deltas n m r" "length (balances s) = n" "\<And>b. f b 0 = b"
  shows "for_each m (\<lambda>(i, d). balance_step f i d) s =
    (Ok (), s\<lparr>balances := map (\<lambda>i. f (balances s ! i) (r ! i)) [0..<n]\<rparr>)"
proof -
  have "distinct (map fst m)" using assms(1) by (auto simp: same_deltas_def strict_sorted_iff)
  then show ?thesis
    using apply_map [of f m s] assms by (simp add: same_deltas_def)
qed

text \<open>
  C28: The generic computation of rewards, run on the executive, does what the epoch transition does: wherever the rewards
  and penalties of the epoch transition are applied, the generic \<^verbatim>\<open>process\<close> for the previous epoch returns with the same
  state. One applies all rewards and then all penalties, from maps over the validators it has met; the other
  applies reward and penalty per validator, from vectors over the whole registry.
\<close>

theorem generic_rewards_equal:
  assumes "process_rewards_and_penalties C s = (Ok (), t)" "current_epoch C s \<noteq> genesis_epoch C"
    and "epoch c = previous_epoch C s" "length (balances s) = length (validators s)" "length (validators s) \<le> 2 ^ 64"
  shows "generic_process (executive_full_registry C) C c (finalized_checkpoint s) s = (Ok (), t)"
proof -
  let ?n = "length (validators s)"
  obtain r q where deltas: "attestation_deltas C s = Ok (r, q)"
    using assms(1,2) by (auto simp: process_rewards_and_penalties_def ebind_eget split: res.splits)
  then obtain m p where generic: "generic_deltas (executive_full_registry C) C c (finalized_checkpoint s) s = Ok (m, p)"
    and same: "same_deltas ?n m r" "same_deltas ?n p q"
    using generic_deltas_executive assms(3) by blast
  have len: "length r = ?n" "length q = ?n" using same by (simp_all add: same_deltas_def)
  have "t = s\<lparr>balances := map (\<lambda>i. saturating_sub (balances s ! i + r ! i) (q ! i)) [0..<?n]\<rparr>"
    using assms(1,2,4,5) deltas len
    by (simp add: process_rewards_and_penalties_def ebind_eget balance_steps apply_vectors)
  moreover have "saturating_sub b 0 = b" for b :: Gwei by (simp add: saturating_sub_def)
  ultimately show ?thesis
    using generic assms(4) apply_same_deltas [OF same(1), of s "(+)"]
    by (simp add: generic_process_def ebind_eget registry_sel balance_steps eseq_run apply_same_deltas [OF same(2)])
qed

text \<open>The first of three validators has attested slot 2, with the source, target and head of the chain.\<close>

definition attested_state :: BeaconState where
  "attested_state = sample_state\<lparr>previous_epoch_attestations := [\<lparr>
     pa_aggregation_bits = [True],
     pa_data = \<lparr>ad_slot = 2, ad_index = 0, beacon_block_root = H256_default,
       source = \<lparr>epoch = 0, root = H256_default\<rparr>, target = \<lparr>epoch = 0, root = H256_default\<rparr>\<rparr>,
     inclusion_delay = 1,
     pa_proposer_index = 1\<rparr>]\<rparr>"

theorem generic_rewards_equal_witness:
  "\<exists>t. process_rewards_and_penalties (MinimalConfig toy_hashing) attested_state = (Ok (), t) \<and>
     generic_process (executive_full_registry (MinimalConfig toy_hashing)) (MinimalConfig toy_hashing)
       \<lparr>epoch = 0, root = H256_default\<rparr> (finalized_checkpoint attested_state) attested_state = (Ok (), t)"
proof -
  have "fst (process_rewards_and_penalties (MinimalConfig toy_hashing) attested_state) = Ok ()" by code_simp
  then obtain t where t: "process_rewards_and_penalties (MinimalConfig toy_hashing) attested_state = (Ok (), t)"
    by (cases "process_rewards_and_penalties (MinimalConfig toy_hashing) attested_state") auto
  have "current_epoch (MinimalConfig toy_hashing) attested_state \<noteq> genesis_epoch (MinimalConfig toy_hashing)"
    "previous_epoch (MinimalConfig toy_hashing) attested_state = 0" by code_simp+
  moreover have "length (balances attested_state) = 3" "length (validators attested_state) = 3"
    by (simp_all add: attested_state_def sample_state_def)
  ultimately show ?thesis using generic_rewards_equal [OF t, of "\<lparr>epoch = 0, root = H256_default\<rparr>"] t by simp
qed

end
