(* ===== verification/Block_Processing.thy ===== *)
theory Block_Processing
  imports Epoch_Processing
begin

text \<open>
  The block transition, \<^verbatim>\<open>executive/transition/per_block/\<close>: the header, the randomness, the eth1 vote
  and the five kinds of operations, composed as in \<^verbatim>\<open>process_block\<close>. Every check of the code is an
  \<open>ensure\<close> at its place in the sequence, so the state a failed method leaves behind is the one
  the code leaves behind.
\<close>

section \<open>Header, randomness and eth1 vote\<close>

definition process_block_header :: "Config \<Rightarrow> BLSConfig \<Rightarrow> Block \<Rightarrow> unit executive" where
  "process_block_header C BLS block =
     eseq (ensure (\<lambda>s. block_slot block = slot s) BlockSlotInvalid) (
     eseq (ensure (\<lambda>s. block_parent_root block =
         root_signing_header (hashing C) (signing_header (latest_block_header s))) BlockPreviousRootInvalid) (
     eseq (emod (\<lambda>s. s\<lparr>latest_block_header := BeaconBlockHeader_default\<lparr>
         bh_slot := block_slot block,
         bh_parent_root := block_parent_root block,
         bh_body_root := root_body (hashing C) (block_body block)\<rparr>\<rparr>)) (
     ebind (eget (beacon_proposer_index C)) (\<lambda>i.
     ebind (eget (\<lambda>s. vec_index (validators s) i)) (\<lambda>proposer.
     eseq (ensure (\<lambda>_. \<not> slashed proposer) BlockProposerSlashed) (
     case block_signature block of
       Some signature \<Rightarrow>
         ensure (\<lambda>s. verify BLS (pubkey proposer)
             (root_unsealed_block (hashing C) (unsealed_from block)) signature
             (domain C s domain_beacon_proposer None)) BlockSignatureInvalid
     | None \<Rightarrow> eret ()))))))"

definition xor_bytes :: "bytes \<Rightarrow> bytes \<Rightarrow> bytes" where
  "xor_bytes a b = map2 xor a b"

definition process_randao :: "Config \<Rightarrow> BLSConfig \<Rightarrow> BeaconBlockBody \<Rightarrow> unit executive" where
  "process_randao C BLS body =
     ebind (eget (beacon_proposer_index C)) (\<lambda>i.
     ebind (eget (\<lambda>s. vec_index (validators s) i)) (\<lambda>proposer.
     eseq (ensure (\<lambda>s. verify BLS (pubkey proposer)
         (root_u64 (hashing C) (current_epoch C s)) (randao_reveal body)
         (domain C s domain_randao None)) RandaoSignatureInvalid) (
     emod (\<lambda>s. let ce = current_epoch C s in
       s\<lparr>randao_mixes := (randao_mixes s)[unat (ce mod epochs_per_historical_vector C) :=
         xor_bytes (randao_mix C s ce) (hash C [randao_reveal body])]\<rparr>))))"

definition process_eth1_data :: "Config \<Rightarrow> BeaconBlockBody \<Rightarrow> unit executive" where
  "process_eth1_data C body =
     eseq (emod (\<lambda>s. s\<lparr>eth1_data_votes := eth1_data_votes s @ [body_eth1_data body]\<rparr>)) (
     emod (\<lambda>s.
       if length (filter (\<lambda>d. d = body_eth1_data body) (eth1_data_votes s)) * 2
          > unat (slots_per_eth1_voting_period C)
       then s\<lparr>eth1_data := body_eth1_data body\<rparr> else s))"

section \<open>Operations\<close>

definition verify_proposer_header ::
    "Config \<Rightarrow> BLSConfig \<Rightarrow> Validator \<Rightarrow> BeaconBlockHeader \<Rightarrow> unit executive" where
  "verify_proposer_header C BLS proposer header =
     ensure (\<lambda>s. verify BLS (pubkey proposer)
         (root_signing_header (hashing C) (signing_header header)) (bh_signature header)
         (domain C s domain_beacon_proposer (Some (epoch_of_slot C (bh_slot header)))))
       ProposerSlashingInvalidSignature"

definition process_proposer_slashing :: "Config \<Rightarrow> BLSConfig \<Rightarrow> ProposerSlashing \<Rightarrow> unit executive" where
  "process_proposer_slashing C BLS ps =
     eseq (ensure (\<lambda>_. bh_slot (header_1 ps) = bh_slot (header_2 ps)) ProposerSlashingInvalidSlot) (
     eseq (ensure (\<lambda>_. header_1 ps \<noteq> header_2 ps) ProposerSlashingSameHeader) (
     eseq (ensure (\<lambda>s. unat (ps_proposer_index ps) < length (validators s)) ProposerSlashingInvalidProposerIndex) (
     ebind (eget (\<lambda>s. vec_index (validators s) (ps_proposer_index ps))) (\<lambda>proposer.
     eseq (ensure (\<lambda>s. is_slashable_validator proposer (current_epoch C s)) ProposerSlashingAlreadySlashed) (
     eseq (for_each [header_1 ps, header_2 ps] (verify_proposer_header C BLS proposer))
       (slash_validator C (ps_proposer_index ps) None))))))"

text \<open>The loop over the indices of both attestations, with the local flag \<^verbatim>\<open>slashed_any\<close>.\<close>

fun slash_attesters :: "Config \<Rightarrow> ValidatorIndex list \<Rightarrow> bool \<Rightarrow> bool executive" where
  "slash_attesters C [] slashed_any = eret slashed_any"
| "slash_attesters C (i # is) slashed_any =
     ebind (eget (\<lambda>s. vec_index (validators s) i)) (\<lambda>v.
     ebind (eget (\<lambda>s. Ok (is_slashable_validator v (current_epoch C s)))) (\<lambda>b.
     if b then eseq (slash_validator C i None) (slash_attesters C is True)
     else slash_attesters C is slashed_any))"

definition attester_indices :: "IndexedAttestation \<Rightarrow> ValidatorIndex list" where
  "attester_indices ia = custody_bit_0_indices ia @ custody_bit_1_indices ia"

definition process_attester_slashing :: "Config \<Rightarrow> BLSConfig \<Rightarrow> AttesterSlashing \<Rightarrow> unit executive" where
  "process_attester_slashing C BLS asl =
     (let a1 = attestation_1 asl; a2 = attestation_2 asl in
      eseq (ensure (\<lambda>_. is_slashable (ia_data a1) (ia_data a2)) AttesterSlashingNotSlashable) (
      ebind (eget (\<lambda>s. is_valid_indexed_attestation C BLS s a1)) (\<lambda>v1.
      eseq (ensure (\<lambda>_. v1) AttestationInvalidSignature) (
      ebind (eget (\<lambda>s. is_valid_indexed_attestation C BLS s a2)) (\<lambda>v2.
      eseq (ensure (\<lambda>_. v2) AttestationInvalidSignature) (
      let full = sort (foldl push_unique [] (attester_indices a1 @ attester_indices a2)) in
      ebind (slash_attesters C full False) (\<lambda>slashed_any.
      ensure (\<lambda>_. slashed_any) AttesterSlashingEmptyIndices)))))))"

definition process_attestation :: "Config \<Rightarrow> BLSConfig \<Rightarrow> Attestation \<Rightarrow> unit executive" where
  "process_attestation C BLS attestation =
     (let data = at_data attestation in
      eseq (ensure (\<lambda>s. ad_index data < committee_count_at_slot C s (ad_slot data)) AttestationIncorrectCrosslinkData) (
      eseq (ensure (\<lambda>s. epoch (target data) = current_epoch C s \<or> epoch (target data) = previous_epoch C s)
         AttestationIncorrectJustifiedEpochOrBlockRoot) (
      eseq (ensure (\<lambda>s. ad_slot data + min_attestation_inclusion_delay C \<le> slot s \<and>
          slot s \<le> ad_slot data + slots_per_epoch C) AttestationSubmittedTooQuickly) (
      ebind (eget (beacon_proposer_index C)) (\<lambda>i.
      ebind (eget (\<lambda>s. Ok \<lparr>pa_aggregation_bits = aggregation_bits attestation, pa_data = data,
          inclusion_delay = slot s - ad_slot data, pa_proposer_index = i\<rparr>)) (\<lambda>pending.
      ebind (eget (\<lambda>s. Ok (epoch (target data) = current_epoch C s))) (\<lambda>push_current.
      eseq (ensure (\<lambda>s. push_current \<longrightarrow> source data = current_justified_checkpoint s) AttestationInvalidData) (
      ebind (eget (\<lambda>s. rbind (indexed_attestation C s attestation) (is_valid_indexed_attestation C BLS s))) (\<lambda>valid.
      eseq (ensure (\<lambda>_. valid) AttestationInvalidSignature) (
      emod (\<lambda>s.
        if push_current then s\<lparr>current_epoch_attestations := current_epoch_attestations s @ [pending]\<rparr>
        else s\<lparr>previous_epoch_attestations := previous_epoch_attestations s @ [pending]\<rparr>)))))))))))"

definition deposit_validator :: "Config \<Rightarrow> DepositData \<Rightarrow> Validator" where
  "deposit_validator C d = \<lparr>
     pubkey = dd_pubkey d,
     withdrawal_credentials = dd_withdrawal_credentials d,
     effective_balance = rounded_balance C (dd_amount d),
     slashed = False,
     activation_eligibility_epoch = FAR_FUTURE_EPOCH,
     activation_epoch = FAR_FUTURE_EPOCH,
     exit_epoch = FAR_FUTURE_EPOCH,
     withdrawable_epoch = FAR_FUTURE_EPOCH\<rparr>"

definition process_deposit :: "Config \<Rightarrow> BLSConfig \<Rightarrow> Deposit \<Rightarrow> unit executive" where
  "process_deposit C BLS deposit =
     (let d = dep_data deposit in
      eseq (ensure (\<lambda>s. is_valid_merkle_branch C (root_deposit_data (hashing C) d) (proof_branch deposit)
          (DEPOSIT_CONTRACT_TREE_DEPTH + 1) (eth1_deposit_index s) (deposit_root (eth1_data s)))
          DepositMerkleInvalid) (
      eseq (emod (\<lambda>s. s\<lparr>eth1_deposit_index := eth1_deposit_index s + 1\<rparr>)) (
      ebind (eget (\<lambda>s. Ok (position (dd_pubkey d) (map pubkey (validators s))))) (\<lambda>known.
      case known of
        None \<Rightarrow>
          emod (\<lambda>s.
            if \<not> verify BLS (dd_pubkey d) (root_signing_deposit_data (hashing C) (signing_deposit_data d))
                 (dd_signature d) (domain C s domain_deposit None)
            then s
            else s\<lparr>validators := validators s @ [deposit_validator C d],
                   balances := balances s @ [dd_amount d]\<rparr>)
      | Some i \<Rightarrow> increase_balance (of_nat i) (dd_amount d)))))"

definition process_voluntary_exit :: "Config \<Rightarrow> BLSConfig \<Rightarrow> VoluntaryExit \<Rightarrow> unit executive" where
  "process_voluntary_exit C BLS ex =
     eseq (ensure (\<lambda>s. ve_validator_index ex < len64 (validators s)) VoluntaryExitInvalidSignature) (
     ebind (eget (\<lambda>s. vec_index (validators s) (ve_validator_index ex))) (\<lambda>v.
     eseq (ensure (\<lambda>s. is_active v (current_epoch C s)) VoluntaryExitAlreadyInitiated) (
     eseq (ensure (\<lambda>_. exit_epoch v = FAR_FUTURE_EPOCH) VoluntaryExitAlreadyExited) (
     eseq (ensure (\<lambda>s. \<not> current_epoch C s < ve_epoch ex) VoluntaryExitNotYetValid) (
     eseq (ensure (\<lambda>s. \<not> current_epoch C s < activation_epoch v + persistent_committee_period C) VoluntaryExitNotLongEnough) (
     eseq (ensure (\<lambda>s. verify BLS (pubkey v)
         (root_signing_voluntary_exit (hashing C) (signing_voluntary_exit ex)) (ve_signature ex)
         (domain C s domain_voluntary_exit (Some (ve_epoch ex)))) VoluntaryExitInvalidSignature)
       (initiate_validator_exit C (ve_validator_index ex))))))))"

section \<open>Blocks\<close>

definition process_operations :: "Config \<Rightarrow> BLSConfig \<Rightarrow> BeaconBlockBody \<Rightarrow> unit executive" where
  "process_operations C BLS body =
     eseq (ensure (\<lambda>s. len64 (deposits body) =
         min (max_deposits C) (deposit_count (eth1_data s) - eth1_deposit_index s)) TooManyDeposits) (
     eseq (ensure (\<lambda>_. length (proposer_slashings body) \<le> unat (max_proposer_slashings C)) TooManyProposerSlashings) (
     eseq (for_each (proposer_slashings body) (process_proposer_slashing C BLS)) (
     eseq (ensure (\<lambda>_. length (attester_slashings body) \<le> unat (max_attester_slashings C)) TooManyAttesterSlashings) (
     eseq (for_each (attester_slashings body) (process_attester_slashing C BLS)) (
     eseq (ensure (\<lambda>_. length (attestations body) \<le> unat (max_attestations C)) TooManyAttestations) (
     eseq (for_each (attestations body) (process_attestation C BLS)) (
     eseq (ensure (\<lambda>_. length (deposits body) \<le> unat (max_deposits C)) TooManyDeposits) (
     eseq (for_each (deposits body) (process_deposit C BLS)) (
     eseq (ensure (\<lambda>_. length (voluntary_exits body) \<le> unat (max_voluntary_exits C)) TooManyVoluntaryExits)
       (for_each (voluntary_exits body) (process_voluntary_exit C BLS)))))))))))"

definition process_block :: "Config \<Rightarrow> BLSConfig \<Rightarrow> Block \<Rightarrow> unit executive" where
  "process_block C BLS block =
     eseq (process_block_header C BLS block) (
     eseq (process_randao C BLS (block_body block)) (
     eseq (process_eth1_data C (block_body block))
       (process_operations C BLS (block_body block))))"

lemma position_None: "position x ys = None \<longleftrightarrow> x \<notin> set ys"
  by (induction ys) auto

lemma position_Some: "position x ys = Some i \<Longrightarrow> i < length ys \<and> ys ! i = x \<and> (\<forall>j<i. ys ! j \<noteq> x)"
proof (induction ys arbitrary: i)
  case (Cons y ys)
  then show ?case by (auto simp: less_Suc_eq_0_disj split: if_splits) blast+
qed simp

section \<open>The interface of the block transition\<close>

text \<open>
  A property that also survives the writes of the operations outside the registry, and then those of the
  header and the randomness.
\<close>

locale operations_invariant = mutator_invariant +
  assumes vote_push: "I s \<Longrightarrow> I (s\<lparr>eth1_data_votes := eth1_data_votes s @ [e]\<rparr>)"
    and eth1_update: "I s \<Longrightarrow> I (s\<lparr>eth1_data := e\<rparr>)"
    and current_push: "I s \<Longrightarrow> I (s\<lparr>current_epoch_attestations := current_epoch_attestations s @ [a]\<rparr>)"
    and previous_push: "I s \<Longrightarrow> I (s\<lparr>previous_epoch_attestations := previous_epoch_attestations s @ [a]\<rparr>)"
    and deposit_index_update: "I s \<Longrightarrow> I (s\<lparr>eth1_deposit_index := n\<rparr>)"
    and validator_push:
      "I s \<Longrightarrow> dd_pubkey d \<notin> pubkey ` set (validators s) \<Longrightarrow>
       I (s\<lparr>validators := validators s @ [deposit_validator C d], balances := balances s @ [dd_amount d]\<rparr>)"
begin

lemma eth1_inv [preserves_intros]: "preserves I (process_eth1_data C body)"
  unfolding process_eth1_data_def
  by (intro preserves_intros preserves_emod) (simp_all add: vote_push eth1_update)

lemma proposer_slashing_inv [preserves_intros]: "preserves I (process_proposer_slashing C BLS ps)"
  unfolding process_proposer_slashing_def verify_proposer_header_def by (intro preserves_intros)

lemma slash_attesters_inv [preserves_intros]: "preserves I (slash_attesters C ks b)"
  by (induction ks arbitrary: b) (auto intro!: preserves_intros)

lemma attester_slashing_inv [preserves_intros]: "preserves I (process_attester_slashing C BLS asl)"
  unfolding process_attester_slashing_def Let_def by (intro preserves_intros)

lemma attestation_inv [preserves_intros]: "preserves I (process_attestation C BLS a)"
  unfolding process_attestation_def Let_def
  by (intro preserves_intros preserves_emod) (simp add: current_push previous_push)

lemma deposit_inv [preserves_intros]: "preserves I (process_deposit C BLS d)"
proof -
  have push: "preserves I (ebind (eget (\<lambda>s. Ok (position (dd_pubkey x) (map pubkey (validators s))))) (\<lambda>known.
      case known of
        None \<Rightarrow> emod (\<lambda>s. if b s then s else
          s\<lparr>validators := validators s @ [deposit_validator C x], balances := balances s @ [dd_amount x]\<rparr>)
      | Some i \<Rightarrow> increase_balance (of_nat i) (dd_amount x)))" for x b
    using increase_balance_inv
    by (intro preserves_eget_bind)
      (auto simp: exec_simps preserves_def position_None intro!: validator_push split: option.splits)
  show ?thesis
    unfolding process_deposit_def Let_def
    by (intro preserves_eseq preserves_ensure preserves_emod push) (simp_all add: deposit_index_update)
qed

lemma voluntary_exit_inv [preserves_intros]: "preserves I (process_voluntary_exit C BLS ex)"
  unfolding process_voluntary_exit_def by (intro preserves_intros)

lemma operations_inv [preserves_intros]: "preserves I (process_operations C BLS body)"
  unfolding process_operations_def by (intro preserves_intros)

end

locale block_invariant = operations_invariant +
  assumes header_update: "I s \<Longrightarrow> I (s\<lparr>latest_block_header := h\<rparr>)"
    and mix_update: "I s \<Longrightarrow> I (s\<lparr>randao_mixes := (randao_mixes s)[k := m]\<rparr>)"
begin

lemma header_inv [preserves_intros]: "preserves I (process_block_header C BLS block)"
  unfolding process_block_header_def
  by (intro preserves_intros preserves_emod) (simp add: header_update)

lemma randao_inv [preserves_intros]: "preserves I (process_randao C BLS body)"
  unfolding process_randao_def Let_def
  by (intro preserves_intros preserves_emod) (simp add: mix_update)

lemma process_block_inv [preserves_intros]: "preserves I (process_block C BLS block)"
  unfolding process_block_def by (intro preserves_intros)

end

interpretation wf: block_invariant C "state_wf C" for C
  by unfold_locales (simp_all add: state_wf_def)

interpretation slot_frame: block_invariant C "\<lambda>s. slot s = k" for C k
  by unfold_locales simp_all

interpretation life: block_invariant C "registry_grows C s" for C s
  by unfold_locales (simp_all add: registry_grows_def nth_append)

interpretation bal: block_invariant C "registry_balances_ok C" for C
  by unfold_locales (auto simp: registry_balances_ok_def deposit_validator_def balance_ok_rounded)

interpretation keys: block_invariant C distinct_pubkeys for C
  by unfold_locales (auto simp: distinct_pubkeys_def deposit_validator_def)

section \<open>Failed operations\<close>

text \<open>Methods that never return an error, and how they make a sequence of checks atomic.\<close>

named_theorems atomic_intros \<open>rules for methods that leave the state alone when they fail\<close>

definition infallible :: "('s, 'e, 'a) exec \<Rightarrow> bool" where
  "infallible m \<longleftrightarrow> (\<forall>s e t. m s \<noteq> (Err e, t))"

lemma infallible_emod [atomic_intros]: "infallible (emod f)"
  by (simp add: infallible_def exec_simps)

lemma infallible_eret [atomic_intros]: "infallible (eret x)"
  by (simp add: infallible_def exec_simps)

lemma infallible_eget: "(\<And>s e. f s \<noteq> Err e) \<Longrightarrow> infallible (eget f)"
  by (simp add: infallible_def exec_simps)

lemma infallible_ebind: "infallible m \<Longrightarrow> (\<And>x. infallible (k x)) \<Longrightarrow> infallible (ebind m k)"
  by (auto simp: infallible_def ebind_eq_Err)

lemma infallible_eseq: "infallible m \<Longrightarrow> infallible k \<Longrightarrow> infallible (eseq m k)"
  by (auto simp: infallible_def eseq_eq_Err)

lemma infallible_if: "infallible m \<Longrightarrow> infallible k \<Longrightarrow> infallible (if b then m else k)"
  by simp

lemma infallible_option:
  "infallible m \<Longrightarrow> (\<And>x. infallible (k x)) \<Longrightarrow> infallible (case v of None \<Rightarrow> m | Some x \<Rightarrow> k x)"
  by (cases v) simp_all

lemmas infallible_intros = infallible_ebind infallible_eseq infallible_if infallible_option
  infallible_emod infallible_eret infallible_eget

lemma atomic_infallible: "infallible m \<Longrightarrow> atomic m"
  by (simp add: atomic_def infallible_def)

lemma atomic_ensure [atomic_intros]: "atomic (ensure c e)"
  by (auto simp: atomic_def)

lemma atomic_ensure_seq [atomic_intros]: "atomic k \<Longrightarrow> atomic (eseq (ensure c e) k)"
  by (auto simp: atomic_def eseq_eq_Err)

lemma atomic_eget_bind [atomic_intros]: "(\<And>x. atomic (k x)) \<Longrightarrow> atomic (ebind (eget f) k)"
  by (auto simp: atomic_def ebind_eq_Err)

lemma increase_balance_infallible: "infallible (increase_balance i d)"
  unfolding increase_balance_def by (intro infallible_intros) simp

lemma initiate_validator_exit_infallible: "infallible (initiate_validator_exit C i)"
  unfolding initiate_validator_exit_def by (intro infallible_intros) simp

lemma process_attestation_atomic: "atomic (process_attestation C BLS a)"
  unfolding process_attestation_def Let_def by (intro atomic_intros atomic_infallible)

text \<open>
  C33: An attestation, a deposit, a voluntary exit or a randomness reveal that is rejected changes
  nothing: the state is exactly the one before the operation, whatever check failed.
\<close>

theorem rejected_operations_atomic:
  "atomic (process_attestation C BLS a) \<and> atomic (process_deposit C BLS d) \<and>
   atomic (process_voluntary_exit C BLS x) \<and> atomic (process_randao C BLS b)"
proof (intro conjI)
  show "atomic (process_attestation C BLS a)" by (rule process_attestation_atomic)
  show "atomic (process_deposit C BLS d)"
    unfolding process_deposit_def Let_def
    by (intro atomic_ensure_seq atomic_infallible infallible_intros increase_balance_infallible) simp
  show "atomic (process_voluntary_exit C BLS x)"
    unfolding process_voluntary_exit_def
    by (intro atomic_ensure_seq atomic_eget_bind atomic_infallible initiate_validator_exit_infallible)
  show "atomic (process_randao C BLS b)"
    unfolding process_randao_def
    by (intro atomic_ensure_seq atomic_eget_bind atomic_infallible infallible_emod)
qed

section \<open>Attester slashings\<close>

lemma set_foldl_push_unique [simp]: "set (foldl push_unique acc xs) = set acc \<union> set xs"
  by (induction xs arbitrary: acc) (auto simp: push_unique_def)

lemma distinct_foldl_push_unique: "distinct acc \<Longrightarrow> distinct (foldl push_unique acc xs)"
  by (induction xs arbitrary: acc) (auto simp: push_unique_def)

lemma slash_validator_registry:
  assumes "slash_validator C i wb s = (Ok (), t)"
  obtains w where "validators t = (validators s)[unat i := w]" "slashed w" "unat i < length (validators s)"
    "slot t = slot s"
proof -
  have "slot t = slot s"
    using preservesD [of "\<lambda>u. slot u = slot s" "slash_validator C i wb" s] slot_frame.slash_validator_inv assms
    by blast
  then show thesis using slash_validator_spec [OF assms] slash_validator_run [OF assms] that by blast
qed

lemma slash_attesters_run:
  assumes "slash_attesters C ks b s = (Ok r, t)"
  shows "length (validators t) = length (validators s) \<and> slot t = slot s \<and>
    (\<forall>k\<in>set ks. unat k < length (validators s) \<and>
       (is_slashable_validator (validators s ! unat k) (current_epoch C s) \<longrightarrow> slashed (validators t ! unat k))) \<and>
    (\<forall>j<length (validators s). j \<notin> unat ` set ks \<or> \<not> is_slashable_validator (validators s ! j) (current_epoch C s) \<longrightarrow>
       validators t ! j = validators s ! j) \<and>
    (\<forall>j<length (validators s). slashed (validators s ! j) \<longrightarrow> slashed (validators t ! j)) \<and>
    (r \<longrightarrow> b \<or> (\<exists>k\<in>set ks. is_slashable_validator (validators s ! unat k) (current_epoch C s)))"
  using assms
proof (induction ks arbitrary: b s)
  case Nil
  then show ?case by simp
next
  case (Cons k ks)
  let ?v = "validators s ! unat k"
  have k: "unat k < length (validators s)" using Cons.prems by (auto simp: ebind_eq_Ok)
  show ?case
  proof (cases "is_slashable_validator ?v (current_epoch C s)")
    case False
    then have "slash_attesters C ks b s = (Ok r, t)" using Cons.prems by (auto simp: ebind_eq_Ok)
    from Cons.IH [OF this] show ?thesis using False k by auto
  next
    case True
    then obtain s1 where s1: "slash_validator C k None s = (Ok (), s1)" "slash_attesters C ks True s1 = (Ok r, t)"
      using Cons.prems by (auto simp: exec_ok)
    obtain w where w: "validators s1 = (validators s)[unat k := w]" "slashed w" "slot s1 = slot s"
      using slash_validator_registry [OF s1(1)] by metis
    have ce: "current_epoch C s1 = current_epoch C s" using w(3) by (simp add: current_epoch_def)
    have old: "validators s1 ! j = (if j = unat k then w else validators s ! j)" if "j < length (validators s)" for j
      using that by (simp add: w(1) nth_list_update)
    have len: "length (validators s1) = length (validators s)" using w(1) by simp
    note IH = Cons.IH [OF s1(2), unfolded ce len w(3)]
    have kept: "slashed (validators t ! j)" if "j < length (validators s)" "slashed (validators s ! j) \<or> j = unat k" for j
      using IH that old [OF that(1)] w(2) by (metis (full_types))
    have later: "slashed (validators t ! unat i)"
      if "i \<in> set ks" "is_slashable_validator (validators s ! unat i) (current_epoch C s)" for i
      using IH that old kept by (metis (full_types))
    have same: "validators t ! j = validators s ! j"
      if "j < length (validators s)" "\<not> is_slashable_validator (validators s ! j) (current_epoch C s)" for j
    proof -
      have "j \<noteq> unat k" using that(2) True by auto
      then show ?thesis using IH that old [OF that(1)] by (metis (full_types))
    qed
    show ?thesis using IH True k kept later same old by (auto simp: image_iff)
  qed
qed

text \<open>
  C22: An accepted attester slashing slashes every slashable validator that signed either of the two
  conflicting attestations, at least one of them. The records of all other validators stay as they are: those that
  signed neither attestation, and signers that are not slashable.
\<close>

theorem process_attester_slashing_effect:
  assumes "process_attester_slashing C BLS asl s = (Ok (), t)"
  shows "is_slashable (ia_data (attestation_1 asl)) (ia_data (attestation_2 asl)) \<and>
    (\<forall>k\<in>set (attester_indices (attestation_1 asl)) \<union> set (attester_indices (attestation_2 asl)).
       is_slashable_validator (validators s ! unat k) (current_epoch C s) \<longrightarrow> slashed (validators t ! unat k)) \<and>
    (\<exists>k\<in>set (attester_indices (attestation_1 asl)) \<union> set (attester_indices (attestation_2 asl)).
       is_slashable_validator (validators s ! unat k) (current_epoch C s)) \<and>
    length (validators t) = length (validators s) \<and>
    (\<forall>j<length (validators s).
       j \<notin> unat ` (set (attester_indices (attestation_1 asl)) \<union> set (attester_indices (attestation_2 asl))) \<or>
       \<not> is_slashable_validator (validators s ! j) (current_epoch C s) \<longrightarrow>
       validators t ! j = validators s ! j)"
proof -
  let ?full = "sort (foldl push_unique [] (attester_indices (attestation_1 asl) @ attester_indices (attestation_2 asl)))"
  have *: "is_slashable (ia_data (attestation_1 asl)) (ia_data (attestation_2 asl))"
    "slash_attesters C ?full False s = (Ok True, t)"
    using assms by (auto simp: process_attester_slashing_def Let_def exec_ok)
  have "set ?full = set (attester_indices (attestation_1 asl)) \<union> set (attester_indices (attestation_2 asl))" by simp
  then show ?thesis using slash_attesters_run [OF *(2)] *(1) by metis
qed


text \<open>Two double votes of the same epoch, each signed by one validator only.\<close>

definition sample_vote :: "u64 \<Rightarrow> u8 \<Rightarrow> IndexedAttestation" where
  "sample_vote k r = \<lparr>custody_bit_0_indices = [k], custody_bit_1_indices = [],
     ia_data = \<lparr>ad_slot = 8, ad_index = 0, beacon_block_root = replicate 32 r,
       source = Checkpoint_default, target = Checkpoint_default\<rparr>, ia_signature = replicate 96 0\<rparr>"

definition sample_attester_slashing :: AttesterSlashing where
  "sample_attester_slashing = \<lparr>attestation_1 = sample_vote 0 1, attestation_2 = sample_vote 2 2\<rparr>"

theorem process_attester_slashing_effect_witness:
  "\<exists>t. process_attester_slashing (MinimalConfig toy_hashing) BLSNoVerification sample_attester_slashing sample_state
      = (Ok (), t) \<and>
     slashed (validators t ! 0) \<and> validators t ! 1 = validators sample_state ! 1 \<and> slashed (validators t ! 2)"
proof -
  let ?m = "process_attester_slashing (MinimalConfig toy_hashing) BLSNoVerification sample_attester_slashing"
  have "fst (?m sample_state) = Ok ()" by code_simp
  then obtain t where t: "?m sample_state = (Ok (), t)" by (metis prod.collapse)
  have U: "set (attester_indices (attestation_1 sample_attester_slashing)) \<union>
      set (attester_indices (attestation_2 sample_attester_slashing)) = {0, 2}" by code_simp
  note E = process_attester_slashing_effect [OF t, unfolded U, simplified]
  have v: "is_slashable_validator (validators sample_state ! 0) 1"
    "is_slashable_validator (validators sample_state ! 2) 1" "length (validators sample_state) = 3" by code_simp+
  have "slashed (validators t ! 0)" "slashed (validators t ! 2)" using E v(1,2) by simp_all
  moreover have "validators t ! 1 = validators sample_state ! 1" using E v(3) by simp
  ultimately show ?thesis using t by blast
qed

section \<open>Deposits\<close>

lemma position_append_new: "x \<notin> set ys \<Longrightarrow> position x (ys @ [x]) = Some (length ys)"
  by (induction ys) auto

lemma domain_deposit_index [simp]: "domain C (s\<lparr>eth1_deposit_index := n\<rparr>) d e = domain C s d e"
  by (cases e) (simp_all add: domain_def current_epoch_def)

text \<open>
  C23: A deposit with a valid Merkle branch never fails and advances the deposit index by one. A deposit for
  a known key, or one for a new key with a valid signature, credits exactly its amount to the validator that
  the key then looks up, and changes no other balance; a deposit for a new key with an invalid signature
  changes neither registry nor balances.
\<close>

theorem process_deposit_credits:
  assumes "is_valid_merkle_branch C (root_deposit_data (hashing C) (dep_data d)) (proof_branch d)
      (DEPOSIT_CONTRACT_TREE_DEPTH + 1) (eth1_deposit_index s) (deposit_root (eth1_data s))"
    and "length (balances s) = length (validators s)" "length (validators s) < 2 ^ 64 - 1"
  shows "\<exists>t. process_deposit C BLS d s = (Ok (), t) \<and> eth1_deposit_index t = eth1_deposit_index s + 1 \<and>
    (case validator_index s (dd_pubkey (dep_data d)) of
       Some i \<Rightarrow> validators t = validators s \<and>
         balances t = (balances s)[unat i := balances s ! unat i + dd_amount (dep_data d)]
     | None \<Rightarrow>
         if verify BLS (dd_pubkey (dep_data d))
              (root_signing_deposit_data (hashing C) (signing_deposit_data (dep_data d)))
              (dd_signature (dep_data d)) (domain C s domain_deposit None)
         then validator_index t (dd_pubkey (dep_data d)) = Some (of_nat (length (validators s))) \<and>
           validators t = validators s @ [deposit_validator C (dep_data d)] \<and>
           balances t = balances s @ [dd_amount (dep_data d)]
         else validators t = validators s \<and> balances t = balances s)"
proof -
  let ?key = "dd_pubkey (dep_data d)"
  let ?u = "s\<lparr>eth1_deposit_index := eth1_deposit_index s + 1\<rparr>"
  show ?thesis
  proof (cases "position ?key (map pubkey (validators s))")
    case None
    then have "?key \<notin> set (map pubkey (validators s))" using position_None by metis
    then have "position ?key (map pubkey (validators s @ [deposit_validator C (dep_data d)])) =
        Some (length (validators s))"
      using position_append_new [of ?key "map pubkey (validators s)"] by (simp add: deposit_validator_def)
    moreover have "process_deposit C BLS d s = (Ok (),
        if verify BLS ?key (root_signing_deposit_data (hashing C) (signing_deposit_data (dep_data d)))
             (dd_signature (dep_data d)) (domain C s domain_deposit None)
        then ?u\<lparr>validators := validators s @ [deposit_validator C (dep_data d)],
               balances := balances s @ [dd_amount (dep_data d)]\<rparr> else ?u)"
      using None assms(1) by (simp add: process_deposit_def Let_def eseq_def ebind_def eget_def ensure_def emod_def)
    ultimately show ?thesis using None by (simp add: validator_index_def)
  next
    case (Some i)
    then have "i < length (balances s)" using position_Some [OF Some] assms(2) by simp
    moreover from this have "unat (of_nat i :: u64) = i" using assms(2,3) by (simp add: unat_of_nat)
    ultimately show ?thesis
      using Some assms(1)
      by (simp add: process_deposit_def Let_def eseq_def ebind_def eget_def ensure_def emod_def
          validator_index_def increase_balance_def vec_index_def)
  qed
qed


text \<open>A new deposit for the state with three validators: its tree is the single leaf.\<close>

definition sample_deposit :: Deposit where
  "sample_deposit = \<lparr>proof_branch = replicate 33 H256_default,
     dep_data = \<lparr>dd_pubkey = replicate 48 9, dd_withdrawal_credentials = H256_default,
       dd_amount = 32000000000, dd_signature = replicate 96 0\<rparr>\<rparr>"

definition deposit_state :: BeaconState where
  "deposit_state = sample_state\<lparr>eth1_data := (eth1_data sample_state)\<lparr>
     deposit_root := the (compact_value_root toy_hashing
       (root_deposit_data toy_hashing (dep_data sample_deposit)) (proof_branch sample_deposit) 0
       (DEPOSIT_CONTRACT_TREE_DEPTH + 1))\<rparr>\<rparr>"

theorem process_deposit_credits_witness:
  "\<exists>t. process_deposit (MinimalConfig toy_hashing) BLSNoVerification sample_deposit deposit_state = (Ok (), t) \<and>
     validator_index t (replicate 48 9) = Some 3 \<and> balances t = replicate 4 32000000000"
proof -
  let ?C = "MinimalConfig toy_hashing"
  have "is_valid_merkle_branch ?C (root_deposit_data (hashing ?C) (dep_data sample_deposit))
      (proof_branch sample_deposit) (DEPOSIT_CONTRACT_TREE_DEPTH + 1) (eth1_deposit_index deposit_state)
      (deposit_root (eth1_data deposit_state))" by code_simp
  moreover have "length (balances deposit_state) = 3" "length (validators deposit_state) = 3" by code_simp+
  moreover have "validator_index deposit_state (dd_pubkey (dep_data sample_deposit)) = None"
    "dd_pubkey (dep_data sample_deposit) = replicate 48 9"
    "balances deposit_state @ [dd_amount (dep_data sample_deposit)] = replicate 4 32000000000"
    by code_simp+
  moreover have "verify BLSNoVerification = (\<lambda>_ _ _ _. True)" by (simp add: BLSNoVerification_def)
  ultimately show ?thesis
    using process_deposit_credits [of ?C sample_deposit deposit_state BLSNoVerification]
    by auto
qed

end
