(* ===== verification/State_Transition.thy ===== *)
theory State_Transition
  imports Block_Processing
begin

text \<open>
  The state transition, \<^verbatim>\<open>executive/transition/mod.rs\<close>, and the crate's interface, \<^verbatim>\<open>lib.rs\<close> and
  \<^verbatim>\<open>genesis.rs\<close>: advancing slots, importing a block, building the genesis state, and authoring a block
  step by step. The functions of \<^verbatim>\<open>lib.rs\<close> that take the block under construction next to the state run on
  the pair of the two.
\<close>

section \<open>Slots (transition/mod.rs)\<close>

definition process_slot :: "Config \<Rightarrow> unit executive" where
  "process_slot C = emod (\<lambda>s.
     let previous_state_root = root_state (hashing C) s;
         ix = unat (slot s mod slots_per_historical_root C);
         s = s\<lparr>state_roots := (state_roots s)[ix := previous_state_root]\<rparr>;
         s = (if bh_state_root (latest_block_header s) = H256_default
              then s\<lparr>latest_block_header := (latest_block_header s)\<lparr>bh_state_root := previous_state_root\<rparr>\<rparr>
              else s);
         previous_block_root = root_signing_header (hashing C) (signing_header (latest_block_header s))
     in s\<lparr>block_roots := (block_roots s)[ix := previous_block_root]\<rparr>)"

text \<open>One iteration of the loop of \<^verbatim>\<open>process_slots\<close>.\<close>

definition slot_step :: "Config \<Rightarrow> unit executive" where
  "slot_step C =
     eseq (process_slot C) (
     ebind (eget (\<lambda>s. Ok (slot s))) (\<lambda>k.
     eseq (if (k + 1) mod slots_per_epoch C = 0 then process_epoch C else eret ())
       (emod (\<lambda>s. s\<lparr>slot := slot s + 1\<rparr>))))"

lemma process_slot_frame [simp]: "slot (snd (process_slot C s)) = slot s"
  by (simp add: process_slot_def emod_def Let_def)

lemma slot_step_slot:
  assumes "slot_step C s = (Ok (), t)"
  shows "slot t = slot s + 1"
proof -
  obtain s1 s2 where s1: "process_slot C s = (Ok (), s1)"
    and s2: "(if (slot s1 + 1) mod slots_per_epoch C = 0 then process_epoch C else eret ()) s1 = (Ok (), s2)"
    and t: "t = s2\<lparr>slot := slot s2 + 1\<rparr>"
    using assms by (auto simp: slot_step_def exec_ok)
  have "slot s1 = slot s" using process_slot_frame [of C s] s1 by simp
  moreover have "slot s2 = slot s1"
    using s2 preservesD [OF slot_frame.process_epoch_inv, of s1 "slot s1" C "Ok ()" s2]
    by (auto split: if_splits)
  ultimately show ?thesis by (simp add: t)
qed

function slots_loop :: "Config \<Rightarrow> Slot \<Rightarrow> unit executive" where
  "slots_loop C n s = (if slot s < n then ebind (slot_step C) (\<lambda>_. slots_loop C n) s else (Ok (), s))"
  by pat_completeness auto

termination
proof (relation "measure (\<lambda>(C, n, s). unat (n - slot s))")
  fix C n s x t
  assume "slot s < n" "slot_step C s = (Ok x, t)"
  then have "slot t = slot s + 1" "n - slot s \<noteq> 0" using slot_step_slot by auto
  then show "((C, n, t), (C, n, s)) \<in> measure (\<lambda>(C, n, s). unat (n - slot s))"
    using unat_minus_one [of "n - slot s"] unat_gt_0 [of "n - slot s"] by (simp add: algebra_simps)
qed simp

declare slots_loop.simps [simp del]

definition process_slots :: "Config \<Rightarrow> Slot \<Rightarrow> unit executive" where
  "process_slots C n = eseq (ensure (\<lambda>s. \<not> slot s > n) SlotOutOfRange) (slots_loop C n)"

definition state_transition :: "Config \<Rightarrow> BLSConfig \<Rightarrow> Block \<Rightarrow> unit executive" where
  "state_transition C BLS block =
     eseq (process_slots C (block_slot block)) (
     eseq (process_block C BLS block)
       (ensure (\<lambda>s. block_state_root block = root_state (hashing C) s) BlockStateRootInvalid))"

section \<open>The interface of the crate (lib.rs)\<close>

definition execute_block :: "Config \<Rightarrow> BLSConfig \<Rightarrow> BeaconBlock \<Rightarrow> unit executive" where
  "execute_block C BLS block = state_transition C BLS (Sealed block)"

definition genesis_domain :: "u32 \<Rightarrow> u64" where
  "genesis_domain domain_type = bls_domain domain_type Version_default"

record Inherent =
  inh_randao_reveal :: Signature
  inh_eth1_data :: Eth1Data

datatype Transaction =
    TxProposerSlashing ProposerSlashing
  | TxAttesterSlashing AttesterSlashing
  | TxAttestation Attestation
  | TxDeposit Deposit
  | TxVoluntaryExit VoluntaryExit

definition initialize_block :: "Config \<Rightarrow> Slot \<Rightarrow> unit executive" where
  "initialize_block C target_slot = process_slots C target_slot"

definition apply_inherent :: "Config \<Rightarrow> BLSConfig \<Rightarrow> BeaconBlock \<Rightarrow> Inherent \<Rightarrow> UnsealedBeaconBlock executive" where
  "apply_inherent C BLS parent_block inherent =
     (let body = BeaconBlockBody_default\<lparr>
        randao_reveal := inh_randao_reveal inherent, body_eth1_data := inh_eth1_data inherent\<rparr> in
      ebind (eget (\<lambda>s. Ok \<lparr>
        ub_slot = slot s,
        ub_parent_root = root_signing_header (hashing C) (signing_header (latest_block_header s)),
        ub_state_root = bb_state_root parent_block,
        ub_body = body\<rparr>)) (\<lambda>block.
      eseq (process_randao C BLS (ub_body block)) (
      eseq (process_eth1_data C (ub_body block))
        (eret block))))"

text \<open>A method on the state alone, run next to the block under construction.\<close>

type_synonym 'a authoring = "(UnsealedBeaconBlock \<times> BeaconState, error, 'a) exec"

definition on_state :: "'a executive \<Rightarrow> 'a authoring" where
  "on_state m = (\<lambda>(b, s). let (r, t) = m s in (r, (b, t)))"

definition with_body :: "(BeaconBlockBody \<Rightarrow> BeaconBlockBody) \<Rightarrow> unit authoring" where
  "with_body f = emod (\<lambda>(b, s). (b\<lparr>ub_body := f (ub_body b)\<rparr>, s))"

definition body_room :: "(BeaconBlockBody \<Rightarrow> 'a list) \<Rightarrow> u64 \<Rightarrow> error \<Rightarrow> unit authoring" where
  "body_room f n e = ensure (\<lambda>(b, s). \<not> length (f (ub_body b)) \<ge> unat n) e"

fun apply_transaction :: "Config \<Rightarrow> BLSConfig \<Rightarrow> Transaction \<Rightarrow> unit authoring" where
  "apply_transaction C BLS (TxProposerSlashing x) =
     eseq (body_room proposer_slashings (max_proposer_slashings C) TooManyProposerSlashings) (
     eseq (on_state (process_proposer_slashing C BLS x))
       (with_body (\<lambda>b. b\<lparr>proposer_slashings := proposer_slashings b @ [x]\<rparr>)))"
| "apply_transaction C BLS (TxAttesterSlashing x) =
     eseq (body_room attester_slashings (max_attester_slashings C) TooManyAttesterSlashings) (
     eseq (on_state (process_attester_slashing C BLS x))
       (with_body (\<lambda>b. b\<lparr>attester_slashings := attester_slashings b @ [x]\<rparr>)))"
| "apply_transaction C BLS (TxAttestation x) =
     eseq (body_room attestations (max_attestations C) TooManyAttestations) (
     eseq (on_state (process_attestation C BLS x))
       (with_body (\<lambda>b. b\<lparr>attestations := attestations b @ [x]\<rparr>)))"
| "apply_transaction C BLS (TxDeposit x) =
     eseq (body_room deposits (max_deposits C) TooManyDeposits) (
     eseq (on_state (process_deposit C BLS x))
       (with_body (\<lambda>b. b\<lparr>deposits := deposits b @ [x]\<rparr>)))"
| "apply_transaction C BLS (TxVoluntaryExit x) =
     eseq (body_room voluntary_exits (max_voluntary_exits C) TooManyVoluntaryExits) (
     eseq (on_state (process_voluntary_exit C BLS x))
       (with_body (\<lambda>b. b\<lparr>voluntary_exits := voluntary_exits b @ [x]\<rparr>)))"

definition finalize_block :: "Config \<Rightarrow> BLSConfig \<Rightarrow> unit authoring" where
  "finalize_block C BLS =
     eseq (ensure (\<lambda>(b, s). \<not> deposit_count (eth1_data s) < eth1_deposit_index s) InvalidEth1Data) (
     eseq (ensure (\<lambda>(b, s). length (deposits (ub_body b)) =
         unat (min (max_deposits C) (deposit_count (eth1_data s) - eth1_deposit_index s))) TooManyDeposits) (
     ebind (eget (\<lambda>(b, s). Ok b)) (\<lambda>block.
     eseq (on_state (process_block_header C BLS (Unsealed block)))
       (emod (\<lambda>(b, s). (b\<lparr>ub_state_root := root_state (hashing C) s\<rparr>, s))))))"

section \<open>Genesis (genesis.rs)\<close>

definition genesis_activate :: "Config \<Rightarrow> Validator \<Rightarrow> Validator" where
  "genesis_activate C v =
     (if effective_balance v \<ge> max_effective_balance C
      then v\<lparr>activation_eligibility_epoch := genesis_epoch C, activation_epoch := genesis_epoch C\<rparr>
      else v)"

definition genesis_initial :: "Config \<Rightarrow> Uint \<Rightarrow> Eth1Data \<Rightarrow> BeaconState" where
  "genesis_initial C time eth1 =
     (let s = (BeaconState_default C)\<lparr>
        genesis_time := time,
        eth1_data := eth1,
        latest_block_header := BeaconBlockHeader_default\<lparr>
          bh_body_root := root_body (hashing C) BeaconBlockBody_default\<rparr>\<rparr>
      in s\<lparr>randao_mixes := map (\<lambda>_. block_hash eth1) (randao_mixes s)\<rparr>)"

definition genesis_beacon_state :: "Config \<Rightarrow> BLSConfig \<Rightarrow> Deposit list \<Rightarrow> Uint \<Rightarrow> Eth1Data \<Rightarrow> BeaconState result" where
  "genesis_beacon_state C BLS ds time eth1 =
     rbind (run_local (for_each ds (process_deposit C BLS)) (genesis_initial C time eth1)) (\<lambda>s.
     Ok (s\<lparr>validators := map (genesis_activate C) (validators s)\<rparr>))"

definition genesis :: "Config \<Rightarrow> BLSConfig \<Rightarrow> Deposit list \<Rightarrow> Uint \<Rightarrow> Eth1Data \<Rightarrow> (BeaconBlock \<times> BeaconState) result" where
  "genesis C BLS ds time eth1 =
     rbind (genesis_beacon_state C BLS ds time eth1) (\<lambda>s.
     Ok (BeaconBlock_default\<lparr>bb_state_root := root_state (hashing C) s\<rparr>, s))"

section \<open>The interface of the state transition\<close>

lemma preserves_slots_loop:
  assumes "preserves I (slot_step C)"
  shows "preserves I (slots_loop C n)"
proof -
  have "preserves I (slot_step C) \<Longrightarrow> I s \<Longrightarrow> I (snd (slots_loop C n s))" for s
  proof (induction C n s rule: slots_loop.induct)
    case (1 C n s)
    have step: "slot_step C s = (r, t) \<Longrightarrow> I t" for r t using preservesD [OF 1(2,3)] .
    show ?case
      using 1 step by (subst slots_loop.simps) (auto simp: ebind_def split: prod.splits res.splits)
  qed
  then show ?thesis using assms by (simp add: preserves_def [of I "slots_loop C n"])
qed

locale chain_invariant = epoch_invariant C I + block_invariant C I for C I +
  assumes state_root_update: "I s \<Longrightarrow> length rs = length (state_roots s) \<Longrightarrow> I (s\<lparr>state_roots := rs\<rparr>)"
    and block_root_update: "I s \<Longrightarrow> length rs = length (block_roots s) \<Longrightarrow> I (s\<lparr>block_roots := rs\<rparr>)"
    and slot_update: "I s \<Longrightarrow> I (s\<lparr>slot := n\<rparr>)"
begin

lemma process_slot_inv [preserves_intros]: "preserves I (process_slot C)"
  unfolding process_slot_def Let_def
  by (rule preserves_emod) (auto intro!: block_root_update header_update state_root_update)

lemma slot_step_inv [preserves_intros]: "preserves I (slot_step C)"
  unfolding slot_step_def by (intro preserves_intros preserves_emod) (simp add: slot_update)

lemma slots_loop_inv [preserves_intros]: "preserves I (slots_loop C n)"
  by (intro preserves_slots_loop preserves_intros)

lemma process_slots_inv [preserves_intros]: "preserves I (process_slots C n)"
  unfolding process_slots_def by (intro preserves_intros)

lemma state_transition_inv [preserves_intros]: "preserves I (state_transition C BLS block)"
  unfolding state_transition_def by (intro preserves_intros)

lemma execute_block_inv [preserves_intros]: "preserves I (execute_block C BLS block)"
  unfolding execute_block_def by (intro preserves_intros)

end

interpretation wf: chain_invariant C "state_wf C" for C
  by unfold_locales (simp_all add: state_wf_def)

interpretation life: chain_invariant C "registry_grows C s" for C s
  by unfold_locales (simp_all add: registry_grows_def)

interpretation bal: chain_invariant C "registry_balances_ok C" for C
  by unfold_locales (simp_all add: registry_balances_ok_def)

interpretation keys: chain_invariant C distinct_pubkeys for C
  by unfold_locales (simp_all add: distinct_pubkeys_def)

section \<open>Chains of imported blocks\<close>

text \<open>\<open>import_chain C BLS s t\<close>: importing some blocks, all accepted, takes the state \<open>s\<close> to \<open>t\<close>.\<close>

inductive import_chain :: "Config \<Rightarrow> BLSConfig \<Rightarrow> BeaconState \<Rightarrow> BeaconState \<Rightarrow> bool" for C BLS where
  import_chain_none: "import_chain C BLS s s"
| import_chain_block: "import_chain C BLS s t \<Longrightarrow> execute_block C BLS block t = (Ok (), u) \<Longrightarrow> import_chain C BLS s u"

lemma import_chain_preserves:
  "import_chain C BLS s t \<Longrightarrow> (\<And>block. preserves I (execute_block C BLS block)) \<Longrightarrow> I s \<Longrightarrow> I t"
  by (induction rule: import_chain.induct) (blast intro: preservesD)+

lemma import_chain_trans: "import_chain C BLS s t \<Longrightarrow> import_chain C BLS r s \<Longrightarrow> import_chain C BLS r t"
  by (induction rule: import_chain.induct) (blast intro: import_chain_block)+

lemma genesis_deposits:
  assumes "genesis_beacon_state C BLS ds time eth1 = Ok g"
  obtains s where "for_each ds (process_deposit C BLS) (genesis_initial C time eth1) = (Ok (), s)"
    "g = s\<lparr>validators := map (genesis_activate C) (validators s)\<rparr>"
  using assms by (auto simp: genesis_beacon_state_def rbind_eq_Ok run_local_Ok)

lemma genesis_activate_sel [simp]:
  "pubkey (genesis_activate C v) = pubkey v" "effective_balance (genesis_activate C v) = effective_balance v"
  by (simp_all add: genesis_activate_def)

lemma genesis_invariants:
  assumes "genesis_beacon_state C BLS ds time eth1 = Ok g"
  shows "state_wf C g" "registry_balances_ok C g" "distinct_pubkeys g"
proof -
  obtain s where run: "for_each ds (process_deposit C BLS) (genesis_initial C time eth1) = (Ok (), s)"
    and g: "g = s\<lparr>validators := map (genesis_activate C) (validators s)\<rparr>"
    using genesis_deposits [OF assms] .
  let ?i = "genesis_initial C time eth1"
  have i: "state_wf C ?i" "registry_balances_ok C ?i" "distinct_pubkeys ?i"
    by (simp_all add: genesis_initial_def state_wf_def BeaconState_default_def registry_balances_ok_def
        distinct_pubkeys_def)
  have keep: "preserves J (for_each ds (process_deposit C BLS)) \<Longrightarrow> J ?i \<Longrightarrow> J s" for J
    using run by (blast intro: preservesD)
  have "state_wf C s" "registry_balances_ok C s" "distinct_pubkeys s"
    by (intro keep [of "state_wf C"] keep [of "registry_balances_ok C"] keep [of distinct_pubkeys]
        preserves_for_each wf.deposit_inv bal.deposit_inv keys.deposit_inv i)+
  then show "state_wf C g" "registry_balances_ok C g" "distinct_pubkeys g"
    by (simp_all add: g state_wf_def registry_balances_ok_def distinct_pubkeys_def comp_def)
qed

text \<open>
  C3: Every state reached from a genesis state by importing blocks is well-formed (the fixed-size vectors
  keep their lengths, there is one balance per validator), its effective balances are whole increments or
  the maximum, no public key occurs twice, and each validator of an earlier state of the chain is still there,
  with its key, its slashing and its scheduled epochs.
\<close>

theorem chain_state_invariants:
  assumes "genesis_beacon_state C BLS ds time eth1 = Ok g" "import_chain C BLS g s" "import_chain C BLS s t"
  shows "state_wf C t \<and> registry_balances_ok C t \<and> distinct_pubkeys t \<and> registry_grows C s t"
proof -
  have t: "import_chain C BLS g t" using import_chain_trans assms(2,3) by blast
  have "registry_grows C s t"
    using import_chain_preserves [OF assms(3), of "registry_grows C s"] life.execute_block_inv by simp
  moreover have "state_wf C t" "registry_balances_ok C t" "distinct_pubkeys t"
    using import_chain_preserves [OF t, of "state_wf C"] import_chain_preserves [OF t, of "registry_balances_ok C"]
      import_chain_preserves [OF t, of distinct_pubkeys] genesis_invariants [OF assms(1)]
      wf.execute_block_inv bal.execute_block_inv keys.execute_block_inv by simp_all
  ultimately show ?thesis by blast
qed

section \<open>Finality along a chain\<close>

lemma justifier_process_order:
  assumes run: "justifier_process R pc cc j = (Ok (), j')" and len: "length (j_justification_bits j) = 4"
    and le: "checkpoint_epoch R (j_finalized_checkpoint j) \<le> checkpoint_epoch R (j_previous_justified_checkpoint j)"
      "checkpoint_epoch R (j_previous_justified_checkpoint j) \<le> checkpoint_epoch R (j_current_justified_checkpoint j)"
      "checkpoint_epoch R (j_current_justified_checkpoint j) \<le> checkpoint_epoch R pc"
      "checkpoint_epoch R pc \<le> checkpoint_epoch R cc"
  shows "checkpoint_epoch R (j_finalized_checkpoint j) \<le> checkpoint_epoch R (j_finalized_checkpoint j')"
    "checkpoint_epoch R (j_finalized_checkpoint j') \<le> checkpoint_epoch R (j_previous_justified_checkpoint j')"
    "checkpoint_epoch R (j_previous_justified_checkpoint j') \<le> checkpoint_epoch R (j_current_justified_checkpoint j')"
    "checkpoint_epoch R (j_current_justified_checkpoint j') \<le> checkpoint_epoch R cc"
    "length (j_justification_bits j') = 4"
proof -
  let ?cj = "j_current_justified_checkpoint j" and ?pj = "j_previous_justified_checkpoint j"
  let ?ep = "checkpoint_epoch R"
  obtain b0 b1 b2 smp smc where bits: "j_justification_bits j' = [smc, smp \<or> b0, b1, b2]"
    and prev: "j_previous_justified_checkpoint j' = ?cj"
    and cur: "j_current_justified_checkpoint j' = (if smc then cc else if smp then pc else ?cj)"
    and chain: "j_finalized_checkpoint j' =
      (if smc \<and> (smp \<or> b0) \<and> ?ep ?cj + 1 = ?ep cc then ?cj
       else if smc \<and> (smp \<or> b0) \<and> b1 \<and> ?ep ?cj + 2 = ?ep cc then ?cj
       else if (smp \<or> b0) \<and> b1 \<and> ?ep ?pj + 2 = ?ep cc then ?pj
       else if (smp \<or> b0) \<and> b1 \<and> b2 \<and> ?ep ?pj + 3 = ?ep cc then ?pj
       else j_finalized_checkpoint j)"
    by (rule justifier_process_Ok [OF run len])
  have fin: "j_finalized_checkpoint j' = ?cj \<or> j_finalized_checkpoint j' = ?pj \<or>
      j_finalized_checkpoint j' = j_finalized_checkpoint j"
    using if_chain [OF chain] by blast
  show "checkpoint_epoch R (j_finalized_checkpoint j) \<le> checkpoint_epoch R (j_finalized_checkpoint j')"
    "checkpoint_epoch R (j_finalized_checkpoint j') \<le> checkpoint_epoch R (j_previous_justified_checkpoint j')"
    unfolding prev using fin le(1,2) order_trans [OF le(1,2)] by (elim disjE; simp)+
  show "checkpoint_epoch R (j_previous_justified_checkpoint j') \<le> checkpoint_epoch R (j_current_justified_checkpoint j')"
    "checkpoint_epoch R (j_current_justified_checkpoint j') \<le> checkpoint_epoch R cc"
    unfolding prev cur using le(3,4) order_trans [OF le(3,4)] by simp_all
  show "length (j_justification_bits j') = 4" using bits by simp
qed

definition finality_ok :: "Config \<Rightarrow> BeaconState \<Rightarrow> bool" where
  "finality_ok C s \<longleftrightarrow>
     length (justification_bits s) = 4 \<and>
     epoch (finalized_checkpoint s) \<le> epoch (previous_justified_checkpoint s) \<and>
     epoch (previous_justified_checkpoint s) \<le> epoch (current_justified_checkpoint s) \<and>
     epoch (current_justified_checkpoint s) \<le> previous_epoch C s"

interpretation ffg_frame: epoch_body_invariant C "\<lambda>s. state_justifier s = j \<and> slot s = k" for C j k
  by unfold_locales (simp_all add: state_justifier_def)

interpretation ffg_frame: block_invariant C "\<lambda>s. state_justifier s = j \<and> slot s = k" for C j k
  by unfold_locales (simp_all add: state_justifier_def)

definition finality_le :: "BeaconState \<Rightarrow> BeaconState \<Rightarrow> bool" where
  "finality_le s t \<longleftrightarrow> epoch (finalized_checkpoint s) \<le> epoch (finalized_checkpoint t)"

lemma previous_epoch_unat:
  "genesis_epoch C = 0 \<Longrightarrow> unat (previous_epoch C s) = unat (current_epoch C s) - 1"
  by (auto simp: previous_epoch_def Let_def unat_saturating_sub)

lemma justification_order:
  assumes run: "process_justification_and_finalization C s = (Ok (), t)" and ok: "finality_ok C s"
    and g: "genesis_epoch C = 0"
  shows "finality_le s t \<and> length (justification_bits t) = 4 \<and>
    epoch (finalized_checkpoint t) \<le> epoch (previous_justified_checkpoint t) \<and>
    epoch (previous_justified_checkpoint t) \<le> epoch (current_justified_checkpoint t) \<and>
    epoch (current_justified_checkpoint t) \<le> current_epoch C s"
proof -
  have pe: "previous_epoch C s \<le> current_epoch C s"
    using previous_epoch_unat [OF g, of s] by (simp add: word_le_nat_alt)
  show ?thesis
  proof (cases "current_epoch C s \<le> genesis_epoch C + 1")
    case True
    then have "t = s" using run by (simp add: process_justification_and_finalization_def exec_ok)
    then show ?thesis using ok pe order_trans by (auto simp: finality_ok_def finality_le_def)
  next
    case False
    then obtain pr cr j where
      j: "justifier_process (executive_registry C s) \<lparr>epoch = previous_epoch C s, root = pr\<rparr>
          \<lparr>epoch = current_epoch C s, root = cr\<rparr> (state_justifier s) = (Ok (), j)"
      and t: "t = with_justifier j s"
      using run by (auto simp: process_justification_and_finalization_def exec_ok run_local_Ok)
    have ep: "checkpoint_epoch (executive_registry C s) = epoch" by (simp add: executive_registry_def)
    note order = justifier_process_order [OF j, unfolded ep, simplified]
    show ?thesis
      using order ok pe by (simp add: t finality_ok_def finality_le_def state_justifier_def with_justifier_def)
  qed
qed

lemma process_epoch_order:
  assumes run: "process_epoch C s = (Ok (), t)" and ok: "finality_ok C s" and g: "genesis_epoch C = 0"
  shows "finality_le s t \<and> length (justification_bits t) = 4 \<and>
    epoch (finalized_checkpoint t) \<le> epoch (previous_justified_checkpoint t) \<and>
    epoch (previous_justified_checkpoint t) \<le> epoch (current_justified_checkpoint t) \<and>
    epoch (current_justified_checkpoint t) \<le> current_epoch C s \<and> slot t = slot s"
proof -
  obtain s1 where s1: "process_justification_and_finalization C s = (Ok (), s1)"
    and rest: "eseq (process_rewards_and_penalties C) (eseq (process_registry_updates C) (eseq (process_slashings C)
      (process_final_updates C))) s1 = (Ok (), t)"
    using run unfolding process_epoch_def eseq_eq_Ok by blast
  let ?I = "\<lambda>u. state_justifier u = state_justifier s1 \<and> slot u = slot s1"
  have "preserves ?I (eseq (process_rewards_and_penalties C) (eseq (process_registry_updates C)
      (eseq (process_slashings C) (process_final_updates C))))"
    by (intro preserves_eseq ffg_frame.rewards_inv ffg_frame.registry_updates_inv ffg_frame.slashings_inv
        ffg_frame.final_updates_inv)
  from preservesD [OF this _ rest] have t: "state_justifier t = state_justifier s1" "slot t = slot s1" by simp_all
  have "slot s1 = slot s"
    using preservesD [of "\<lambda>u. slot u = slot s", OF slot_frame.justification_inv _ s1] by simp
  then show ?thesis
    using justification_order [OF s1 ok g] t by (simp add: state_justifier_def finality_le_def)
qed

lemma epoch_of_next_slot:
  assumes "slot s < n"
  shows "epoch_of_slot C (slot s) \<le> epoch_of_slot C (slot s + 1)"
    "(slot s + 1) mod slots_per_epoch C = 0 \<Longrightarrow> slots_per_epoch C \<noteq> 0 \<Longrightarrow>
     unat (epoch_of_slot C (slot s + 1)) = unat (epoch_of_slot C (slot s)) + 1"
proof -
  have u: "unat (slot s + 1) = unat (slot s) + 1"
    using assms unsigned_less [of n, where ?'a = nat] by (simp add: word_less_nat_alt unat_word_ariths)
  show "epoch_of_slot C (slot s) \<le> epoch_of_slot C (slot s + 1)"
    by (simp add: epoch_of_slot_def word_le_nat_alt unat_div u div_le_mono)
  assume "(slot s + 1) mod slots_per_epoch C = 0" "slots_per_epoch C \<noteq> 0"
  then have "Suc (unat (slot s)) mod unat (slots_per_epoch C) = 0"
    using u by (metis Suc_eq_plus1 unat_0 unat_mod)
  then show "unat (epoch_of_slot C (slot s + 1)) = unat (epoch_of_slot C (slot s)) + 1"
    by (simp add: epoch_of_slot_def unat_div u div_Suc)
qed

lemma process_slot_justifier:
  "process_slot C s = (Ok (), t) \<Longrightarrow> state_justifier t = state_justifier s \<and> slot t = slot s"
  by (auto simp: process_slot_def Let_def state_justifier_def)

lemma slot_step_order:
  assumes run: "slot_step C s = (Ok (), t)" and ok: "finality_ok C s" and g: "genesis_epoch C = 0"
    and n: "slot s < n" and spe: "slots_per_epoch C \<noteq> 0"
  shows "finality_ok C t \<and> finality_le s t"
proof -
  obtain s1 s2 where s1: "process_slot C s = (Ok (), s1)"
    and s2: "(if (slot s1 + 1) mod slots_per_epoch C = 0 then process_epoch C else eret ()) s1 = (Ok (), s2)"
    and t: "t = s2\<lparr>slot := slot s2 + 1\<rparr>"
    using run by (auto simp: slot_step_def exec_ok)
  have j1: "state_justifier s1 = state_justifier s" "slot s1 = slot s" using process_slot_justifier [OF s1] by auto
  then have ce: "current_epoch C s1 = current_epoch C s" "previous_epoch C s1 = previous_epoch C s"
    by (simp_all add: current_epoch_def previous_epoch_def)
  have ok1: "finality_ok C s1" "finality_le s s1"
    using ok j1 ce by (simp_all add: finality_ok_def finality_le_def state_justifier_def)
  have step: "current_epoch C (s2\<lparr>slot := slot s2 + 1\<rparr>) = epoch_of_slot C (slot s + 1)" if "slot s2 = slot s"
    using that by (simp add: current_epoch_def)
  show ?thesis
  proof (cases "(slot s1 + 1) mod slots_per_epoch C = 0")
    case False
    then have "s2 = s1" using s2 by simp
    moreover have "previous_epoch C s \<le> previous_epoch C t"
      using epoch_of_next_slot(1) [OF n, of C] step j1 calculation
      by (simp add: word_le_nat_alt previous_epoch_unat [OF g] t current_epoch_def diff_le_mono)
    ultimately show ?thesis using ok1 ce order_trans
      by (auto simp: t finality_ok_def finality_le_def)
  next
    case True
    then have pe: "process_epoch C s1 = (Ok (), s2)" using s2 by simp
    note ord = process_epoch_order [OF pe ok1(1) g]
    then have "slot s2 = slot s" using j1 by simp
    then have "unat (previous_epoch C t) = unat (current_epoch C s)"
      using epoch_of_next_slot(2) [OF n, of C] True spe j1
      by (simp add: previous_epoch_unat [OF g] t current_epoch_def)
    then have "current_epoch C s = previous_epoch C t" by (simp add: word_unat_eq_iff)
    then show ?thesis using ord ok1(2) ce order_trans by (auto simp: t finality_ok_def finality_le_def)
  qed
qed


lemma slots_loop_order:
  assumes "genesis_epoch C = 0" "slots_per_epoch C \<noteq> 0"
    and "slots_loop C n s = (Ok (), t)" "finality_ok C s"
  shows "finality_ok C t \<and> finality_le s t"
  using assms
proof (induction C n s rule: slots_loop.induct)
  case (1 C n s)
  show ?case
  proof (cases "slot s < n")
    case False
    then show ?thesis using 1(4,5) by (subst (asm) slots_loop.simps) (simp add: finality_le_def)
  next
    case True
    then obtain u where u: "slot_step C s = (Ok (), u)" "slots_loop C n u = (Ok (), t)"
      using 1(4) by (subst (asm) slots_loop.simps) (auto simp: ebind_eq_Ok)
    have su: "finality_ok C u" "finality_le s u"
      using slot_step_order [OF u(1) 1(5) 1(2) True 1(3)] by auto
    have "finality_ok C t \<and> finality_le u t" by (rule 1(1) [OF True u(1) 1(2,3) u(2) su(1)])
    then show ?thesis using su(2) by (auto simp: finality_le_def)
  qed
qed

lemma process_block_order:
  assumes "process_block C BLS block s = (Ok (), t)" "finality_ok C s"
  shows "finality_ok C t \<and> finality_le s t"
proof -
  have "state_justifier t = state_justifier s \<and> slot t = slot s"
    using preservesD [OF ffg_frame.process_block_inv [of "state_justifier s" "slot s"] _ assms(1)] by simp
  then show ?thesis
    using assms(2) by (simp add: finality_ok_def finality_le_def state_justifier_def previous_epoch_def current_epoch_def)
qed

lemma execute_block_order:
  assumes "genesis_epoch C = 0" "slots_per_epoch C \<noteq> 0"
    and "execute_block C BLS block s = (Ok (), t)" "finality_ok C s"
  shows "finality_ok C t \<and> finality_le s t"
proof -
  obtain u where "slots_loop C (block_slot (Sealed block)) s = (Ok (), u)" "process_block C BLS (Sealed block) u = (Ok (), t)"
    using assms(3) by (auto simp: execute_block_def state_transition_def process_slots_def exec_ok)
  then show ?thesis
    using slots_loop_order [OF assms(1,2) _ assms(4)] process_block_order by (fastforce simp: finality_le_def)
qed

lemma import_chain_order:
  assumes "import_chain C BLS s t" "genesis_epoch C = 0" "slots_per_epoch C \<noteq> 0" "finality_ok C s"
  shows "finality_ok C t \<and> finality_le s t"
  using assms
proof (induction rule: import_chain.induct)
  case (import_chain_none s)
  then show ?case by (simp add: finality_le_def)
next
  case (import_chain_block s t block u)
  then show ?case using execute_block_order [OF _ _ import_chain_block(2)] by (fastforce simp: finality_le_def)
qed

lemma genesis_finality_ok:
  assumes "genesis_beacon_state C BLS ds time eth1 = Ok g"
  shows "finality_ok C g"
proof -
  obtain s where run: "for_each ds (process_deposit C BLS) (genesis_initial C time eth1) = (Ok (), s)"
    and g: "g = s\<lparr>validators := map (genesis_activate C) (validators s)\<rparr>"
    using genesis_deposits [OF assms] .
  let ?i = "genesis_initial C time eth1"
  have "state_justifier s = state_justifier ?i \<and> slot s = slot ?i"
    using preservesD [OF preserves_for_each [OF ffg_frame.deposit_inv [of "state_justifier ?i" "slot ?i"]] _ run] by simp
  then show ?thesis
    by (simp add: g state_justifier_def finality_ok_def genesis_initial_def BeaconState_default_def Let_def
        Checkpoint_default_def JustificationBitsLength_def)
qed

text \<open>
  C2: Along every chain of imported blocks from genesis the checkpoints stay ordered: the finalized epoch is
  at most the previously justified one, that at most the currently justified one, and that at most the
  previous epoch; and importing more blocks never moves the finalized epoch back.
\<close>

theorem chain_finality:
  assumes "genesis_epoch C = 0" "config_ok C"
    and "genesis_beacon_state C BLS ds time eth1 = Ok g" "import_chain C BLS g s" "import_chain C BLS s t"
  shows "epoch (finalized_checkpoint s) \<le> epoch (finalized_checkpoint t) \<and>
    epoch (finalized_checkpoint t) \<le> epoch (previous_justified_checkpoint t) \<and>
    epoch (previous_justified_checkpoint t) \<le> epoch (current_justified_checkpoint t) \<and>
    epoch (current_justified_checkpoint t) \<le> previous_epoch C t"
proof -
  have spe: "slots_per_epoch C \<noteq> 0" using assms(2) by (auto simp: config_ok_def)
  have s: "finality_ok C s"
    using import_chain_order [OF assms(4,1) spe genesis_finality_ok [OF assms(3)]] by simp
  show ?thesis
    using import_chain_order [OF assms(5,1) spe s] by (simp add: finality_ok_def finality_le_def)
qed

section \<open>Advancing slots\<close>

lemma unat_slot_plus_1: "(k :: u64) < n \<Longrightarrow> unat (k + 1) = unat k + 1"
  using unsigned_less [of n, where ?'a = nat] by (simp add: word_less_nat_alt unat_word_ariths)

lemma slots_loop_iterates:
  "slot s \<le> n \<Longrightarrow> slots_loop C n s = for_each (replicate (unat n - unat (slot s)) ()) (\<lambda>_. slot_step C) s"
proof (induction C n s rule: slots_loop.induct)
  case (1 C n s)
  show ?case
  proof (cases "slot s < n")
    case False
    then show ?thesis using 1(2) by (subst slots_loop.simps) (simp add: eret_def)
  next
    case True
    have "slots_loop C n u = for_each (replicate (unat n - unat (slot s) - 1) ()) (\<lambda>_. slot_step C) u"
      if u: "slot_step C s = (Ok (), u)" for u
    proof -
      have su: "unat (slot u) = unat (slot s) + 1" using slot_step_slot [OF u] unat_slot_plus_1 [OF True] by simp
      then have "slot u \<le> n" using True by (simp add: word_le_nat_alt word_less_nat_alt)
      then show ?thesis using 1(1) [OF True u] su by simp
    qed
    moreover have "unat n - unat (slot s) = Suc (unat n - unat (slot s) - 1)"
      using True by (simp add: word_less_nat_alt)
    then have "replicate (unat n - unat (slot s)) () = () # replicate (unat n - unat (slot s) - 1) ()" by simp
    ultimately show ?thesis using True
      by (subst slots_loop.simps) (auto simp: eseq_def ebind_def split: prod.splits res.splits)
  qed
qed

lemma slot_steps_slot:
  "for_each (replicate k ()) (\<lambda>_. slot_step C) s = (Ok (), t) \<Longrightarrow> slot t = slot s + of_nat k"
  by (induction k arbitrary: s) (auto simp: eseq_eq_Ok dest!: slot_step_slot)

text \<open>Advancing by one slot within an epoch cannot fail.\<close>

definition next_slot :: "Config \<Rightarrow> BeaconState \<Rightarrow> BeaconState" where
  "next_slot C s = (snd (process_slot C s))\<lparr>slot := slot s + 1\<rparr>"

lemma process_slots_next:
  assumes "(slot s + 1) mod slots_per_epoch C \<noteq> 0" "slot s < n" "n = slot s + 1"
  shows "process_slots C n s = (Ok (), next_slot C s)"
proof -
  have "slot_step C s = (Ok (), next_slot C s)"
    using assms(1) by (simp add: slot_step_def next_slot_def process_slot_def exec_simps ebind_eget Let_def eseq_def ebind_def)
  moreover have "unat n - unat (slot s) = 1" using unat_slot_plus_1 [OF assms(2)] by (simp add: assms(3))
  ultimately show ?thesis
    using slots_loop_iterates [of s n C] assms(2)
    by (simp add: process_slots_def eseq_def ebind_def ensure_def eret_def not_less)
qed

lemma sample_next_slot:
  "process_slots (MinimalConfig toy_hashing) 9 sample_state = (Ok (), next_slot (MinimalConfig toy_hashing) sample_state)"
proof -
  have "slot sample_state = 8" by (simp add: sample_state_def)
  then show ?thesis by (intro process_slots_next) simp_all
qed

text \<open>
  Advancing to a slot in the past is refused and changes nothing. Otherwise the loop runs its body exactly
  once per slot to advance, and a run that does not fail in an epoch transition ends exactly at the
  target slot.
\<close>

lemma process_slots_iterates:
  "process_slots C n s =
     (if n < slot s then (Err SlotOutOfRange, s)
      else for_each (replicate (unat n - unat (slot s)) ()) (\<lambda>_. slot_step C) s) \<and>
   (\<forall>t. process_slots C n s = (Ok (), t) \<longrightarrow> slot t = n)"
proof -
  have eq: "process_slots C n s = (if n < slot s then (Err SlotOutOfRange, s)
      else for_each (replicate (unat n - unat (slot s)) ()) (\<lambda>_. slot_step C) s)"
    using slots_loop_iterates [of s n C] by (simp add: process_slots_def eseq_def ebind_def ensure_def)
  moreover have "slot t = n" if "process_slots C n s = (Ok (), t)" for t
  proof -
    have "slot s \<le> n" using that eq by (simp split: if_splits)
    then have "slot s + of_nat (unat n - unat (slot s)) = n"
      by (simp add: word_le_nat_alt of_nat_diff)
    then show ?thesis using slot_steps_slot that eq by (metis \<open>slot s \<le> n\<close> linorder_not_le)
  qed
  ultimately show ?thesis by blast
qed


section \<open>The history of block roots\<close>

text \<open>The header of the last block once the root of the state after it is filled in.\<close>

definition filled_header :: "Config \<Rightarrow> BeaconState \<Rightarrow> BeaconBlockHeader" where
  "filled_header C s =
     (if bh_state_root (latest_block_header s) = H256_default
      then (latest_block_header s)\<lparr>bh_state_root := root_state (hashing C) s\<rparr> else latest_block_header s)"

definition last_block_root :: "Config \<Rightarrow> BeaconState \<Rightarrow> H256" where
  "last_block_root C s = root_signing_header (hashing C) (signing_header (filled_header C s))"

interpretation history: epoch_invariant C "\<lambda>s. block_roots s = br \<and> latest_block_header s = h" for C br h
  by unfold_locales (simp_all add: with_justifier_def)

lemma slot_step_history:
  assumes "slot_step C s = (Ok (), t)"
  shows "block_roots t = (block_roots s)[unat (slot s mod slots_per_historical_root C) := last_block_root C s]"
    "latest_block_header t = filled_header C s"
proof -
  obtain s1 s2 where s1: "process_slot C s = (Ok (), s1)"
    and s2: "(if (slot s1 + 1) mod slots_per_epoch C = 0 then process_epoch C else eret ()) s1 = (Ok (), s2)"
    and t: "t = s2\<lparr>slot := slot s2 + 1\<rparr>"
    using assms by (auto simp: slot_step_def exec_ok)
  have "block_roots s2 = block_roots s1 \<and> latest_block_header s2 = latest_block_header s1"
    using s2 preservesD [OF history.process_epoch_inv [of "block_roots s1" "latest_block_header s1"], of s1 C]
    by (auto split: if_splits)
  moreover have "block_roots s1 = (block_roots s)[unat (slot s mod slots_per_historical_root C) := last_block_root C s]"
    "latest_block_header s1 = filled_header C s"
    using s1 by (auto simp: process_slot_def Let_def last_block_root_def filled_header_def)
  ultimately show "block_roots t = (block_roots s)[unat (slot s mod slots_per_historical_root C) := last_block_root C s]"
    "latest_block_header t = filled_header C s" by (simp_all add: t)
qed

lemma slot_steps_history:
  assumes "for_each (replicate k ()) (\<lambda>_. slot_step C) s = (Ok (), t)"
    and "bh_state_root (filled_header C s) \<noteq> H256_default" "unat (slot s) + k < 2 ^ 64"
    and "i < length (block_roots s)"
  shows "block_roots t ! i =
    (if \<exists>j<k. (unat (slot s) + j) mod unat (slots_per_historical_root C) = i then last_block_root C s else block_roots s ! i)"
  using assms
proof (induction k arbitrary: s)
  case (Suc k)
  then obtain u where u: "slot_step C s = (Ok (), u)" "for_each (replicate k ()) (\<lambda>_. slot_step C) u = (Ok (), t)"
    by (auto simp: eseq_eq_Ok)
  note h = slot_step_history [OF u(1)]
  have same: "filled_header C u = filled_header C s" "last_block_root C u = last_block_root C s"
    using Suc.prems(2) h(2) by (simp_all add: last_block_root_def filled_header_def)
  have su: "unat (slot u) = unat (slot s) + 1"
    using slot_step_slot [OF u(1)] Suc.prems(3) by (simp add: unat_word_ariths)
  have split: "(\<exists>j<Suc k. (unat (slot s) + j) mod m = i) \<longleftrightarrow>
      unat (slot s) mod m = i \<or> (\<exists>j<k. (unat (slot u) + j) mod m = i)" for m
    unfolding su by (auto simp: less_Suc_eq_0_disj)
  show ?case
    using Suc.IH [OF u(2)] Suc.prems(2-4) unfolding same split
    by (auto simp: h(1) su unat_mod nth_list_update)
qed simp

lemma mod_window_distinct:
  fixes a b m :: nat
  assumes "a < b" "b < a + m"
  shows "a mod m \<noteq> b mod m"
proof
  assume "a mod m = b mod m"
  then have "m dvd b - a" using assms(1) by (metis mod_eq_dvd_iff_nat less_imp_le)
  then show False using assms by (auto dest: dvd_imp_le)
qed


text \<open>
  C14: After advancing to a slot, the block root of every slot passed over, as far back as the history
  reaches, is the root of the last block, and the recorded block roots of all earlier slots in the
  history are unchanged. The hash of the state is assumed not to be the all-zero default.
\<close>

theorem process_slots_block_roots:
  assumes run: "process_slots C n s = (Ok (), t)" and wf: "state_wf C s" and C: "config_ok C"
    and n: "n < 2 ^ 63" and h: "bh_state_root (filled_header C s) \<noteq> H256_default"
    and q: "q < n" "n \<le> q + slots_per_historical_root C"
  shows "block_root_at_slot C t q =
    (if slot s \<le> q then Ok (last_block_root C s) else block_root_at_slot C s q)"
proof -
  let ?m = "unat (slots_per_historical_root C)" and ?k = "unat n - unat (slot s)"
  have m: "0 < ?m" "?m \<le> 2 ^ 16" using C by (auto simp: config_ok_def word_less_nat_alt word_le_nat_alt)
  have n': "unat n < 2 ^ 63" using n by (simp add: word_less_nat_alt)
  have le: "slot s \<le> n" and steps: "for_each (replicate ?k ()) (\<lambda>_. slot_step C) s = (Ok (), t)"
    using run slots_loop_iterates [of s n C]
    by (auto simp: process_slots_def exec_ok not_less)
  have t: "slot t = n" using slot_steps_slot [OF steps] le by (simp add: word_le_nat_alt of_nat_diff)
  have qn: "unat q < unat n" "unat n \<le> unat q + ?m" "unat (slot s) \<le> unat n"
    using q le n' m(2) by (simp_all add: word_less_nat_alt word_le_nat_alt unat_word_ariths)
  have "block_roots t ! (unat q mod ?m) =
    (if \<exists>j<?k. (unat (slot s) + j) mod ?m = unat q mod ?m then last_block_root C s else block_roots s ! (unat q mod ?m))"
    using slot_steps_history [OF steps h, of "unat q mod ?m"] wf m(1) n' qn(3) by (simp add: state_wf_def)
  moreover have "(\<exists>j<?k. (unat (slot s) + j) mod ?m = unat q mod ?m) \<longleftrightarrow> slot s \<le> q"
  proof
    assume "slot s \<le> q"
    then have "unat (slot s) + (unat q - unat (slot s)) = unat q" "unat q - unat (slot s) < ?k"
      using qn by (simp_all add: word_le_nat_alt)
    then show "\<exists>j<?k. (unat (slot s) + j) mod ?m = unat q mod ?m" by metis
  next
    assume "\<exists>j<?k. (unat (slot s) + j) mod ?m = unat q mod ?m"
    then obtain j where j: "j < ?k" "(unat (slot s) + j) mod ?m = unat q mod ?m" by blast
    show "slot s \<le> q"
    proof (rule ccontr)
      assume "\<not> slot s \<le> q"
      then have "unat q < unat (slot s) + j" "unat (slot s) + j < unat q + ?m"
        using qn j(1) by (simp_all add: word_le_nat_alt)
      then show False using mod_window_distinct j(2) by metis
    qed
  qed
  ultimately have b: "block_roots t ! (unat q mod ?m) =
      (if slot s \<le> q then last_block_root C s else block_roots s ! (unat q mod ?m))" by simp
  have "q < slot s \<Longrightarrow> slot s \<le> q + slots_per_historical_root C" using le q(2) by simp
  then show ?thesis using b q t by (auto simp: block_root_at_slot_def unat_mod)
qed

theorem process_slots_block_roots_witness:
  "\<exists>t. process_slots (MinimalConfig toy_hashing) 9 sample_state = (Ok (), t) \<and>
     block_root_at_slot (MinimalConfig toy_hashing) t 8 = Ok (last_block_root (MinimalConfig toy_hashing) sample_state)"
proof -
  let ?C = "MinimalConfig toy_hashing"
  have "bh_state_root (filled_header ?C sample_state) \<noteq> H256_default" "slot sample_state = 8" by code_simp+
  then show ?thesis
    using process_slots_block_roots [OF sample_next_slot, of 8] sample_next_slot by simp
qed

section \<open>A small chain\<close>

definition genesis_deposit :: "u8 \<Rightarrow> Deposit" where
  "genesis_deposit k = sample_deposit\<lparr>dep_data := (dep_data sample_deposit)\<lparr>dd_pubkey := replicate 48 k\<rparr>\<rparr>"

definition sample_eth1 :: Eth1Data where
  "sample_eth1 = \<lparr>deposit_root = to_bytes 32000000000, deposit_count = 3, block_hash = replicate 32 5\<rparr>"

definition sample_genesis :: BeaconState where
  "sample_genesis = (case genesis_beacon_state (MinimalConfig toy_hashing) BLSNoVerification
     (map genesis_deposit [1, 2, 3]) 0 sample_eth1 of Ok s \<Rightarrow> s | _ \<Rightarrow> sample_state)"

definition sample_block :: "u64 \<Rightarrow> u64 \<Rightarrow> BeaconBlock" where
  "sample_block parent slt = BeaconBlock_default\<lparr>bb_slot := slt, bb_parent_root := to_bytes (parent + 1),
     bb_state_root := to_bytes (slt + 1)\<rparr>"

definition sample_head :: BeaconState where
  "sample_head = snd (execute_block (MinimalConfig toy_hashing) BLSNoVerification (sample_block 0 1) sample_genesis)"

lemma sample_genesis_Ok:
  "genesis_beacon_state (MinimalConfig toy_hashing) BLSNoVerification
     (map genesis_deposit [1, 2, 3]) 0 sample_eth1 = Ok sample_genesis" (is "?g = _")
  and sample_genesis_slot: "slot sample_genesis = 0"
proof -
  have "case ?g of Ok s \<Rightarrow> slot s = 0 | _ \<Rightarrow> False" by code_simp
  then show "?g = Ok sample_genesis" "slot sample_genesis = 0" unfolding sample_genesis_def by (cases ?g; simp)+
qed

lemma sample_head_Ok:
  "execute_block (MinimalConfig toy_hashing) BLSNoVerification (sample_block 0 1) sample_genesis = (Ok (), sample_head)"
proof -
  let ?C = "MinimalConfig toy_hashing" and ?B = "Sealed (sample_block 0 1)"
  let ?m = "eseq (process_block ?C BLSNoVerification ?B)
    (ensure (\<lambda>s. block_state_root ?B = root_state (hashing ?C) s) BlockStateRootInvalid)"
  have "fst (?m (next_slot ?C sample_genesis)) = Ok ()" by code_simp
  then have m: "?m (next_slot ?C sample_genesis) = (Ok (), snd (?m (next_slot ?C sample_genesis)))"
    by (metis prod.collapse)
  have "process_slots ?C (block_slot ?B) sample_genesis = (Ok (), next_slot ?C sample_genesis)"
    by (rule process_slots_next) (simp_all add: sample_genesis_slot sample_block_def)
  then have run: "execute_block ?C BLSNoVerification (sample_block 0 1) sample_genesis = ?m (next_slot ?C sample_genesis)"
    by (simp add: execute_block_def state_transition_def eseq_run)
  show ?thesis unfolding sample_head_def run by (rule m)
qed

lemma sample_chain:
  "import_chain (MinimalConfig toy_hashing) BLSNoVerification sample_genesis sample_head"
  using import_chain_block [OF import_chain_none sample_head_Ok] .

theorem chain_state_invariants_witness:
  "import_chain (MinimalConfig toy_hashing) BLSNoVerification sample_genesis sample_head \<and>
   distinct_pubkeys sample_head \<and> registry_grows (MinimalConfig toy_hashing) sample_genesis sample_head"
  using chain_state_invariants [OF sample_genesis_Ok import_chain_none sample_chain] sample_chain by blast

theorem chain_finality_witness:
  "import_chain (MinimalConfig toy_hashing) BLSNoVerification sample_genesis sample_head \<and>
   epoch (current_justified_checkpoint sample_head) \<le> previous_epoch (MinimalConfig toy_hashing) sample_head"
  using chain_finality [OF _ _ sample_genesis_Ok import_chain_none sample_chain] sample_chain by simp


end
