(* ===== verification/Block_Authoring.thy ===== *)
theory Block_Authoring
  imports State_Transition
begin

text \<open>
  Authoring against importing. A block built with the functions of \<^verbatim>\<open>lib.rs\<close> is processed in another order
  than an imported one: the author runs the header last, on the state the operations left. The two agree because
  no method but the header reads the latest header, and because neither the operations nor the randomness
  of a block change who proposes it.
\<close>

section \<open>The proposer is stable within a block\<close>

lemma next_exit_epoch_future:
  assumes C: "config_ok C" and ce: "current_epoch C s < 2 ^ 62"
  shows "current_epoch C s < next_exit_epoch C s"
proof -
  define es where "es = filter (\<lambda>ep. ep \<noteq> FAR_FUTURE_EPOCH) (map exit_epoch (validators s))"
  define q where "q = max (foldl max 0 es) (activation_exit_epoch C (current_epoch C s))"
  have uc: "unat (current_epoch C s) < 2 ^ 62" using ce by (simp add: word_less_nat_alt)
  have ul: "unat (max_seed_lookahead C) \<le> 2 ^ 10" using C by (simp add: config_ok_def word_le_nat_alt)
  have ua: "unat (activation_exit_epoch C (current_epoch C s)) = unat (current_epoch C s) + 1 + unat (max_seed_lookahead C)"
    using uc ul by (simp add: activation_exit_epoch_def unat_word_ariths)
  have far: "x < FAR_FUTURE_EPOCH" if "x \<in> set es" for x using that by (auto simp: es_def less_FAR_FUTURE_EPOCH_iff)
  have "x \<le> FAR_FUTURE_EPOCH - 1" if "x \<in> set es" for x
    using far [OF that] by (simp add: word_le_nat_alt word_less_nat_alt FAR_FUTURE_EPOCH_def unsigned_minus_1_eq_mask mask_eq_exp_minus_1)
  then have "foldl max 0 es \<le> FAR_FUTURE_EPOCH - 1" by (intro foldl_max_le) simp_all
  moreover have "activation_exit_epoch C (current_epoch C s) \<le> FAR_FUTURE_EPOCH - 1"
    using ua uc ul by (simp add: word_le_nat_alt FAR_FUTURE_EPOCH_def unsigned_minus_1_eq_mask mask_eq_exp_minus_1)
  ultimately have "unat q < 2 ^ 64 - 1"
    by (simp add: q_def max_def word_le_nat_alt FAR_FUTURE_EPOCH_def split: if_splits)
  then have uq: "unat (q + 1) = unat q + 1" by (simp add: unat_word_ariths)
  have "unat (current_epoch C s) < unat q" using ua by (auto simp: q_def max_def word_le_nat_alt)
  then show ?thesis using uq by (simp add: next_exit_epoch_def Let_def flip: es_def q_def) (simp add: word_less_nat_alt)
qed

lemma less_far_future: "e < 2 ^ 62 \<Longrightarrow> e < FAR_FUTURE_EPOCH"
  by (rule order_less_le_trans) (simp_all add: FAR_FUTURE_EPOCH_def)

definition proposer_frame :: "Config \<Rightarrow> BeaconState \<Rightarrow> BeaconState \<Rightarrow> bool" where
  "proposer_frame C s t \<longleftrightarrow> config_ok C \<and> current_epoch C s < 2 ^ 62 \<and> same_proposer_inputs C s t"

lemma seed_frame:
  "randao_mixes t = randao_mixes s \<Longrightarrow> seed C t = seed C s"
  by (simp add: fun_eq_iff seed_def randao_mix_def)

lemma active_indices_frame:
  "validators t = validators s \<Longrightarrow> active_validator_indices t = active_validator_indices s"
  by (simp add: fun_eq_iff active_validator_indices_def)

lemma same_proposer_inputs_epoch: "same_proposer_inputs C s t \<Longrightarrow> current_epoch C t = current_epoch C s"
  by (simp add: same_proposer_inputs_def current_epoch_def)

text \<open>A write outside slot, randomness and registry.\<close>

lemma proposer_frame_other:
  "proposer_frame C s t \<Longrightarrow> slot u = slot t \<Longrightarrow> randao_mixes u = randao_mixes t \<Longrightarrow> validators u = validators t \<Longrightarrow>
   proposer_frame C s u"
  by (simp add: proposer_frame_def same_proposer_inputs_def seed_frame [of u t] active_indices_frame [of u t])

lemma proposer_frame_exit:
  assumes fr: "proposer_frame C s t" and i: "i < length (validators t)" and st: "exit_step C t (validators t ! i) v"
  shows "proposer_frame C s (t\<lparr>validators := (validators t)[i := v]\<rparr>)"
proof -
  have ce: "current_epoch C t = current_epoch C s" "current_epoch C s < 2 ^ 62" "config_ok C"
    using fr same_proposer_inputs_epoch by (auto simp: proposer_frame_def)
  have "is_active v (current_epoch C s) = is_active (validators t ! i) (current_epoch C s)"
    using st next_exit_epoch_future [of C t] ce less_far_future by (auto simp: exit_step_def is_active_def)
  then show ?thesis
    using fr i st active_validator_indices_update [OF i, of v "current_epoch C s"]
    by (auto simp: proposer_frame_def same_proposer_inputs_def exit_step_def nth_list_update
        seed_frame [of "t\<lparr>validators := (validators t)[i := v]\<rparr>" t])
qed

lemma proposer_frame_push:
  assumes fr: "proposer_frame C s t" and v: "activation_epoch v = FAR_FUTURE_EPOCH"
  shows "proposer_frame C s (t\<lparr>validators := validators t @ [v], balances := bs\<rparr>)"
proof -
  let ?u = "t\<lparr>validators := validators t @ [v], balances := bs\<rparr>"
  have "current_epoch C s < FAR_FUTURE_EPOCH"
    using fr less_far_future by (simp add: proposer_frame_def)
  then have "\<not> is_active v (current_epoch C s)" using v by (simp add: is_active_def not_le)
  then have "active_validator_indices ?u (current_epoch C s) = active_validator_indices t (current_epoch C s)"
    by (simp add: active_validator_indices_def enumerate_append_eq)
  then show ?thesis
    using fr by (auto simp: proposer_frame_def same_proposer_inputs_def seed_frame [of ?u t] nth_append)
qed

interpretation proposer: operations_invariant C "proposer_frame C s" for C s
  by unfold_locales
    (auto intro: proposer_frame_exit proposer_frame_push elim: proposer_frame_other simp: deposit_validator_def)


text \<open>The randomness of the current epoch is not the one its proposers are drawn from.\<close>

lemma seed_other_mix:
  assumes C: "config_ok C" and ce: "ce < 2 ^ 62"
  shows "seed C (t\<lparr>randao_mixes := (randao_mixes t)[unat (ce mod epochs_per_historical_vector C) := m]\<rparr>) ce d = seed C t ce d"
proof -
  let ?V = "unat (epochs_per_historical_vector C)" and ?L = "unat (min_seed_lookahead C)"
  have C': "?L + 1 < ?V" "?V \<le> 2 ^ 16" "unat ce < 2 ^ 62"
    using C ce by (auto simp: config_ok_def word_less_nat_alt word_le_nat_alt unat_word_ariths)
  have u: "unat (ce + epochs_per_historical_vector C - min_seed_lookahead C - 1) = unat ce + ?V - ?L - 1"
    using C' by (simp add: unat_word_ariths unat_sub_if_size word_size)
  have "unat ce mod ?V \<noteq> (unat ce + ?V - ?L - 1) mod ?V"
    using C' by (intro mod_window_distinct) simp_all
  then show ?thesis by (simp add: seed_def randao_mix_def unat_mod u)
qed

lemma process_randao_proposer: "preserves (proposer_frame C s) (process_randao C BLS body)"
proof -
  have "proposer_frame C s (t\<lparr>randao_mixes := (randao_mixes t)[unat (current_epoch C t mod epochs_per_historical_vector C) := m]\<rparr>)"
    if fr: "proposer_frame C s t" for t m
  proof -
    have ce: "current_epoch C t = current_epoch C s" "current_epoch C s < 2 ^ 62" "config_ok C"
      using fr same_proposer_inputs_epoch by (auto simp: proposer_frame_def)
    then show ?thesis
      using fr seed_other_mix [OF ce(3,2)]
      by (auto simp: proposer_frame_def same_proposer_inputs_def active_validator_indices_def)
  qed
  then show ?thesis
    unfolding process_randao_def Let_def by (intro preserves_intros preserves_emod)
qed

section \<open>Nothing but the header reads the header\<close>

lemma header_frame [simp]:
  "current_epoch C (s\<lparr>latest_block_header := h\<rparr>) = current_epoch C s"
  "previous_epoch C (s\<lparr>latest_block_header := h\<rparr>) = previous_epoch C s"
  "active_validator_indices (s\<lparr>latest_block_header := h\<rparr>) = active_validator_indices s"
  "randao_mix C (s\<lparr>latest_block_header := h\<rparr>) = randao_mix C s"
  "seed C (s\<lparr>latest_block_header := h\<rparr>) = seed C s"
  "domain C (s\<lparr>latest_block_header := h\<rparr>) = domain C s"
  by (simp_all add: fun_eq_iff current_epoch_def previous_epoch_def active_validator_indices_def randao_mix_def
      seed_def domain_def split: option.splits)

lemma header_frame_derived [simp]:
  "validator_churn_limit C (s\<lparr>latest_block_header := h\<rparr>) = validator_churn_limit C s"
  "next_exit_epoch C (s\<lparr>latest_block_header := h\<rparr>) = next_exit_epoch C s"
  "committee_count_at_slot C (s\<lparr>latest_block_header := h\<rparr>) = committee_count_at_slot C s"
  "indexed_attestation C (s\<lparr>latest_block_header := h\<rparr>) = indexed_attestation C s"
  "is_valid_indexed_attestation C BLS (s\<lparr>latest_block_header := h\<rparr>) = is_valid_indexed_attestation C BLS s"
  by (simp_all add: fun_eq_iff validator_churn_limit_def active_validator_len_def next_exit_epoch_def exit_churn_def
      committee_count_at_slot_def indexed_attestation_def attesting_indices_def beacon_committee_def
      is_valid_indexed_attestation_def Let_def)

lemma header_frame_proposer [simp]:
  "beacon_proposer_index C (s\<lparr>latest_block_header := h\<rparr>) = beacon_proposer_index C s"
proof -
  have "proposer_loop C (s\<lparr>latest_block_header := h\<rparr>) = proposer_loop C s"
    by (intro ext proposer_loop_cong) (simp add: proposer_step_def)
  then show ?thesis by (simp add: beacon_proposer_index_def)
qed

definition set_header :: "BeaconBlockHeader \<Rightarrow> BeaconState \<Rightarrow> BeaconState" where
  "set_header h s = s\<lparr>latest_block_header := h\<rparr>"

lemma set_header_reads:
  "unaffected (set_header h) (eget (\<lambda>s. Ok (current_epoch C s)))"
  "unaffected (set_header h) (eget (\<lambda>s. vec_index (validators s) i))"
  "unaffected (set_header h) (eget (\<lambda>s. vec_index (balances s) i))"
  "unaffected (set_header h) (eget (beacon_proposer_index C))"
  by (simp_all add: unaffected_eget set_header_def)

lemma unaffected_option [frame_intros]:
  "unaffected u m \<Longrightarrow> (\<And>x. unaffected u (k x)) \<Longrightarrow> unaffected u (case v of None \<Rightarrow> m | Some x \<Rightarrow> k x)"
  by (cases v) simp_all

lemmas set_header_intros = frame_intros set_header_reads unaffected_eget unaffected_ensure unaffected_emod

lemma set_header_mutators:
  "unaffected (set_header h) (increase_balance i d)"
  "unaffected (set_header h) (decrease_balance i d)"
  "unaffected (set_header h) (initiate_validator_exit C i)"
  unfolding increase_balance_def decrease_balance_def initiate_validator_exit_def Let_def
  by (intro set_header_intros; simp add: set_header_def)+

lemma set_header_slash: "unaffected (set_header h) (slash_validator C i w)"
  unfolding slash_validator_def Let_def
  by (intro set_header_intros set_header_mutators; simp add: set_header_def)

lemma set_header_slash_attesters: "unaffected (set_header h) (slash_attesters C ks b)"
  by (induction ks arbitrary: b) (auto intro!: set_header_intros set_header_slash simp: set_header_def)

lemma set_header_operations:
  "unaffected (set_header h) (process_randao C BLS body)"
  "unaffected (set_header h) (process_eth1_data C body)"
  "unaffected (set_header h) (process_proposer_slashing C BLS ps)"
  "unaffected (set_header h) (process_attester_slashing C BLS asl)"
  "unaffected (set_header h) (process_attestation C BLS a)"
  "unaffected (set_header h) (process_deposit C BLS d)"
  "unaffected (set_header h) (process_voluntary_exit C BLS e)"
  unfolding process_randao_def process_eth1_data_def process_proposer_slashing_def process_attester_slashing_def
    process_attestation_def process_deposit_def process_voluntary_exit_def verify_proposer_header_def Let_def
  by (intro set_header_intros set_header_mutators set_header_slash set_header_slash_attesters; simp add: set_header_def)+

section \<open>The transactions of a block\<close>

text \<open>One arm of \<^verbatim>\<open>apply_transaction\<close>, for the body field \<open>f\<close> with setter \<open>upd\<close>.\<close>

definition tx_step ::
    "(BeaconBlockBody \<Rightarrow> 'a list) \<Rightarrow> ('a list \<Rightarrow> BeaconBlockBody \<Rightarrow> BeaconBlockBody) \<Rightarrow> u64 \<Rightarrow> error \<Rightarrow>
     ('a \<Rightarrow> unit executive) \<Rightarrow> 'a \<Rightarrow> unit authoring" where
  "tx_step f upd n e m x =
     eseq (body_room f n e) (eseq (on_state (m x)) (with_body (\<lambda>b. upd (f b @ [x]) b)))"

lemma on_state_Ok: "on_state m (b, s) = (Ok x, (b', t)) \<longleftrightarrow> m s = (Ok x, t) \<and> b' = b"
  by (auto simp: on_state_def split: prod.splits)

lemma tx_step_Ok:
  "tx_step f upd n e m x (b, s) = (Ok (), p) \<longleftrightarrow>
   length (f (ub_body b)) < unat n \<and>
   (\<exists>u. m x s = (Ok (), u) \<and> p = (b\<lparr>ub_body := upd (f (ub_body b) @ [x]) (ub_body b)\<rparr>, u))"
  by (auto simp: eseq_eq_Ok tx_step_def body_room_def with_body_def on_state_Ok)

lemma tx_steps:
  assumes "for_each xs (tx_step f upd n e m) (b, s) = (Ok (), (b', t))"
    and "\<And>v c. f (upd v c) = v" "\<And>v w c. upd v (upd w c) = upd v c" "\<And>c. upd (f c) c = c"
  shows "for_each xs m s = (Ok (), t) \<and> b' = b\<lparr>ub_body := upd (f (ub_body b) @ xs) (ub_body b)\<rparr> \<and>
    (xs \<noteq> [] \<longrightarrow> length (f (ub_body b)) + length xs \<le> unat n)"
  using assms(1)
proof (induction xs arbitrary: b s)
  case Nil
  then show ?case by (simp add: assms(4))
next
  case (Cons x xs)
  let ?b = "b\<lparr>ub_body := upd (f (ub_body b) @ [x]) (ub_body b)\<rparr>"
  from Cons.prems obtain u where u: "m x s = (Ok (), u)" "length (f (ub_body b)) < unat n"
    "for_each xs (tx_step f upd n e m) (?b, u) = (Ok (), (b', t))"
    by (auto simp: eseq_eq_Ok tx_step_Ok)
  from Cons.IH [OF u(3)] u(1,2) show ?case
    by (auto simp: eseq_eq_Ok assms(2,3))
qed

lemma apply_transaction_step:
  "apply_transaction C BLS (TxProposerSlashing ps) =
     tx_step proposer_slashings (\<lambda>v b. b\<lparr>proposer_slashings := v\<rparr>) (max_proposer_slashings C)
       TooManyProposerSlashings (process_proposer_slashing C BLS) ps"
  "apply_transaction C BLS (TxAttesterSlashing asl) =
     tx_step attester_slashings (\<lambda>v b. b\<lparr>attester_slashings := v\<rparr>) (max_attester_slashings C)
       TooManyAttesterSlashings (process_attester_slashing C BLS) asl"
  "apply_transaction C BLS (TxAttestation a) =
     tx_step attestations (\<lambda>v b. b\<lparr>attestations := v\<rparr>) (max_attestations C)
       TooManyAttestations (process_attestation C BLS) a"
  "apply_transaction C BLS (TxDeposit d) =
     tx_step deposits (\<lambda>v b. b\<lparr>deposits := v\<rparr>) (max_deposits C) TooManyDeposits (process_deposit C BLS) d"
  "apply_transaction C BLS (TxVoluntaryExit x) =
     tx_step voluntary_exits (\<lambda>v b. b\<lparr>voluntary_exits := v\<rparr>) (max_voluntary_exits C)
       TooManyVoluntaryExits (process_voluntary_exit C BLS) x"
  by (simp_all add: tx_step_def)

text \<open>The transactions of a block, in the order in which an importer processes them.\<close>

definition body_transactions :: "BeaconBlockBody \<Rightarrow> Transaction list" where
  "body_transactions b =
     map TxProposerSlashing (proposer_slashings b) @ map TxAttesterSlashing (attester_slashings b) @
     map TxAttestation (attestations b) @ map TxDeposit (deposits b) @ map TxVoluntaryExit (voluntary_exits b)"

lemma body_transactions_run:
  assumes run: "for_each (body_transactions B) (apply_transaction C BLS) (b, s) = (Ok (), (b', t))"
    and empty: "proposer_slashings (ub_body b) = []" "attester_slashings (ub_body b) = []"
      "attestations (ub_body b) = []" "deposits (ub_body b) = []" "voluntary_exits (ub_body b) = []"
  shows "(\<exists>s1 s2 s3 s4.
      for_each (proposer_slashings B) (process_proposer_slashing C BLS) s = (Ok (), s1) \<and>
      for_each (attester_slashings B) (process_attester_slashing C BLS) s1 = (Ok (), s2) \<and>
      for_each (attestations B) (process_attestation C BLS) s2 = (Ok (), s3) \<and>
      for_each (deposits B) (process_deposit C BLS) s3 = (Ok (), s4) \<and>
      for_each (voluntary_exits B) (process_voluntary_exit C BLS) s4 = (Ok (), t)) \<and>
    b' = b\<lparr>ub_body := (ub_body b)\<lparr>
      proposer_slashings := proposer_slashings B, attester_slashings := attester_slashings B,
      attestations := attestations B, deposits := deposits B, voluntary_exits := voluntary_exits B\<rparr>\<rparr> \<and>
    length (proposer_slashings B) \<le> unat (max_proposer_slashings C) \<and>
    length (attester_slashings B) \<le> unat (max_attester_slashings C) \<and>
    length (attestations B) \<le> unat (max_attestations C) \<and>
    length (deposits B) \<le> unat (max_deposits C) \<and>
    length (voluntary_exits B) \<le> unat (max_voluntary_exits C)"
proof -
  have len: "xs \<noteq> [] \<longrightarrow> length ys + length xs \<le> k \<Longrightarrow> ys = [] \<Longrightarrow> length xs \<le> k" for xs :: "'z list" and ys :: "'z list" and k
    by (cases xs) simp_all
  obtain b1 s1 b2 s2 b3 s3 b4 s4 where
    1: "for_each (proposer_slashings B) (tx_step proposer_slashings (\<lambda>v b. b\<lparr>proposer_slashings := v\<rparr>)
        (max_proposer_slashings C) TooManyProposerSlashings (process_proposer_slashing C BLS)) (b, s) = (Ok (), (b1, s1))" and
    2: "for_each (attester_slashings B) (tx_step attester_slashings (\<lambda>v b. b\<lparr>attester_slashings := v\<rparr>)
        (max_attester_slashings C) TooManyAttesterSlashings (process_attester_slashing C BLS)) (b1, s1) = (Ok (), (b2, s2))" and
    3: "for_each (attestations B) (tx_step attestations (\<lambda>v b. b\<lparr>attestations := v\<rparr>)
        (max_attestations C) TooManyAttestations (process_attestation C BLS)) (b2, s2) = (Ok (), (b3, s3))" and
    4: "for_each (deposits B) (tx_step deposits (\<lambda>v b. b\<lparr>deposits := v\<rparr>) (max_deposits C) TooManyDeposits
        (process_deposit C BLS)) (b3, s3) = (Ok (), (b4, s4))" and
    5: "for_each (voluntary_exits B) (tx_step voluntary_exits (\<lambda>v b. b\<lparr>voluntary_exits := v\<rparr>)
        (max_voluntary_exits C) TooManyVoluntaryExits (process_voluntary_exit C BLS)) (b4, s4) = (Ok (), (b', t))"
    using run
    unfolding body_transactions_def for_each_append for_each_map apply_transaction_step eseq_eq_Ok split_paired_Ex
    by blast
  note r1 = tx_steps [OF 1, simplified] and r2 = tx_steps [OF 2, simplified] and r3 = tx_steps [OF 3, simplified]
    and r4 = tx_steps [OF 4, simplified] and r5 = tx_steps [OF 5, simplified]
  have "b1 = b\<lparr>ub_body := (ub_body b)\<lparr>proposer_slashings := proposer_slashings B\<rparr>\<rparr>" using r1 empty by simp
  moreover from this have b2: "b2 = b1\<lparr>ub_body := (ub_body b1)\<lparr>attester_slashings := attester_slashings B\<rparr>\<rparr>"
    using r2 empty by simp
  moreover from calculation have b3: "b3 = b2\<lparr>ub_body := (ub_body b2)\<lparr>attestations := attestations B\<rparr>\<rparr>"
    using r3 empty by simp
  moreover from calculation have b4: "b4 = b3\<lparr>ub_body := (ub_body b3)\<lparr>deposits := deposits B\<rparr>\<rparr>"
    using r4 empty by simp
  moreover from calculation have b5: "b' = b4\<lparr>ub_body := (ub_body b4)\<lparr>voluntary_exits := voluntary_exits B\<rparr>\<rparr>"
    using r5 empty by simp
  ultimately show ?thesis
    using r1 r2 r3 r4 r5 empty by (intro conjI exI; (simp; fail)?) (auto intro!: len)
qed

section \<open>An authored block is accepted\<close>

text \<open>The header that the state keeps of a block.\<close>

definition header_of :: "Config \<Rightarrow> Block \<Rightarrow> BeaconBlockHeader" where
  "header_of C block = BeaconBlockHeader_default\<lparr>bh_slot := block_slot block,
     bh_parent_root := block_parent_root block, bh_body_root := root_body (hashing C) (block_body block)\<rparr>"

lemma process_block_header_Ok:
  "process_block_header C BLS block s = (Ok (), t) \<longleftrightarrow>
     block_slot block = slot s \<and>
     block_parent_root block = root_signing_header (hashing C) (signing_header (latest_block_header s)) \<and>
     t = set_header (header_of C block) s \<and>
     (\<exists>i v. beacon_proposer_index C s = Ok i \<and> vec_index (validators s) i = (Ok v :: Validator result) \<and> \<not> slashed v \<and>
       (\<forall>sg. block_signature block = Some sg \<longrightarrow>
         verify BLS (pubkey v) (root_unsealed_block (hashing C) (unsealed_from block)) sg
           (domain C s domain_beacon_proposer None)))"
  by (cases "block_signature block")
    (auto simp: process_block_header_def exec_ok set_header_def header_of_def)

text \<open>Sealing: the unsealed block with the author's signature.\<close>

definition seal :: "UnsealedBeaconBlock \<Rightarrow> Signature \<Rightarrow> BeaconBlock" where
  "seal b sg = (fake_seal b)\<lparr>bb_signature := sg\<rparr>"

lemma seal_sel [simp]:
  "bb_slot (seal b sg) = ub_slot b" "bb_parent_root (seal b sg) = ub_parent_root b"
  "bb_state_root (seal b sg) = ub_state_root b" "bb_body (seal b sg) = ub_body b"
  "bb_signature (seal b sg) = sg" "unsealed_from (Sealed (seal b sg)) = b"
  by (simp_all add: seal_def fake_seal_def unsealed_from_def)

lemma process_slots_slot: "process_slots C n s = (Ok (), t) \<Longrightarrow> slot t = n"
proof -
  assume run: "process_slots C n s = (Ok (), t)"
  then have le: "slot s \<le> n" and "slots_loop C n s = (Ok (), t)" by (auto simp: process_slots_def exec_ok not_less)
  then have "for_each (replicate (unat n - unat (slot s)) ()) (\<lambda>_. slot_step C) s = (Ok (), t)"
    using slots_loop_iterates [OF le, of C] by simp
  from slot_steps_slot [OF this] show ?thesis using le by (simp add: word_le_nat_alt of_nat_diff)
qed

text \<open>Everything an author does on the state between the empty block and the header.\<close>

definition author_body :: "Config \<Rightarrow> BLSConfig \<Rightarrow> BeaconBlockBody \<Rightarrow> unit executive" where
  "author_body C BLS body =
     eseq (process_randao C BLS body) (
     eseq (process_eth1_data C body) (
     eseq (for_each (proposer_slashings body) (process_proposer_slashing C BLS)) (
     eseq (for_each (attester_slashings body) (process_attester_slashing C BLS)) (
     eseq (for_each (attestations body) (process_attestation C BLS)) (
     eseq (for_each (deposits body) (process_deposit C BLS))
       (for_each (voluntary_exits body) (process_voluntary_exit C BLS)))))))"

lemma author_body_frames:
  "unaffected (set_header h) (author_body C BLS body)"
  "preserves (proposer_frame C s) (author_body C BLS body)"
  "preserves (registry_grows C s) (author_body C BLS body)"
  "preserves (\<lambda>t. slot t = k) (author_body C BLS body)"
  unfolding author_body_def
  by (intro frame_intros set_header_operations preserves_eseq preserves_for_each process_randao_proposer
      proposer.eth1_inv proposer.proposer_slashing_inv proposer.attester_slashing_inv proposer.attestation_inv
      proposer.deposit_inv proposer.voluntary_exit_inv
      life.randao_inv life.eth1_inv life.proposer_slashing_inv life.attester_slashing_inv life.attestation_inv
      life.deposit_inv life.voluntary_exit_inv
      slot_frame.randao_inv slot_frame.eth1_inv slot_frame.proposer_slashing_inv slot_frame.attester_slashing_inv
      slot_frame.attestation_inv slot_frame.deposit_inv slot_frame.voluntary_exit_inv)+

text \<open>The proposer of the state before the body is the one after it, and was not slashed if it is not slashed now.\<close>

lemma author_body_proposer:
  assumes run: "author_body C BLS body s = (Ok (), t)" and C: "config_ok C" "current_epoch C s < 2 ^ 62" "registry_ok s"
  shows "beacon_proposer_index C t = beacon_proposer_index C s"
proof -
  have "proposer_frame C s s"
    using C by (auto simp: proposer_frame_def same_proposer_inputs_def registry_ok_def active_validator_indices_alt unat_of_nat_u64)
  then have "proposer_frame C s t" using preservesD [OF author_body_frames(2) _ run] by blast
  then show ?thesis using beacon_proposer_index_cong [of C s t] by (simp add: proposer_frame_def)
qed

lemma author_body_slashed:
  assumes run: "author_body C BLS body s = (Ok (), t)"
    and "vec_index (validators t) i = (Ok v :: Validator result)" "\<not> slashed v"
    and "vec_index (validators s) i = (Ok w :: Validator result)"
  shows "\<not> slashed w"
proof -
  have "registry_grows C s t" using preservesD [OF author_body_frames(3) _ run] by simp
  then show ?thesis
    using assms(2-4) by (auto simp: registry_grows_def validator_step_def vec_index_def split: if_splits)
qed

lemma set_header_body:
  "unaffected (set_header h) (eseq (process_randao C BLS body) (eseq (process_eth1_data C body) (process_operations C BLS body)))"
  unfolding process_operations_def
  by (intro frame_intros unaffected_ensure set_header_operations) (simp_all add: set_header_def)

lemma author_run:
  assumes inh: "apply_inherent C BLS parent inh s1 = (Ok b0, s2)"
    and txs: "for_each (body_transactions B) (apply_transaction C BLS) (b0, s2) = (Ok (), (b1, s3))"
  shows "author_body C BLS (ub_body b1) s1 = (Ok (), s3)" "ub_slot b1 = slot s1"
    "ub_parent_root b1 = root_signing_header (hashing C) (signing_header (latest_block_header s1))"
    "\<exists>u. process_randao C BLS (ub_body b1) s1 = (Ok (), u) \<and> process_eth1_data C (ub_body b1) u = (Ok (), s2)"
    "deposits (ub_body b1) = deposits B"
    "length (proposer_slashings (ub_body b1)) \<le> unat (max_proposer_slashings C) \<and>
     length (attester_slashings (ub_body b1)) \<le> unat (max_attester_slashings C) \<and>
     length (attestations (ub_body b1)) \<le> unat (max_attestations C) \<and>
     length (deposits (ub_body b1)) \<le> unat (max_deposits C) \<and>
     length (voluntary_exits (ub_body b1)) \<le> unat (max_voluntary_exits C)"
proof -
  obtain u where u: "process_randao C BLS (ub_body b0) s1 = (Ok (), u)" "process_eth1_data C (ub_body b0) u = (Ok (), s2)"
    and b0: "ub_slot b0 = slot s1" "ub_parent_root b0 = root_signing_header (hashing C) (signing_header (latest_block_header s1))"
      "ub_body b0 = BeaconBlockBody_default\<lparr>randao_reveal := inh_randao_reveal inh, body_eth1_data := inh_eth1_data inh\<rparr>"
    using inh by (auto simp: apply_inherent_def Let_def exec_ok)
  have "proposer_slashings (ub_body b0) = []" "attester_slashings (ub_body b0) = []"
      "attestations (ub_body b0) = []" "deposits (ub_body b0) = []" "voluntary_exits (ub_body b0) = []"
    by (simp_all add: b0(3) BeaconBlockBody_default_def)
  note r = body_transactions_run [OF txs this]
  have b1: "b1 = b0\<lparr>ub_body := (ub_body b0)\<lparr>
      proposer_slashings := proposer_slashings B, attester_slashings := attester_slashings B,
      attestations := attestations B, deposits := deposits B, voluntary_exits := voluntary_exits B\<rparr>\<rparr>"
    using r by blast
  have "randao_reveal (ub_body b1) = randao_reveal (ub_body b0)" "body_eth1_data (ub_body b1) = body_eth1_data (ub_body b0)"
    by (simp_all add: b1)
  then have same: "process_randao C BLS (ub_body b1) = process_randao C BLS (ub_body b0)"
    "process_eth1_data C (ub_body b1) = process_eth1_data C (ub_body b0)"
    by (simp_all only: process_randao_def process_eth1_data_def)
  show "\<exists>u. process_randao C BLS (ub_body b1) s1 = (Ok (), u) \<and> process_eth1_data C (ub_body b1) u = (Ok (), s2)"
    using u unfolding same by blast
  show "author_body C BLS (ub_body b1) s1 = (Ok (), s3)"
    using u r unfolding author_body_def same eseq_eq_Ok by (auto simp: b1)
  show "ub_slot b1 = slot s1" "deposits (ub_body b1) = deposits B"
    "ub_parent_root b1 = root_signing_header (hashing C) (signing_header (latest_block_header s1))"
    by (simp_all add: b1 b0)
  show "length (proposer_slashings (ub_body b1)) \<le> unat (max_proposer_slashings C) \<and>
     length (attester_slashings (ub_body b1)) \<le> unat (max_attester_slashings C) \<and>
     length (attestations (ub_body b1)) \<le> unat (max_attestations C) \<and>
     length (deposits (ub_body b1)) \<le> unat (max_deposits C) \<and>
     length (voluntary_exits (ub_body b1)) \<le> unat (max_voluntary_exits C)"
    using r by (simp add: b1)
qed

text \<open>An importer runs the same body after the header, with checks on the numbers of operations in between.\<close>

lemma process_block_body:
  assumes body: "author_body C BLS (block_body block) s = (Ok (), t)"
    and randao: "process_randao C BLS (block_body block) s = (Ok (), u)" "process_eth1_data C (block_body block) u = (Ok (), s2)"
    and deps: "len64 (deposits (block_body block)) =
      min (max_deposits C) (deposit_count (eth1_data s2) - eth1_deposit_index s2)"
    and len: "length (proposer_slashings (block_body block)) \<le> unat (max_proposer_slashings C) \<and>
     length (attester_slashings (block_body block)) \<le> unat (max_attester_slashings C) \<and>
     length (attestations (block_body block)) \<le> unat (max_attestations C) \<and>
     length (deposits (block_body block)) \<le> unat (max_deposits C) \<and>
     length (voluntary_exits (block_body block)) \<le> unat (max_voluntary_exits C)"
  shows "eseq (process_randao C BLS (block_body block)) (eseq (process_eth1_data C (block_body block))
    (process_operations C BLS (block_body block))) s = (Ok (), t)"
  using body randao deps len unfolding author_body_def process_operations_def eseq_eq_Ok ensure_eq_Ok by auto

text \<open>Up to the body the importer accepts a sealed block: only the body decides, and the header is out of its way.\<close>

lemma author_header:
  assumes C: "config_ok C" "current_epoch C s1 < 2 ^ 62" "registry_ok s1"
    and init: "initialize_block C n s0 = (Ok (), s1)"
    and inh: "apply_inherent C BLS parent inh s1 = (Ok b0, s2)"
    and txs: "for_each (body_transactions B) (apply_transaction C BLS) (b0, s2) = (Ok (), (b1, s3))"
    and fin: "finalize_block C BLS (b1, s3) = (Ok (), (b2, s4))"
    and sg: "\<forall>i v. beacon_proposer_index C s1 = Ok i \<longrightarrow> vec_index (validators s1) i = (Ok v :: Validator result) \<longrightarrow>
      verify BLS (pubkey v) (root_unsealed_block (hashing C) b2) sg (domain C s1 domain_beacon_proposer None)"
    and body: "eseq (process_randao C BLS (ub_body b1)) (eseq (process_eth1_data C (ub_body b1)) (process_operations C BLS (ub_body b1))) s1 = (r, t)"
  shows "process_slots C (bb_slot (seal b2 sg)) s0 = (Ok (), s1)" "bb_state_root (seal b2 sg) = root_state (hashing C) s4"
    "\<exists>h. s4 = set_header h s3 \<and> process_block C BLS (Sealed (seal b2 sg)) s1 = (r, set_header h t)"
proof -
  let ?B = "Sealed (seal b2 sg)" and ?h = "header_of C (Unsealed b1)"
  note a = author_run [OF inh txs]
  have hd: "process_block_header C BLS (Unsealed b1) s3 = (Ok (), s4)"
    and b2: "b2 = b1\<lparr>ub_state_root := root_state (hashing C) s4\<rparr>"
    using fin by (auto simp: finalize_block_def exec_ok on_state_Ok)
  from hd obtain i v where s4: "s4 = set_header ?h s3"
    and v: "beacon_proposer_index C s3 = Ok i" "vec_index (validators s3) i = (Ok v :: Validator result)" "\<not> slashed v"
    unfolding process_block_header_Ok by blast
  obtain j w where w: "beacon_proposer_index C s1 = Ok j" "vec_index (validators s1) j = (Ok w :: Validator result)"
    using a(4) by (auto simp: process_randao_def exec_ok)
  have "j = i" using author_body_proposer [OF a(1) C] v(1) w(1) by simp
  then have nsl: "\<not> slashed w" using author_body_slashed [OF a(1) v(2,3)] w(2) by blast
  have "header_of C ?B = ?h" by (simp add: header_of_def b2)
  then have "process_block_header C BLS ?B s1 = (Ok (), set_header ?h s1)"
    unfolding process_block_header_Ok using w nsl sg [rule_format, OF w] a(2,3) by (simp add: b2)
  then have "process_block C BLS ?B s1 = (r, set_header ?h t)"
    using unaffectedD [OF set_header_body body] by (simp add: process_block_def eseq_run b2)
  with s4 show "\<exists>h. s4 = set_header h s3 \<and> process_block C BLS ?B s1 = (r, set_header h t)" by blast
  have "slot s1 = n" using init process_slots_slot by (simp add: initialize_block_def)
  then show "process_slots C (bb_slot (seal b2 sg)) s0 = (Ok (), s1)" using init a(2) by (simp add: initialize_block_def b2)
  show "bb_state_root (seal b2 sg) = root_state (hashing C) s4" by (simp add: b2)
qed

lemma author_accepted:
  assumes C: "config_ok C" "current_epoch C s1 < 2 ^ 62" "registry_ok s1"
    and init: "initialize_block C n s0 = (Ok (), s1)"
    and inh: "apply_inherent C BLS parent inh s1 = (Ok b0, s2)"
    and txs: "for_each (body_transactions B) (apply_transaction C BLS) (b0, s2) = (Ok (), (b1, s3))"
    and fin: "finalize_block C BLS (b1, s3) = (Ok (), (b2, s4))"
    and deps: "len64 (deposits B) = min (max_deposits C) (deposit_count (eth1_data s2) - eth1_deposit_index s2)"
    and sg: "\<And>i v. beacon_proposer_index C s1 = Ok i \<Longrightarrow> vec_index (validators s1) i = (Ok v :: Validator result) \<Longrightarrow>
      verify BLS (pubkey v) (root_unsealed_block (hashing C) b2) sg (domain C s1 domain_beacon_proposer None)"
  shows "execute_block C BLS (seal b2 sg) s0 = (Ok (), s4)"
proof -
  note a = author_run [OF inh txs]
  obtain u where u: "process_randao C BLS (ub_body b1) s1 = (Ok (), u)" "process_eth1_data C (ub_body b1) u = (Ok (), s2)"
    using a(4) by blast
  have "eseq (process_randao C BLS (ub_body b1)) (eseq (process_eth1_data C (ub_body b1)) (process_operations C BLS (ub_body b1))) s1 = (Ok (), s3)"
    using process_block_body [of C BLS "Unsealed b1" s1 s3 u s2] a(1,5,6) u deps by simp
  from author_header [OF C init inh txs fin _ this, of sg] sg show ?thesis
    unfolding execute_block_def state_transition_def eseq_eq_Ok by auto
qed

lemma author_refused:
  assumes C: "config_ok C" "current_epoch C s1 < 2 ^ 62" "registry_ok s1"
    and init: "initialize_block C n s0 = (Ok (), s1)"
    and inh: "apply_inherent C BLS parent inh s1 = (Ok b0, s2)"
    and txs: "for_each (body_transactions B) (apply_transaction C BLS) (b0, s2) = (Ok (), (b1, s3))"
    and fin: "finalize_block C BLS (b1, s3) = (Ok (), (b2, s4))"
    and deps: "len64 (deposits B) \<noteq> min (max_deposits C) (deposit_count (eth1_data s2) - eth1_deposit_index s2)"
    and sg: "\<And>i v. beacon_proposer_index C s1 = Ok i \<Longrightarrow> vec_index (validators s1) i = (Ok v :: Validator result) \<Longrightarrow>
      verify BLS (pubkey v) (root_unsealed_block (hashing C) b2) sg (domain C s1 domain_beacon_proposer None)"
  shows "fst (execute_block C BLS (seal b2 sg) s0) = Err TooManyDeposits"
proof -
  note a = author_run [OF inh txs]
  obtain u where u: "process_randao C BLS (ub_body b1) s1 = (Ok (), u)" "process_eth1_data C (ub_body b1) u = (Ok (), s2)"
    using a(4) by blast
  have "process_operations C BLS (ub_body b1) s2 = (Err TooManyDeposits, s2)"
    using deps a(5) by (simp add: process_operations_def eseq_def ebind_def ensure_def)
  then have "eseq (process_randao C BLS (ub_body b1)) (eseq (process_eth1_data C (ub_body b1)) (process_operations C BLS (ub_body b1))) s1 = (Err TooManyDeposits, s2)" using u by (simp add: eseq_run)
  from author_header [OF C init inh txs fin _ this, of sg] sg
  obtain h where "process_slots C (bb_slot (seal b2 sg)) s0 = (Ok (), s1)"
    "process_block C BLS (Sealed (seal b2 sg)) s1 = (Err TooManyDeposits, set_header h s2)" by blast
  then show ?thesis by (simp add: execute_block_def state_transition_def eseq_def ebind_def)
qed

text \<open>
  C1: A block built with \<^verbatim>\<open>initialize_block\<close>, \<^verbatim>\<open>apply_inherent\<close>, \<^verbatim>\<open>apply_transaction\<close> and
  \<^verbatim>\<open>finalize_block\<close>, its transactions applied in the order of the block body, and sealed with a valid signature of the
  proposer: if it has as many deposits as the importer demands, \<^verbatim>\<open>execute_block\<close> accepts it on the parent state and ends
  in the very state the author computed. If it has another number of deposits, which \<^verbatim>\<open>finalize_block\<close> does not
  exclude, \<^verbatim>\<open>execute_block\<close> rejects it for the deposits.
\<close>

theorem authored_block_accepted:
  assumes C: "config_ok C" "current_epoch C s1 < 2 ^ 62" "registry_ok s1"
    and init: "initialize_block C n s0 = (Ok (), s1)"
    and inh: "apply_inherent C BLS parent inh s1 = (Ok b0, s2)"
    and txs: "for_each (body_transactions B) (apply_transaction C BLS) (b0, s2) = (Ok (), (b1, s3))"
    and fin: "finalize_block C BLS (b1, s3) = (Ok (), (b2, s4))"
    and sg: "\<And>i v. beacon_proposer_index C s1 = Ok i \<Longrightarrow> vec_index (validators s1) i = (Ok v :: Validator result) \<Longrightarrow>
      verify BLS (pubkey v) (root_unsealed_block (hashing C) b2) sg (domain C s1 domain_beacon_proposer None)"
  shows "(len64 (deposits B) = min (max_deposits C) (deposit_count (eth1_data s2) - eth1_deposit_index s2) \<longrightarrow>
      execute_block C BLS (seal b2 sg) s0 = (Ok (), s4)) \<and>
    (len64 (deposits B) \<noteq> min (max_deposits C) (deposit_count (eth1_data s2) - eth1_deposit_index s2) \<longrightarrow>
      fst (execute_block C BLS (seal b2 sg) s0) = Err TooManyDeposits)"
  using author_accepted [OF C init inh txs fin] author_refused [OF C init inh txs fin] sg by blast

definition sample_slashing :: ProposerSlashing where
  "sample_slashing = \<lparr>ps_proposer_index = 2, header_1 = BeaconBlockHeader_default,
     header_2 = BeaconBlockHeader_default\<lparr>bh_parent_root := replicate 32 1\<rparr>\<rparr>"

definition sample_body :: BeaconBlockBody where
  "sample_body = BeaconBlockBody_default\<lparr>proposer_slashings := [sample_slashing]\<rparr>"

definition sample_inherent :: Inherent where
  "sample_inherent = \<lparr>inh_randao_reveal = Signature_default, inh_eth1_data = Eth1Data_default\<rparr>"

text \<open>The blocks and states an author passes through, from the state at the next slot.\<close>

definition authored :: "((UnsealedBeaconBlock \<times> BeaconState) \<times> (UnsealedBeaconBlock \<times> BeaconState) \<times>
    (UnsealedBeaconBlock \<times> BeaconState)) option" where
  "authored =
     (let C = MinimalConfig toy_hashing; BLS = BLSNoVerification in
      case apply_inherent C BLS BeaconBlock_default sample_inherent (next_slot C sample_state) of
        (Ok b0, s2) \<Rightarrow>
          (case for_each (body_transactions sample_body) (apply_transaction C BLS) (b0, s2) of
             (Ok _, p1) \<Rightarrow> (case finalize_block C BLS p1 of (Ok _, p2) \<Rightarrow> Some ((b0, s2), p1, p2) | _ \<Rightarrow> None)
           | _ \<Rightarrow> None)
      | _ \<Rightarrow> None)"

lemma authored_runs:
  assumes "authored = Some ((b0, s2), (b1, s3), (b2, s4))"
  shows "apply_inherent (MinimalConfig toy_hashing) BLSNoVerification BeaconBlock_default sample_inherent
      (next_slot (MinimalConfig toy_hashing) sample_state) = (Ok b0, s2)"
    "for_each (body_transactions sample_body) (apply_transaction (MinimalConfig toy_hashing) BLSNoVerification) (b0, s2)
      = (Ok (), (b1, s3))"
    "finalize_block (MinimalConfig toy_hashing) BLSNoVerification (b1, s3) = (Ok (), (b2, s4))"
  using assms unfolding authored_def Let_def by (auto split: prod.splits res.splits)

lemma authored_Some:
  "case authored of
     Some ((b0, s2), (b1, s3), (b2, s4)) \<Rightarrow>
       deposit_count (eth1_data s2) - eth1_deposit_index s2 = 0 \<and> slot s4 = 9 \<and> slashed (validators s4 ! 2)
   | None \<Rightarrow> False"
  by code_simp

theorem authored_block_accepted_witness:
  "\<exists>b2 s4. execute_block (MinimalConfig toy_hashing) BLSNoVerification (seal b2 Signature_default) sample_state = (Ok (), s4) \<and>
     slot s4 = 9 \<and> slashed (validators s4 ! 2)"
proof -
  let ?C = "MinimalConfig toy_hashing" and ?s1 = "next_slot (MinimalConfig toy_hashing) sample_state"
  obtain b0 s2 b1 s3 b2 s4 where A: "authored = Some ((b0, s2), (b1, s3), (b2, s4))"
    and ok: "deposit_count (eth1_data s2) - eth1_deposit_index s2 = 0" "slot s4 = 9" "slashed (validators s4 ! 2)"
    using authored_Some by (auto split: option.splits)
  have "current_epoch ?C ?s1 = 1" "length (validators ?s1) = 3" by code_simp+
  then have "(len64 (deposits sample_body) = min (max_deposits ?C) (deposit_count (eth1_data s2) - eth1_deposit_index s2) \<longrightarrow>
      execute_block ?C BLSNoVerification (seal b2 Signature_default) sample_state = (Ok (), s4)) \<and>
    (len64 (deposits sample_body) \<noteq> min (max_deposits ?C) (deposit_count (eth1_data s2) - eth1_deposit_index s2) \<longrightarrow>
      fst (execute_block ?C BLSNoVerification (seal b2 Signature_default) sample_state) = Err TooManyDeposits)"
    by (intro authored_block_accepted [where n = 9, OF _ _ _ _ authored_runs [OF A]])
      (simp_all add: registry_ok_def BLSNoVerification_def initialize_block_def sample_next_slot)
  then have "execute_block ?C BLSNoVerification (seal b2 Signature_default) sample_state = (Ok (), s4)"
    by (simp add: ok sample_body_def BeaconBlockBody_default_def len64_def)
  then show ?thesis using ok by blast
qed

section \<open>Deposits that cannot be authored\<close>

lemma process_deposit_index:
  "process_deposit C BLS d s = (Ok (), t) \<Longrightarrow>
   eth1_deposit_index t = eth1_deposit_index s + 1 \<and> eth1_data t = eth1_data s"
  by (auto simp: process_deposit_def Let_def exec_ok increase_balance_def split: option.splits)

lemma process_deposits_index:
  "for_each ds (process_deposit C BLS) s = (Ok (), t) \<Longrightarrow>
   eth1_deposit_index t = eth1_deposit_index s + len64 ds \<and> eth1_data t = eth1_data s"
proof (induction ds arbitrary: s)
  case (Cons d ds)
  then show ?case by (force simp: eseq_eq_Ok len64_def dest!: process_deposit_index)
qed (simp add: len64_def)

text \<open>
  C34: An author that has processed exactly the pending deposits, as the importer demands, cannot finalize the
  block when there are some and they fit into one: \<^verbatim>\<open>finalize_block\<close> compares the number of deposits of the
  block with the number still pending after them, which is then zero.
\<close>

theorem finalize_block_rejects_deposits:
  assumes run: "for_each (deposits (ub_body b)) (process_deposit C BLS) s = (Ok (), t)"
    and pending: "eth1_deposit_index s < deposit_count (eth1_data s)"
      "deposit_count (eth1_data s) - eth1_deposit_index s \<le> max_deposits C"
    and importer: "len64 (deposits (ub_body b)) =
      min (max_deposits C) (deposit_count (eth1_data s) - eth1_deposit_index s)"
  shows "finalize_block C BLS (b, t) = (Err TooManyDeposits, (b, t))"
proof -
  let ?p = "deposit_count (eth1_data s) - eth1_deposit_index s"
  have len: "len64 (deposits (ub_body b)) = ?p" using importer pending(2) by (simp add: min_def)
  then have t: "eth1_deposit_index t = deposit_count (eth1_data s)" "eth1_data t = eth1_data s"
    using process_deposits_index [OF run] by simp_all
  have "?p \<noteq> 0" using pending(1) by auto
  then have "length (deposits (ub_body b)) \<noteq> 0" using len by (auto simp: len64_def)
  then show ?thesis
    by (simp add: finalize_block_def t eseq_def ebind_def ensure_def)
qed

theorem finalize_block_rejects_deposits_witness:
  "\<exists>b t. finalize_block (MinimalConfig toy_hashing) BLSNoVerification (b, t) = (Err TooManyDeposits, (b, t)) \<and>
     deposits (ub_body b) = [sample_deposit]"
proof -
  let ?C = "MinimalConfig toy_hashing"
  let ?s = "deposit_state\<lparr>eth1_data := (eth1_data deposit_state)\<lparr>deposit_count := 1\<rparr>\<rparr>"
  let ?b = "\<lparr>ub_slot = 8, ub_parent_root = H256_default, ub_state_root = H256_default,
    ub_body = BeaconBlockBody_default\<lparr>deposits := [sample_deposit]\<rparr>\<rparr>"
  have "fst (for_each (deposits (ub_body ?b)) (process_deposit ?C BLSNoVerification) ?s) = Ok ()" by code_simp
  then obtain t where t: "for_each (deposits (ub_body ?b)) (process_deposit ?C BLSNoVerification) ?s = (Ok (), t)"
    by (metis prod.collapse)
  have "eth1_deposit_index ?s = 0" by code_simp
  then have "finalize_block ?C BLSNoVerification (?b, t) = (Err TooManyDeposits, (?b, t))"
    by (intro finalize_block_rejects_deposits [OF t]) (simp_all add: len64_def)
  then show ?thesis by (intro exI [of _ ?b] exI [of _ t]) simp
qed

end
