(* ===== verification/LMD_Ghost.thy ===== *)
theory LMD_Ghost
  imports Prelude "HOL-Library.AList"
begin

text \<open>
  The fork choice, crate \<^verbatim>\<open>blockchain/lmd-ghost\<close>. The block store is the trait \<^verbatim>\<open>ChainQuery\<close> of the
  library \<^verbatim>\<open>blockchain\<close>: a record of its queries, read from a state of the store by a function
  \<open>query\<close>. A \<^verbatim>\<open>HashMap\<close> is an association list with distinct keys, in any order. The loops of
  \<^verbatim>\<open>ancestor_at\<close> and \<^verbatim>\<open>head\<close> end only on stores that hold a tree, so they are partial functions. What
  the fork choice needs of the store is the locale \<open>chain_store\<close>; the lemmas in it show that both loops end, that
  the votes of a block are the validators whose latest vote is below it, and that the head is a leaf reached
  by descending into a child with most votes.
\<close>

section \<open>The block store\<close>

record ('id, 'b, 's, 'k, 'a, 'e) ChainQuery =
  query_genesis :: 'id
  query_head :: 'id
  contains :: "'id \<Rightarrow> ('e, bool) res"
  is_canon :: "'id \<Rightarrow> ('e, bool) res"
  lookup_canon_depth :: "nat \<Rightarrow> ('e, 'id option) res"
  auxiliary :: "'k \<Rightarrow> ('e, 'a option) res"
  depth_at :: "'id \<Rightarrow> ('e, nat) res"
  children_at :: "'id \<Rightarrow> ('e, 'id list) res"
  state_at :: "'id \<Rightarrow> ('e, 's) res"
  block_at :: "'id \<Rightarrow> ('e, 'b) res"

text \<open>\<^verbatim>\<open>NoCacheAncestorQuery::ancestor_at\<close>; \<open>parent_id\<close> is the method of the blocks.\<close>

partial_function (option) ancestor_loop ::
  "('b \<Rightarrow> 'id option) \<Rightarrow> ('id, 'b, 's, 'k, 'a, 'e) ChainQuery \<Rightarrow> 'id \<Rightarrow> nat \<Rightarrow> ('e, 'id) res option" where
  "ancestor_loop parent_id Q current d =
     (case depth_at Q current of
        Ok n \<Rightarrow>
          if n > d then
            (case block_at Q current of
               Ok b \<Rightarrow> (case parent_id b of Some p \<Rightarrow> ancestor_loop parent_id Q p d | None \<Rightarrow> Some Panic)
             | Err e \<Rightarrow> Some (Err e) | Panic \<Rightarrow> Some Panic | Diverge \<Rightarrow> Some Diverge)
          else Some (Ok current)
      | Err e \<Rightarrow> Some (Err e) | Panic \<Rightarrow> Some Panic | Diverge \<Rightarrow> Some Diverge)"

definition ancestor_at ::
  "('b \<Rightarrow> 'id option) \<Rightarrow> ('id, 'b, 's, 'k, 'a, 'e) ChainQuery \<Rightarrow> 'id \<Rightarrow> nat \<Rightarrow> ('e, 'id) res" where
  "ancestor_at parent_id Q i d = or_diverge (ancestor_loop parent_id Q i d)"

section \<open>Votes\<close>

text \<open>\<^verbatim>\<open>ArchiveGhost\<close>: the store, the votes, and the votes of the block being imported.\<close>

record ('st, 'v, 'id) ArchiveGhost =
  backend :: 'st
  votes :: "('v \<times> 'id) list"
  overlayed_votes :: "('v \<times> 'id) list"

definition new_ghost :: "'st \<Rightarrow> ('st, 'v, 'id) ArchiveGhost" where
  "new_ghost b = \<lparr>backend = b, votes = [], overlayed_votes = []\<rparr>"

definition update_overlay :: "'v \<Rightarrow> 'id \<Rightarrow> ('st, 'v, 'id) ArchiveGhost \<Rightarrow> ('st, 'v, 'id) ArchiveGhost" where
  "update_overlay v t g = g\<lparr>overlayed_votes := AList.update v t (overlayed_votes g)\<rparr>"

definition commit_overlay :: "('st, 'v, 'id) ArchiveGhost \<Rightarrow> ('st, 'v, 'id) ArchiveGhost" where
  "commit_overlay g = g\<lparr>
     votes := foldl (\<lambda>vs (k, v). AList.update k v vs) (votes g) (overlayed_votes g),
     overlayed_votes := []\<rparr>"

definition reset_overlay :: "('st, 'v, 'id) ArchiveGhost \<Rightarrow> ('st, 'v, 'id) ArchiveGhost" where
  "reset_overlay g = g\<lparr>overlayed_votes := []\<rparr>"

definition update_active :: "'v list \<Rightarrow> ('st, 'v, 'id) ArchiveGhost \<Rightarrow> ('st, 'v, 'id) ArchiveGhost" where
  "update_active active_validators g = g\<lparr>votes := filter (\<lambda>(v, _). v \<in> set active_validators) (votes g)\<rparr>"

definition count_vote :: "('id \<Rightarrow> nat \<Rightarrow> ('e, 'id) res) \<Rightarrow> 'id \<Rightarrow> nat \<Rightarrow> 'id \<Rightarrow> nat \<Rightarrow> ('e, nat) res" where
  "count_vote anc blk d t n = rbind (anc t d) (\<lambda>a. Ok (if a = blk then n + 1 else n))"

definition vote_count ::
  "('id \<Rightarrow> nat \<Rightarrow> ('e, 'id) res) \<Rightarrow> ('st, 'v, 'id) ArchiveGhost \<Rightarrow> 'id \<Rightarrow> nat \<Rightarrow> ('e, nat) res" where
  "vote_count anc g blk d =
     rbind (fold_res (\<lambda>(_, t) n. count_vote anc blk d t n) (overlayed_votes g) 0) (\<lambda>n.
     fold_res (\<lambda>(v, t) n.
       if \<not> list_ex (\<lambda>k. k = v) (map fst (overlayed_votes g)) then count_vote anc blk d t n else Ok n) (votes g) n)"

definition best_child ::
  "('id \<Rightarrow> nat \<Rightarrow> ('e, 'id) res) \<Rightarrow> ('st, 'v, 'id) ArchiveGhost \<Rightarrow> nat \<Rightarrow> 'id list \<Rightarrow> 'id \<times> nat \<Rightarrow> ('e, 'id \<times> nat) res" where
  "best_child anc g d = fold_res (\<lambda>c (best, best_score).
     rbind (vote_count anc g c d) (\<lambda>n. Ok (if n > best_score then (c, n) else (best, best_score))))"

partial_function (option) head_loop ::
  "('id \<Rightarrow> nat \<Rightarrow> ('e, 'id) res) \<Rightarrow> ('id, 'b, 's, 'k, 'a, 'e) ChainQuery \<Rightarrow> ('st, 'v, 'id) ArchiveGhost \<Rightarrow>
   'id \<Rightarrow> nat \<Rightarrow> ('e, 'id) res option" where
  "head_loop anc Q g h d =
     (case children_at Q h of
        Ok children \<Rightarrow>
          if children = [] then Some (Ok h) else
            (case best_child anc g (d + 1) children (children ! 0, 0) of
               Ok b \<Rightarrow> head_loop anc Q g (fst b) (d + 1)
             | Err e \<Rightarrow> Some (Err e) | Panic \<Rightarrow> Some Panic | Diverge \<Rightarrow> Some Diverge)
      | Err e \<Rightarrow> Some (Err e) | Panic \<Rightarrow> Some Panic | Diverge \<Rightarrow> Some Diverge)"

definition head ::
  "('st \<Rightarrow> ('id, 'b, 's, 'k, 'a, 'e) ChainQuery) \<Rightarrow> ('b \<Rightarrow> 'id option) \<Rightarrow> ('st, 'v, 'id) ArchiveGhost \<Rightarrow> 'id \<Rightarrow>
   ('e, 'id) res" where
  "head query parent_id g justified =
     (let Q = query (backend g) in
      rbind (depth_at Q justified) (\<lambda>d. or_diverge (head_loop (ancestor_at parent_id Q) Q g justified d)))"

section \<open>The importer\<close>

datatype ('e, 'x) ghost_error = IsGenesis | BackendError 'e | ExecutorError 'x

text \<open>\<^verbatim>\<open>JustifiableExecutor\<close>, with the functions that the importer calls.\<close>

record ('b, 's, 'v, 'id, 'x) JustifiableExecutor =
  execute :: "'b \<Rightarrow> 's \<Rightarrow> ('x, 's) res"
  justified_active :: "'s \<Rightarrow> ('x, 'v list) res"
  justified_block_id :: "'s \<Rightarrow> ('x, 'id option) res"
  block_votes :: "'b \<Rightarrow> 's \<Rightarrow> ('x, ('v \<times> 'id) list) res"

text \<open>
  \<^verbatim>\<open>ImportAction\<close> of the library commits an operation to the store: a block with its state, or a
  new head.
\<close>

datatype ('b, 's, 'id) import_operation = ImportBlock 'b 's | SetHead 'id

definition commit_operation ::
  "('st \<Rightarrow> ('b, 's, 'id) import_operation \<Rightarrow> ('e, 'st) res) \<Rightarrow> ('b, 's, 'id) import_operation \<Rightarrow>
   (('st, 'v, 'id) ArchiveGhost, ('e, 'x) ghost_error, unit) exec" where
  "commit_operation commit op =
     ebind (eget (\<lambda>g. map_err BackendError (commit (backend g) op))) (\<lambda>st. emod (\<lambda>g. g\<lparr>backend := st\<rparr>))"

text \<open>
  \<^verbatim>\<open>import_raw\<close>. The state of the importer is the ghost with its store; the first block commits the imported
  block, the second the new head. An error of the second commit drops the votes of the block and is not
  reported.
\<close>

definition import_raw ::
  "('st \<Rightarrow> ('id, 'b, 's, 'k, 'a, 'e) ChainQuery) \<Rightarrow> ('b \<Rightarrow> 'id option) \<Rightarrow>
   ('st \<Rightarrow> ('b, 's, 'id) import_operation \<Rightarrow> ('e, 'st) res) \<Rightarrow> ('b, 's, 'v, 'id, 'x) JustifiableExecutor \<Rightarrow>
   'b \<Rightarrow> 's \<Rightarrow> (('st, 'v, 'id) ArchiveGhost, ('e, 'x) ghost_error, unit) exec" where
  "import_raw query parent_id commit X b s =
     ebind (eget (\<lambda>_. map_err ExecutorError (justified_active X s))) (\<lambda>active.
     ebind (eget (\<lambda>g. rbind (map_err ExecutorError (justified_block_id X s)) (\<lambda>j.
       Ok (case j of Some i \<Rightarrow> i | None \<Rightarrow> query_genesis (query (backend g)))))) (\<lambda>justified.
     ebind (eget (\<lambda>_. map_err ExecutorError (block_votes X b s))) (\<lambda>vs.
     eseq (commit_operation commit (ImportBlock b s)) (
     eseq (for_each vs (\<lambda>(k, v). emod (update_overlay k v))) (
     eseq (emod (update_active active)) (\<lambda>g.
       case head query parent_id g justified of
         Ok new_head \<Rightarrow>
           (case commit (backend g) (SetHead new_head) of
              Ok st \<Rightarrow> (Ok (), commit_overlay (g\<lparr>backend := st\<rparr>))
            | Err _ \<Rightarrow> (Ok (), reset_overlay g)
            | Panic \<Rightarrow> (Panic, g) | Diverge \<Rightarrow> (Diverge, g))
       | Err e \<Rightarrow> (Err (BackendError e), reset_overlay g)
       | Panic \<Rightarrow> (Panic, g) | Diverge \<Rightarrow> (Diverge, g)))))))"

definition import_block ::
  "('st \<Rightarrow> ('id, 'b, 's, 'k, 'a, 'e) ChainQuery) \<Rightarrow> ('b \<Rightarrow> 'id option) \<Rightarrow>
   ('st \<Rightarrow> ('b, 's, 'id) import_operation \<Rightarrow> ('e, 'st) res) \<Rightarrow> ('b, 's, 'v, 'id, 'x) JustifiableExecutor \<Rightarrow>
   'b \<Rightarrow> (('st, 'v, 'id) ArchiveGhost, ('e, 'x) ghost_error, unit) exec" where
  "import_block query parent_id commit X b =
     ebind (eget (\<lambda>g. case parent_id b of
        None \<Rightarrow> Err IsGenesis
      | Some p \<Rightarrow>
          rbind (map_err BackendError (state_at (query (backend g)) p)) (\<lambda>s.
          map_err ExecutorError (execute X b s))))
     (\<lambda>s. import_raw query parent_id commit X b s)"

section \<open>The votes as maps\<close>

text \<open>
  The abstract vote book has the committed votes and the pending ones as maps. A pending vote replaces the
  committed vote of the same validator.
\<close>

definition ghost_wf :: "('st, 'v, 'id) ArchiveGhost \<Rightarrow> bool" where
  "ghost_wf g \<longleftrightarrow> distinct (map fst (votes g)) \<and> distinct (map fst (overlayed_votes g))"

definition vote_book :: "('st, 'v, 'id) ArchiveGhost \<Rightarrow> ('v \<rightharpoonup> 'id) \<times> ('v \<rightharpoonup> 'id)" where
  "vote_book g = (map_of (votes g), map_of (overlayed_votes g))"

definition latest_vote :: "('st, 'v, 'id) ArchiveGhost \<Rightarrow> 'v \<rightharpoonup> 'id" where
  "latest_vote g = map_of (votes g) ++ map_of (overlayed_votes g)"

lemma foldl_update_map_of:
  "map_of (foldl (\<lambda>vs (k, v). AList.update k v vs) xs ys) = map_of xs ++ map_of (rev ys)"
  by (induction ys arbitrary: xs) (auto simp: update_conv' split: prod.splits)

lemma distinct_foldl_update:
  "distinct (map fst xs) \<Longrightarrow> distinct (map fst (foldl (\<lambda>vs (k, v). AList.update k v vs) xs ys))"
  by (induction ys arbitrary: xs) (auto simp: distinct_update split: prod.splits)

lemma map_of_rev: "distinct (map fst ys) \<Longrightarrow> map_of (rev ys) = map_of ys"
  by (rule map_of_eqI) (auto simp: rev_map [symmetric] intro!: map_of_eq_Some_iff [THEN iffD2])

lemma map_of_filter_keys: "map_of (filter (\<lambda>(v, _). v \<in> A) xs) = map_of xs |` A"
  by (induction xs) (auto simp: fun_eq_iff restrict_map_def)

lemma vote_book_ops:
  "vote_book (update_overlay v t g) = (fst (vote_book g), (snd (vote_book g))(v \<mapsto> t))"
  "distinct (map fst (overlayed_votes g)) \<Longrightarrow>
   vote_book (commit_overlay g) = (fst (vote_book g) ++ snd (vote_book g), Map.empty)"
  "vote_book (reset_overlay g) = (fst (vote_book g), Map.empty)"
  "vote_book (update_active active g) = (fst (vote_book g) |` set active, snd (vote_book g))"
  by (simp_all add: vote_book_def update_overlay_def commit_overlay_def reset_overlay_def update_active_def
      update_conv' foldl_update_map_of map_of_rev map_of_filter_keys)

lemma ghost_wf_ops:
  "ghost_wf g \<Longrightarrow> ghost_wf (update_overlay v t g)" "ghost_wf g \<Longrightarrow> ghost_wf (commit_overlay g)"
  "ghost_wf g \<Longrightarrow> ghost_wf (reset_overlay g)" "ghost_wf g \<Longrightarrow> ghost_wf (update_active active g)"
  "ghost_wf (new_ghost b)"
  by (auto simp: ghost_wf_def update_overlay_def commit_overlay_def reset_overlay_def update_active_def new_ghost_def
      distinct_update distinct_foldl_update distinct_map_filter)

text \<open>Counting the targets that satisfy a condition.\<close>

lemma fold_res_count:
  assumes "\<forall>(v, t)\<in>set xs. P v \<longrightarrow> anc t d = Ok (f t)"
  shows "fold_res (\<lambda>(v, t) n. if P v then count_vote anc blk d t n else Ok n) xs n =
     Ok (n + length (filter (\<lambda>(v, t). P v \<and> f t = blk) xs))"
  using assms
proof (induction xs arbitrary: n)
  case (Cons x xs)
  obtain v t where x: "x = (v, t)" by force
  show ?case using Cons by (cases "P v") (simp_all add: x count_vote_def)
qed simp

text \<open>A fold over fallible steps that never panic fails if one of the steps must.\<close>

definition may_fail :: "('e, 'a) res \<Rightarrow> bool" where
  "may_fail r \<longleftrightarrow> r \<noteq> Panic \<and> r \<noteq> Diverge"

lemma may_fail_cases: "may_fail r \<longleftrightarrow> (\<exists>x. r = Ok x) \<or> (\<exists>e. r = Err e)"
  by (cases r) (simp_all add: may_fail_def)

lemma fold_res_fails:
  assumes "\<And>x n. x \<in> set xs \<Longrightarrow> may_fail (f x n)"
  shows "may_fail (fold_res f xs n)"
    and "x \<in> set xs \<Longrightarrow> (\<And>n. \<exists>e. f x n = Err e) \<Longrightarrow> \<exists>e. fold_res f xs n = Err e"
proof -
  show all: "may_fail (fold_res f xs n)" for n
    using assms
  proof (induction xs arbitrary: n)
    case (Cons x xs)
    then show ?case by (cases "f x n") (auto simp: may_fail_def)
  qed (simp add: may_fail_def)
  show "\<exists>e. fold_res f xs n = Err e" if "x \<in> set xs" "\<And>n. \<exists>e. f x n = Err e"
    using assms that(1)
  proof (induction xs arbitrary: n)
    case (Cons y ys)
    have "may_fail (f y n)" using Cons.prems(1) by simp
    then show ?case
      using Cons that(2) [of n] by (cases "f y n") (auto simp: may_fail_def)
  qed simp
qed

lemma vote_count_fails:
  assumes "\<And>t. may_fail (anc t d)" "latest_vote g v = Some t" "anc t d = Err e"
  shows "\<exists>e. vote_count anc g blk d = Err e"
proof -
  let ?f = "\<lambda>(v, t) n. count_vote anc blk d t n"
  let ?k = "\<lambda>(v, t) n. if \<not> list_ex (\<lambda>k. k = v) (map fst (overlayed_votes g)) then count_vote anc blk d t n else Ok n"
  have count: "may_fail (count_vote anc blk d t n)" for t n
    using assms(1) [of t] by (cases "anc t d") (simp_all add: count_vote_def may_fail_def)
  have fails: "count_vote anc blk d t n = Err e" for n using assms(3) by (simp add: count_vote_def)
  have first: "may_fail (fold_res ?f (overlayed_votes g) 0)" by (rule fold_res_fails(1)) (auto simp: count split: prod.split)
  consider "(v, t) \<in> set (overlayed_votes g)" | "(v, t) \<in> set (votes g)" "v \<notin> set (map fst (overlayed_votes g))"
    using assms(2) by (auto simp: latest_vote_def map_add_Some_iff map_of_eq_None_iff dest: map_of_SomeD)
  then show ?thesis
  proof cases
    case 1
    have "\<exists>e. fold_res ?f (overlayed_votes g) 0 = Err e"
      by (rule fold_res_fails(2) [OF _ 1]) (auto simp: count fails split: prod.split)
    then show ?thesis by (auto simp: vote_count_def)
  next
    case 2
    have "\<exists>e. fold_res ?k (votes g) n = Err e" for n
      by (rule fold_res_fails(2) [OF _ 2(1)]) (use 2(2) in \<open>auto simp: count fails may_fail_cases [of "Ok _"] list_ex_iff split: prod.split\<close>)
    then show ?thesis using first unfolding vote_count_def may_fail_cases by auto
  qed
qed

lemma length_filter_alist:
  "distinct (map fst xs) \<Longrightarrow> length (filter (\<lambda>(v, t). P v t) xs) = card {v. \<exists>t. map_of xs v = Some t \<and> P v t}"
proof (induction xs)
  case (Cons x xs)
  obtain v t where x: "x = (v, t)" by force
  then have v: "map_of xs v = None" using Cons.prems by (simp add: map_of_eq_None_iff)
  let ?S = "{w. \<exists>u. map_of xs w = Some u \<and> P w u}"
  have fin: "finite ?S" by (rule finite_subset [OF _ finite_dom_map_of [of xs]]) auto
  have "{w. \<exists>u. map_of (x # xs) w = Some u \<and> P w u} = (if P v t then insert v ?S else ?S)"
    using v by (auto simp: x split: if_splits)
  moreover have "v \<notin> ?S" using v by simp
  ultimately show ?case using Cons fin by (simp add: x)
qed simp

lemma vote_count_card:
  assumes wf: "ghost_wf g" and anc: "\<And>v t. latest_vote g v = Some t \<Longrightarrow> anc t d = Ok (f t)"
  shows "vote_count anc g blk d = Ok (card {v. \<exists>t. latest_vote g v = Some t \<and> f t = blk})"
proof -
  let ?ov = "overlayed_votes g" and ?keys = "fst ` set (overlayed_votes g)"
  let ?A = "{v. \<exists>t. map_of ?ov v = Some t \<and> f t = blk}"
  let ?B = "{v. \<exists>t. map_of (votes g) v = Some t \<and> v \<notin> ?keys \<and> f t = blk}"
  have d: "distinct (map fst (votes g))" "distinct (map fst ?ov)" using wf by (simp_all add: ghost_wf_def)
  have key: "v \<in> ?keys \<longleftrightarrow> map_of ?ov v \<noteq> None" for v by (simp add: map_of_eq_None_iff)
  have ov: "\<forall>(v, t)\<in>set ?ov. True \<longrightarrow> anc t d = Ok (f t)"
    using anc map_of_is_SomeI [OF d(2)] by (fastforce simp: latest_vote_def map_add_Some_iff)
  have vo: "\<forall>(v, t)\<in>set (votes g). v \<notin> ?keys \<longrightarrow> anc t d = Ok (f t)"
    using anc map_of_is_SomeI [OF d(1)] key by (fastforce simp: latest_vote_def map_add_Some_iff)
  have ex: "list_ex (\<lambda>k. k = v) (map fst ?ov) \<longleftrightarrow> v \<in> ?keys" for v by (auto simp: list_ex_iff)
  have "vote_count anc g blk d = Ok (card ?A + card ?B)"
    unfolding vote_count_def ex
    using fold_res_count [where P = "\<lambda>_. True" and anc = anc and d = d and f = f, OF ov, of blk 0]
      fold_res_count [where P = "\<lambda>v. v \<notin> ?keys" and anc = anc and d = d and f = f, OF vo] length_filter_alist [OF d(2), of "\<lambda>v t. f t = blk"]
      length_filter_alist [OF d(1), of "\<lambda>v t. v \<notin> ?keys \<and> f t = blk"]
    by simp
  also have "card ?A + card ?B = card (?A \<union> ?B)"
    by (rule card_Un_disjoint [symmetric])
      (auto simp: key intro: finite_subset [OF _ finite_dom_map_of [of ?ov]] finite_subset [OF _ finite_dom_map_of [of "votes g"]])
  also have "?A \<union> ?B = {v. \<exists>t. latest_vote g v = Some t \<and> f t = blk}"
    using key by (fastforce simp: latest_vote_def map_add_Some_iff)
  finally show ?thesis .
qed

section \<open>Fork choice on a store that holds a tree\<close>

inductive descends :: "('id \<Rightarrow> 'id option) \<Rightarrow> 'id \<Rightarrow> 'id \<Rightarrow> bool" for par where
  descends_refl: "descends par x x"
| descends_parent: "par y = Some p \<Longrightarrow> descends par p x \<Longrightarrow> descends par y x"

text \<open>The number of validators whose latest vote is for a block or a descendant of it.\<close>

definition vote_weight :: "('id \<Rightarrow> 'id option) \<Rightarrow> ('st, 'v, 'id) ArchiveGhost \<Rightarrow> 'id \<Rightarrow> nat" where
  "vote_weight par g c = card {v. \<exists>t. latest_vote g v = Some t \<and> descends par t c}"

text \<open>A child with most votes.\<close>

definition ghost_child :: "'id set \<Rightarrow> ('id \<Rightarrow> 'id option) \<Rightarrow> ('st, 'v, 'id) ArchiveGhost \<Rightarrow> 'id \<Rightarrow> 'id \<Rightarrow> bool" where
  "ghost_child K par g x c \<longleftrightarrow> c \<in> K \<and> par c = Some x \<and>
     (\<forall>c'\<in>K. par c' = Some x \<longrightarrow> vote_weight par g c' \<le> vote_weight par g c)"

lemma best_child_max:
  assumes "\<forall>c\<in>set cs. vote_count anc g c d = Ok (w c)"
  shows "\<exists>b s. best_child anc g d cs (b0, s0) = Ok (b, s) \<and> (b = b0 \<and> s = s0 \<or> b \<in> set cs \<and> s = w b) \<and>
     (\<forall>c\<in>set cs. w c \<le> s) \<and> s0 \<le> s"
  using assms
proof (induction cs arbitrary: b0 s0)
  case (Cons c cs)
  show ?case
  proof (cases "w c > s0")
    case True
    obtain b s where "best_child anc g d cs (c, w c) = Ok (b, s)" "b = c \<and> s = w c \<or> b \<in> set cs \<and> s = w b"
      "\<forall>c\<in>set cs. w c \<le> s" "w c \<le> s" using Cons by (metis list.set_intros(2))
    then show ?thesis using True Cons.prems by (auto simp: best_child_def)
  next
    case False
    obtain b s where "best_child anc g d cs (b0, s0) = Ok (b, s)" "b = b0 \<and> s = s0 \<or> b \<in> set cs \<and> s = w b"
      "\<forall>c\<in>set cs. w c \<le> s" "s0 \<le> s" using Cons by (metis list.set_intros(2))
    then show ?thesis using False Cons.prems by (auto simp: best_child_def)
  qed
qed (simp add: best_child_def)

text \<open>
  What the fork choice relies on: in a valid state of the store the known blocks are a finite set of trees, with the
  depth, the parent and the children of each block reported correctly, and an error for other blocks.
\<close>

locale chain_store =
  fixes query :: "'st \<Rightarrow> ('id, 'b, 's, 'k, 'a, 'e) ChainQuery"
    and parent_id :: "'b \<Rightarrow> 'id option"
    and valid :: "'st \<Rightarrow> bool"
    and known :: "'st \<Rightarrow> 'id set"
    and par :: "'st \<Rightarrow> 'id \<Rightarrow> 'id option"
    and dep :: "'st \<Rightarrow> 'id \<Rightarrow> nat"
  assumes finite_known: "valid st \<Longrightarrow> finite (known st)"
    and depth_known: "valid st \<Longrightarrow> x \<in> known st \<Longrightarrow> depth_at (query st) x = Ok (dep st x)"
    and block_known: "valid st \<Longrightarrow> x \<in> known st \<Longrightarrow> \<exists>b. block_at (query st) x = Ok b \<and> parent_id b = par st x"
    and children_known: "valid st \<Longrightarrow> x \<in> known st \<Longrightarrow>
      \<exists>cs. children_at (query st) x = Ok cs \<and> set cs = {c \<in> known st. par st c = Some x}"
    and parent_known: "valid st \<Longrightarrow> x \<in> known st \<Longrightarrow> par st x = Some p \<Longrightarrow> p \<in> known st \<and> dep st x = Suc (dep st p)"
    and root_depth: "valid st \<Longrightarrow> x \<in> known st \<Longrightarrow> par st x = None \<Longrightarrow> dep st x = 0"
    and unknown_depth: "valid st \<Longrightarrow> x \<notin> known st \<Longrightarrow> \<exists>e. depth_at (query st) x = Err e"
begin

lemma ancestor_loop_known:
  assumes "valid st" "x \<in> known st"
  shows "\<exists>a. ancestor_loop parent_id (query st) x d = Some (Ok a) \<and> a \<in> known st \<and>
     descends (par st) x a \<and> dep st a = min d (dep st x)"
  using assms(2)
proof (induction "dep st x" arbitrary: x)
  case 0
  then show ?case using depth_known [OF assms(1), of x]
    by (subst ancestor_loop.simps) (auto intro: descends_refl)
next
  case (Suc n)
  show ?case
  proof (cases "dep st x > d")
    case True
    obtain p where p: "par st x = Some p" using Suc root_depth [OF assms(1)] by (cases "par st x") auto
    obtain b where b: "block_at (query st) x = Ok b" "parent_id b = par st x"
      using block_known [OF assms(1) Suc(3)] by blast
    have pk: "p \<in> known st" "dep st x = Suc (dep st p)" using parent_known [OF assms(1) Suc(3) p] by blast+
    then have "n = dep st p" using Suc(2) by simp
    then obtain a where a: "ancestor_loop parent_id (query st) p d = Some (Ok a)" "a \<in> known st"
      "descends (par st) p a" "dep st a = min d (dep st p)" using Suc(1) pk(1) by blast
    have "ancestor_loop parent_id (query st) x d = Some (Ok a)"
      using depth_known [OF assms(1) Suc(3)] True b p a(1) by (subst ancestor_loop.simps) simp
    then show ?thesis using a pk(2) True p by (auto intro: descends_parent)
  next
    case False
    then show ?thesis using depth_known [OF assms(1) Suc(3)] Suc(3)
      by (subst ancestor_loop.simps) (auto intro: descends_refl)
  qed
qed

lemma descends_depth:
  assumes "valid st" "descends (par st) x b" "x \<in> known st"
  shows "b \<in> known st \<and> dep st b \<le> dep st x \<and> (dep st b = dep st x \<longrightarrow> b = x)"
  using assms(2,3)
proof (induction rule: descends.induct)
  case (descends_parent y p x)
  have "p \<in> known st" "dep st y = Suc (dep st p)" using parent_known [OF assms(1) descends_parent(4,1)] by blast+
  then show ?case using descends_parent(3) by simp
qed simp

lemma descends_unique:
  assumes "valid st" "descends (par st) x a" "descends (par st) x b" "x \<in> known st" "dep st a = dep st b"
  shows "a = b"
  using assms(2-5)
proof (induction rule: descends.induct)
  case (descends_refl x)
  then show ?case using descends_depth [OF assms(1)] by metis
next
  case (descends_parent y p a)
  have p: "p \<in> known st" "dep st y = Suc (dep st p)"
    using parent_known [OF assms(1) descends_parent(5,1)] by blast+
  have "dep st a \<le> dep st p" using descends_depth [OF assms(1) descends_parent(2) p(1)] by blast
  then have "b \<noteq> y" using p(2) descends_parent(6) by auto
  then have "descends (par st) p b" using descends_parent(1,4) by (auto elim: descends.cases)
  then show ?case using descends_parent(3,6) p(1) by blast
qed

lemma vote_count_weight:
  assumes "valid st" "ghost_wf g" "ran (latest_vote g) \<subseteq> known st" "c \<in> known st"
  shows "vote_count (ancestor_at parent_id (query st)) g c (dep st c) = Ok (vote_weight (par st) g c)"
proof -
  define f where "f t = (SOME a. ancestor_at parent_id (query st) t (dep st c) = Ok a)" for t
  have f: "ancestor_at parent_id (query st) t (dep st c) = Ok (f t) \<and> (f t = c \<longleftrightarrow> descends (par st) t c)"
    if t: "t \<in> known st" for t
  proof -
    obtain a where a: "ancestor_at parent_id (query st) t (dep st c) = Ok a" "descends (par st) t a"
      "dep st a = min (dep st c) (dep st t)"
      using ancestor_loop_known [OF assms(1) t, of "dep st c"] by (auto simp: ancestor_at_def or_diverge_def)
    have "a = c" if "descends (par st) t c"
      using descends_unique [OF assms(1) a(2) that t] descends_depth [OF assms(1) that t] a(3) by simp
    moreover have "f t = a" using a(1) by (simp add: f_def)
    ultimately show ?thesis using a by blast
  qed
  have known: "t \<in> known st" if "latest_vote g v = Some t" for v t using assms(3) that by (auto simp: ran_def)
  have "vote_count (ancestor_at parent_id (query st)) g c (dep st c) =
      Ok (card {v. \<exists>t. latest_vote g v = Some t \<and> f t = c})"
    using f known by (intro vote_count_card [OF assms(2)]) blast
  also have "{v. \<exists>t. latest_vote g v = Some t \<and> f t = c} = {v. \<exists>t. latest_vote g v = Some t \<and> descends (par st) t c}"
    using f known by blast
  finally show ?thesis by (simp add: vote_weight_def)
qed

lemma head_loop_known:
  assumes "valid st" "ghost_wf g" "ran (latest_vote g) \<subseteq> known st" "x \<in> known st"
  shows "\<exists>h. head_loop (ancestor_at parent_id (query st)) (query st) g x (dep st x) = Some (Ok h) \<and>
     (ghost_child (known st) (par st) g)\<^sup>*\<^sup>* x h \<and> h \<in> known st \<and> (\<nexists>c. c \<in> known st \<and> par st c = Some h)"
  using assms(4)
proof (induction "card {y \<in> known st. dep st x < dep st y}" arbitrary: x rule: less_induct)
  case less
  obtain cs where cs: "children_at (query st) x = Ok cs" "set cs = {c \<in> known st. par st c = Some x}"
    using children_known [OF assms(1) less(2)] by blast
  show ?case
  proof (cases "cs = []")
    case True
    then show ?thesis using cs less(2) by (subst head_loop.simps) auto
  next
    case False
    have dc: "c \<in> known st \<and> dep st c = Suc (dep st x)" if "c \<in> set cs" for c
      using that parent_known [OF assms(1)] cs(2) by blast
    then have "\<forall>c\<in>set cs. vote_count (ancestor_at parent_id (query st)) g c (dep st x + 1) = Ok (vote_weight (par st) g c)"
      using vote_count_weight [OF assms(1-3)] by fastforce
    from best_child_max [OF this, of "cs ! 0" 0] obtain b s where
      b: "best_child (ancestor_at parent_id (query st)) g (dep st x + 1) cs (cs ! 0, 0) = Ok (b, s)"
      "b = cs ! 0 \<and> s = 0 \<or> b \<in> set cs \<and> s = vote_weight (par st) g b" "\<forall>c\<in>set cs. vote_weight (par st) g c \<le> s" by auto
    have bc: "b \<in> set cs" using b(2) False by auto
    have "\<forall>c\<in>set cs. vote_weight (par st) g c \<le> vote_weight (par st) g b" using b(2,3) by fastforce
    then have step: "ghost_child (known st) (par st) g x b" using bc cs(2) by (auto simp: ghost_child_def)
    have "{y \<in> known st. dep st b < dep st y} \<subseteq> {y \<in> known st. dep st x < dep st y}"
      "b \<in> {y \<in> known st. dep st x < dep st y} - {y \<in> known st. dep st b < dep st y}" using dc [OF bc] by auto
    then have "{y \<in> known st. dep st b < dep st y} \<subset> {y \<in> known st. dep st x < dep st y}" by blast
    then have "card {y \<in> known st. dep st b < dep st y} < card {y \<in> known st. dep st x < dep st y}"
      using finite_known [OF assms(1)] by (intro psubset_card_mono) auto
    then obtain h where h: "head_loop (ancestor_at parent_id (query st)) (query st) g b (dep st b) = Some (Ok h)"
      "(ghost_child (known st) (par st) g)\<^sup>*\<^sup>* b h" "h \<in> known st" "\<nexists>c. c \<in> known st \<and> par st c = Some h"
      using less(1) [of b] dc [OF bc] by blast
    have "head_loop (ancestor_at parent_id (query st)) (query st) g x (dep st x) = Some (Ok h)"
      using cs(1) False b(1) h(1) dc [OF bc] by (subst head_loop.simps) simp
    then show ?thesis using h step by (meson converse_rtranclp_into_rtranclp)
  qed
qed

lemma head_known:
  assumes "valid (backend g)" "ghost_wf g" "ran (latest_vote g) \<subseteq> known (backend g)" "x \<in> known (backend g)"
  shows "\<exists>h. head query parent_id g x = Ok h \<and>
     (ghost_child (known (backend g)) (par (backend g)) g)\<^sup>*\<^sup>* x h \<and> h \<in> known (backend g) \<and>
     (\<nexists>c. c \<in> known (backend g) \<and> par (backend g) c = Some h)"
  using head_loop_known [OF assms] depth_known [OF assms(1,4)] by (auto simp: head_def Let_def or_diverge_def)

text \<open>The other outcomes: an unknown justified block, one without children, and a vote for an unknown block.\<close>

lemma head_unknown: "valid (backend g) \<Longrightarrow> x \<notin> known (backend g) \<Longrightarrow> \<exists>e. head query parent_id g x = Err e"
  using unknown_depth [of "backend g" x] by (auto simp: head_def Let_def)

lemma head_leaf:
  assumes "valid (backend g)" "x \<in> known (backend g)" "\<nexists>c. c \<in> known (backend g) \<and> par (backend g) c = Some x"
  shows "head query parent_id g x = Ok x"
proof -
  obtain cs where cs: "children_at (query (backend g)) x = Ok cs" "set cs = {c \<in> known (backend g). par (backend g) c = Some x}"
    using children_known [OF assms(1,2)] by blast
  have "set cs = {}" unfolding cs(2) using assms(3) by auto
  then have "children_at (query (backend g)) x = Ok []" using cs(1) by simp
  then have "head_loop (ancestor_at parent_id (query (backend g))) (query (backend g)) g x d = Some (Ok x)" for d
    by (subst head_loop.simps) simp
  then show ?thesis using depth_known [OF assms(1,2)] by (simp add: head_def Let_def or_diverge_def)
qed

lemma ancestor_at_outcome:
  assumes "valid st"
  shows "may_fail (ancestor_at parent_id (query st) t d)"
    and "t \<notin> known st \<Longrightarrow> \<exists>e. ancestor_at parent_id (query st) t d = Err e"
proof -
  show unknown: "\<exists>e. ancestor_at parent_id (query st) t d = Err e" if t: "t \<notin> known st"
  proof -
    obtain e where "depth_at (query st) t = Err e" using unknown_depth [OF assms t] by blast
    then have "ancestor_loop parent_id (query st) t d = Some (Err e)" by (subst ancestor_loop.simps) simp
    then show ?thesis by (simp add: ancestor_at_def or_diverge_def)
  qed
  show "may_fail (ancestor_at parent_id (query st) t d)"
    using unknown ancestor_loop_known [OF assms, of t d] by (cases "t \<in> known st") (auto simp: ancestor_at_def or_diverge_def may_fail_cases)
qed

lemma head_unknown_vote:
  assumes "valid (backend g)" "x \<in> known (backend g)" "c \<in> known (backend g)" "par (backend g) c = Some x"
    and "\<not> ran (latest_vote g) \<subseteq> known (backend g)"
  shows "\<exists>e. head query parent_id g x = Err e"
proof -
  let ?anc = "ancestor_at parent_id (query (backend g))"
  obtain v t where t: "latest_vote g v = Some t" "t \<notin> known (backend g)" using assms(5) by (auto simp: ran_def)
  obtain cs where cs: "children_at (query (backend g)) x = Ok cs" "set cs = {c \<in> known (backend g). par (backend g) c = Some x}"
    using children_known [OF assms(1,2)] by blast
  then obtain y ys where y: "cs = y # ys" using assms(3,4) by (cases cs) auto
  have "\<exists>e. vote_count ?anc g y d = Err e" for d
  proof -
    obtain e where "?anc t d = Err e" using ancestor_at_outcome(2) [OF assms(1) t(2)] by blast
    then show ?thesis by (intro vote_count_fails [where anc = ?anc, OF _ t(1)] ancestor_at_outcome(1) [OF assms(1)])
  qed
  note count = this
  have "\<exists>e. best_child ?anc g d cs b = Err e" for d b
    using count [of d] by (cases b) (auto simp: best_child_def y)
  then obtain e where "best_child ?anc g (dep (backend g) x + 1) cs (cs ! 0, 0) = Err e" by blast
  then have "head_loop ?anc (query (backend g)) g x (dep (backend g) x) = Some (Err e)"
    using cs(1) y by (subst head_loop.simps) simp
  then show ?thesis using depth_known [OF assms(1,2)] by (simp add: head_def Let_def or_diverge_def)
qed

end

section \<open>Properties\<close>

text \<open>
  C15: The two hash maps refine a vote book of committed and pending votes: recording, committing, dropping and
  pruning votes act on the maps alone, keep the representation well-formed, and the count for a block
  is the number of validators whose latest vote, pending before committed, has it as ancestor.
\<close>

theorem ghost_votes_refine:
  assumes "ghost_wf g" "\<And>v t. latest_vote g v = Some t \<Longrightarrow> anc t d = Ok (f t)"
  shows "vote_book (update_overlay v t g) = (fst (vote_book g), (snd (vote_book g))(v \<mapsto> t)) \<and>
    vote_book (commit_overlay g) = (fst (vote_book g) ++ snd (vote_book g), Map.empty) \<and>
    vote_book (reset_overlay g) = (fst (vote_book g), Map.empty) \<and>
    vote_book (update_active active g) = (fst (vote_book g) |` set active, snd (vote_book g)) \<and>
    ghost_wf (update_overlay v t g) \<and> ghost_wf (commit_overlay g) \<and> ghost_wf (reset_overlay g) \<and>
    ghost_wf (update_active active g) \<and>
    vote_count anc g blk d =
      Ok (card {v. \<exists>t. (fst (vote_book g) ++ snd (vote_book g)) v = Some t \<and> f t = blk})"
proof -
  have "distinct (map fst (overlayed_votes g))" using assms(1) by (simp add: ghost_wf_def)
  note vote_book_ops(1) [of v t g] vote_book_ops(3) [of g] vote_book_ops(4) [of active g] vote_book_ops(2) [OF this]
    ghost_wf_ops(1-4) [OF assms(1)]
  moreover have "latest_vote g = fst (vote_book g) ++ snd (vote_book g)" by (simp add: latest_vote_def vote_book_def)
  moreover have "vote_count anc g blk d = Ok (card {v. \<exists>t. latest_vote g v = Some t \<and> f t = blk})"
    by (rule vote_count_card [OF assms(1)]) (rule assms(2))
  ultimately show ?thesis by simp
qed

text \<open>Three validators; the pending vote of validator 1 replaces its committed one.\<close>

definition sample_ghost :: "(unit, nat, nat) ArchiveGhost" where
  "sample_ghost = \<lparr>backend = (), votes = [(0, 7), (1, 7), (2, 8)], overlayed_votes = [(1, 8)]\<rparr>"

theorem ghost_votes_refine_witness:
  "vote_book (commit_overlay sample_ghost) = ([0 \<mapsto> 7, 1 \<mapsto> 8, 2 \<mapsto> 8], Map.empty) \<and>
   vote_count (\<lambda>t d. Ok t :: (unit, nat) res) sample_ghost 8 3 = Ok 2"
proof -
  have wf: "ghost_wf sample_ghost" by (simp add: ghost_wf_def sample_ghost_def)
  have l: "fst (vote_book sample_ghost) ++ snd (vote_book sample_ghost) = [0 \<mapsto> 7, 1 \<mapsto> 8, 2 \<mapsto> 8]"
    by (auto simp: vote_book_def sample_ghost_def fun_eq_iff map_add_def)
  then have "{v. \<exists>t. (fst (vote_book sample_ghost) ++ snd (vote_book sample_ghost)) v = Some t \<and> t = 8} = {1, 2}"
    by auto
  then show ?thesis
    using ghost_votes_refine [where g = sample_ghost and anc = "\<lambda>t d. Ok t :: (unit, nat) res" and f = "\<lambda>t. t" and
        d = 3 and blk = 8 and v = 0 and t = 0 and active = "[]"] wf l
    by simp
qed

lemma for_each_overlay:
  "for_each vs (\<lambda>(k, v). emod (update_overlay k v)) g = (Ok (), foldl (\<lambda>g (k, v). update_overlay k v g) g vs)"
  by (induction vs arbitrary: g) (auto simp: exec_simps eseq_run split: prod.splits)

lemma backend_update_overlay: "backend (update_overlay v t g) = backend g"
  by (simp add: update_overlay_def)

lemma vote_book_backend: "vote_book (g\<lparr>backend := st\<rparr>) = vote_book g" "ghost_wf (g\<lparr>backend := st\<rparr>) = ghost_wf g"
  by (simp_all add: vote_book_def ghost_wf_def)

lemma foldl_overlay:
  "vote_book (foldl (\<lambda>g (k, v). update_overlay k v g) g vs) = (fst (vote_book g), snd (vote_book g) ++ map_of (rev vs))"
  "ghost_wf g \<Longrightarrow> ghost_wf (foldl (\<lambda>g (k, v). update_overlay k v g) g vs)"
  "backend (foldl (\<lambda>g (k, v). update_overlay k v g) g vs) = backend g"
  by (induction vs arbitrary: g) (auto simp: vote_book_ops ghost_wf_ops backend_update_overlay split: prod.splits)

text \<open>
  C17: An import of a block is all or nothing for the votes: starting without pending votes it ends without, and the
  committed votes are then either unchanged, or pruned to the justified active validators, and in
  the latter case extended by the votes of the block exactly if the new head was committed.
\<close>

theorem import_raw_votes:
  assumes wf: "ghost_wf g" "overlayed_votes g = []"
    and run: "import_raw query parent_id commit X b s g = (r, g')" "r \<noteq> Panic" "r \<noteq> Diverge"
  shows "ghost_wf g' \<and> overlayed_votes g' = [] \<and>
    (g' = g \<and> r \<noteq> Ok () \<or>
     (\<exists>active vs st. justified_active X s = Ok active \<and> block_votes X b s = Ok vs \<and>
        commit (backend g) (ImportBlock b s) = Ok st \<and>
        (map_of (votes g') = map_of (votes g) |` set active \<and> backend g' = st \<or>
         r = Ok () \<and> map_of (votes g') = (map_of (votes g) |` set active) ++ map_of (rev vs) \<and>
         (\<exists>h. commit st (SetHead h) = Ok (backend g')))))"
proof (cases "g' = g \<and> r \<noteq> Ok ()")
  case True
  then show ?thesis using wf by blast
next
  case False
  obtain active j vs st where pre: "justified_active X s = Ok active" "justified_block_id X s = Ok j"
    "block_votes X b s = Ok vs" "commit (backend g) (ImportBlock b s) = Ok st"
    using run(1) False
    by (cases "justified_active X s"; cases "justified_block_id X s"; cases "block_votes X b s";
        cases "commit (backend g) (ImportBlock b s)")
      (auto simp: import_raw_def commit_operation_def ebind_eget eseq_def exec_simps)
  let ?g = "update_active active (foldl (\<lambda>g (k, v). update_overlay k v g) (g\<lparr>backend := st\<rparr>) vs)"
  have g: "vote_book ?g = (map_of (votes g) |` set active, map_of (rev vs))" "ghost_wf ?g"
    using wf by (simp_all add: vote_book_ops ghost_wf_ops foldl_overlay vote_book_backend) (simp_all add: vote_book_def)
  have st: "backend ?g = st" using foldl_overlay(3) [of "g\<lparr>backend := st\<rparr>" vs] by (simp add: update_active_def)
  have fin: "(r, g') = (case head query parent_id ?g (case j of Some i \<Rightarrow> i | None \<Rightarrow> query_genesis (query (backend g))) of
      Ok new_head \<Rightarrow> (case commit (backend ?g) (SetHead new_head) of Ok st' \<Rightarrow> (Ok (), commit_overlay (?g\<lparr>backend := st'\<rparr>))
        | Err _ \<Rightarrow> (Ok (), reset_overlay ?g) | Panic \<Rightarrow> (Panic, ?g) | Diverge \<Rightarrow> (Diverge, ?g))
    | Err e \<Rightarrow> (Err (BackendError e), reset_overlay ?g) | Panic \<Rightarrow> (Panic, ?g) | Diverge \<Rightarrow> (Diverge, ?g))"
    using run(1) pre
    by (simp add: import_raw_def commit_operation_def ebind_eget eseq_def exec_simps for_each_overlay)
  consider (kept) "g' = reset_overlay ?g"
    | (committed) h st' where "r = Ok ()" "commit st (SetHead h) = Ok st'" "g' = commit_overlay (?g\<lparr>backend := st'\<rparr>)"
    using fin run(2,3) st by (auto split: res.splits)
  then show ?thesis
  proof cases
    case kept
    then show ?thesis using pre g st ghost_wf_ops(3) [OF g(2)] by (auto simp: reset_overlay_def vote_book_def)
  next
    case committed
    let ?h = "?g\<lparr>backend := st'\<rparr>"
    have h: "ghost_wf ?h" "vote_book ?h = vote_book ?g" using g(2) by (simp_all add: vote_book_backend)
    then have "distinct (map fst (overlayed_votes ?h))" unfolding ghost_wf_def by blast
    then have "vote_book g' = ((map_of (votes g) |` set active) ++ map_of (rev vs), Map.empty)"
      unfolding committed(3) by (simp only: vote_book_ops(2) h(2) g(1) fst_conv snd_conv)
    moreover have "ghost_wf g'" unfolding committed(3) by (rule ghost_wf_ops(2) [OF h(1)])
    moreover have "overlayed_votes g' = []" "backend g' = st'" by (simp_all add: committed(3) commit_overlay_def)
    ultimately show ?thesis using pre committed(1,2) by (auto simp: vote_book_def)
  qed
qed

text \<open>A store with a genesis block 0 and its child 1, whose state is the head.\<close>

definition two_blocks :: "nat \<Rightarrow> (nat, nat, unit, unit, unit, unit) ChainQuery" where
  "two_blocks h = \<lparr>query_genesis = 0, query_head = h, contains = (\<lambda>i. Ok (i < 2)), is_canon = (\<lambda>i. Ok (i \<le> h)),
     lookup_canon_depth = (\<lambda>d. Ok (if d \<le> h then Some d else None)), auxiliary = (\<lambda>_. Ok None),
     depth_at = Ok, children_at = (\<lambda>i. Ok (if i = 0 then [1] else [])), state_at = (\<lambda>_. Ok ()), block_at = Ok\<rparr>"

definition block_parent :: "nat \<Rightarrow> nat option" where
  "block_parent b = (if b = 0 then None else Some (b - 1))"

fun commit_two_blocks :: "nat \<Rightarrow> (nat, unit, nat) import_operation \<Rightarrow> (unit, nat) res" where
  "commit_two_blocks h (ImportBlock b s) = Ok h"
| "commit_two_blocks h (SetHead i) = Ok i"

definition sample_executor :: "(nat, unit, nat, nat, unit) JustifiableExecutor" where
  "sample_executor = \<lparr>execute = (\<lambda>_ s. Ok s), justified_active = (\<lambda>_. Ok [0, 1]), justified_block_id = (\<lambda>_. Ok None),
     block_votes = (\<lambda>b _. Ok [(1, b)])\<rparr>"

declare ancestor_loop.simps [code] head_loop.simps [code]

theorem import_raw_votes_witness:
  "map_of (votes (snd (import_raw two_blocks block_parent commit_two_blocks sample_executor 1 ()
     \<lparr>backend = 0, votes = [(0, 0), (2, 1)], overlayed_votes = []\<rparr>))) = [0 \<mapsto> 0, 1 \<mapsto> 1]"
proof -
  let ?g = "\<lparr>backend = 0, votes = [(0, 0), (2, 1)], overlayed_votes = []\<rparr> :: (nat, nat, nat) ArchiveGhost"
  obtain r g' where run: "import_raw two_blocks block_parent commit_two_blocks sample_executor 1 () ?g = (r, g')" by force
  have r: "import_raw two_blocks block_parent commit_two_blocks sample_executor 1 () ?g =
      (Ok (), \<lparr>backend = 1, votes = [(0, 0), (1, 1)], overlayed_votes = []\<rparr>)" by code_simp
  have "map_of (votes g') = map_of (votes ?g) |` {0, 1} \<and> backend g' = 0 \<or>
      map_of (votes g') = (map_of (votes ?g) |` {0, 1}) ++ [1 \<mapsto> 1]"
    using import_raw_votes [OF _ _ run] r run by (auto simp: ghost_wf_def sample_executor_def)
  moreover have "backend g' \<noteq> 0" using r run by auto
  moreover have "(map_of (votes ?g) |` {0, 1}) ++ [1 \<mapsto> 1] = [0 \<mapsto> 0, 1 \<mapsto> (1 :: nat)]"
    by (auto simp: fun_eq_iff map_add_def restrict_map_def)
  ultimately show ?thesis using run by simp
qed

end
