(* ===== verification/Rocks_Backend.thy ===== *)
theory Rocks_Backend
  imports LMD_Ghost
begin

text \<open>
  The block store on RocksDB, crate \<^verbatim>\<open>blockchain/common/rocksdb\<close>. The database library and the byte encodings of
  \<^verbatim>\<open>parity_codec\<close> are parameters: the records \<open>RocksDB\<close> and \<open>Coding\<close>, with the behaviour the code relies on in
  \<open>rocksdb_law\<close> and \<open>coding_ok\<close>. A settlement collects changes of rows and commits them as one batch. The
  store is shown to implement maps from identifiers to blocks, to keep a tree of blocks when blocks are
  imported, and so to be a store the fork choice can run on.
\<close>

section \<open>Parameters\<close>

datatype rocks_error =
    InvalidOperation
  | BlockIsGenesis
  | NotExist
  | Corrupted
  | Rocks string

text \<open>
  A batch lists the rows it puts (with a value) or deletes. \<open>batch_row\<close> is the error of \<^verbatim>\<open>put_cf\<close> or \<^verbatim>\<open>delete_cf\<close> for
  one row, if any.
\<close>

type_synonym row = "string \<times> bytes"

record 'db RocksDB =
  cf_handle :: "'db \<Rightarrow> string \<Rightarrow> bool"
  get_cf :: "'db \<Rightarrow> string \<Rightarrow> bytes \<Rightarrow> string + bytes option"
  batch_row :: "row \<Rightarrow> bytes option \<Rightarrow> string option"
  write_batch :: "'db \<Rightarrow> (row \<times> bytes option) list \<Rightarrow> string + 'db"

record ('id, 'b, 'r) BlockData =
  data_block :: 'b
  data_state :: 'r
  data_depth :: u64
  data_children :: "'id list"
  data_is_canon :: bool

record ('id, 'b, 's, 'r, 'k, 'a) Coding =
  id_encode :: "'id \<Rightarrow> bytes"
  id_decode :: "bytes \<Rightarrow> 'id option"
  data_encode :: "('id, 'b, 'r) BlockData \<Rightarrow> bytes"
  data_decode :: "bytes \<Rightarrow> ('id, 'b, 'r) BlockData option"
  depth_encode :: "u64 \<Rightarrow> bytes"
  key_encode :: "'k \<Rightarrow> bytes"
  aux_encode :: "'a \<Rightarrow> bytes"
  aux_decode :: "bytes \<Rightarrow> 'a option"
  str_encode :: "string \<Rightarrow> bytes"
  into_raw :: "'s \<Rightarrow> 'r"
  from_raw :: "'r \<Rightarrow> 's"
  block_id :: "'b \<Rightarrow> 'id"
  block_parent_id :: "'b \<Rightarrow> 'id option"

section \<open>Reading rows (utils.rs)\<close>

definition COLUMN_BLOCKS :: string where
  "COLUMN_BLOCKS = ''blocks''"

definition COLUMN_CANON_DEPTH_MAPPINGS :: string where
  "COLUMN_CANON_DEPTH_MAPPINGS = ''canon_depth_mappings''"

definition COLUMN_AUXILIARIES :: string where
  "COLUMN_AUXILIARIES = ''auxiliaries''"

definition COLUMN_INFO :: string where
  "COLUMN_INFO = ''info''"

definition KEY_HEAD :: string where
  "KEY_HEAD = ''head''"

definition KEY_GENESIS :: string where
  "KEY_GENESIS = ''genesis''"

text \<open>Read a row of a column that must exist, and decode it.\<close>

definition fetch_row :: "'db RocksDB \<Rightarrow> 'db \<Rightarrow> string \<Rightarrow> bytes \<Rightarrow> (bytes \<Rightarrow> 'x option) \<Rightarrow> (rocks_error, 'x option) res" where
  "fetch_row L db column k dec =
     (if \<not> cf_handle L db column then Err Corrupted else
      (case get_cf L db column k of
         Inl e \<Rightarrow> Err (Rocks e)
       | Inr (Some v) \<Rightarrow> (case dec v of Some x \<Rightarrow> Ok (Some x) | None \<Rightarrow> Err Corrupted)
       | Inr None \<Rightarrow> Ok None))"

definition fetch_block_data ::
  "'db RocksDB \<Rightarrow> ('id, 'b, 's, 'r, 'k, 'a) Coding \<Rightarrow> 'db \<Rightarrow> 'id \<Rightarrow> (rocks_error, ('id, 'b, 'r) BlockData option) res" where
  "fetch_block_data L P db i = fetch_row L db COLUMN_BLOCKS (id_encode P i) (data_decode P)"

definition fetch_head :: "'db RocksDB \<Rightarrow> ('id, 'b, 's, 'r, 'k, 'a) Coding \<Rightarrow> 'db \<Rightarrow> (rocks_error, 'id option) res" where
  "fetch_head L P db = fetch_row L db COLUMN_INFO (str_encode P KEY_HEAD) (id_decode P)"

definition fetch_genesis :: "'db RocksDB \<Rightarrow> ('id, 'b, 's, 'r, 'k, 'a) Coding \<Rightarrow> 'db \<Rightarrow> (rocks_error, 'id option) res" where
  "fetch_genesis L P db = fetch_row L db COLUMN_INFO (str_encode P KEY_GENESIS) (id_decode P)"

section \<open>Queries (backend.rs)\<close>

record ('db, 'id) RocksBackend =
  rocks_db :: 'db
  rocks_head :: 'id
  rocks_genesis :: 'id

text \<open>\<^verbatim>\<open>fetch_block_data(..)?.ok_or(Error::NotExist)?\<close>\<close>

definition existing_block ::
  "'db RocksDB \<Rightarrow> ('id, 'b, 's, 'r, 'k, 'a) Coding \<Rightarrow> 'db \<Rightarrow> 'id \<Rightarrow> (rocks_error, ('id, 'b, 'r) BlockData) res" where
  "existing_block L P db i =
     rbind (fetch_block_data L P db i) (\<lambda>r. case r of Some d \<Rightarrow> Ok d | None \<Rightarrow> Err NotExist)"

definition rocks_query ::
  "'db RocksDB \<Rightarrow> ('id, 'b, 's, 'r, 'k, 'a) Coding \<Rightarrow> ('db, 'id) RocksBackend \<Rightarrow>
   ('id, 'b, 's, 'k, 'a, rocks_error) ChainQuery" where
  "rocks_query L P r = \<lparr>
     query_genesis = rocks_genesis r,
     query_head = rocks_head r,
     contains = (\<lambda>i. rbind (fetch_block_data L P (rocks_db r) i) (\<lambda>d. Ok (d \<noteq> None))),
     is_canon = (\<lambda>i. rbind (existing_block L P (rocks_db r) i) (\<lambda>d. Ok (data_is_canon d))),
     lookup_canon_depth = (\<lambda>d.
       fetch_row L (rocks_db r) COLUMN_CANON_DEPTH_MAPPINGS (depth_encode P (of_nat d)) (id_decode P)),
     auxiliary = (\<lambda>k. fetch_row L (rocks_db r) COLUMN_AUXILIARIES (key_encode P k) (aux_decode P)),
     depth_at = (\<lambda>i. rbind (existing_block L P (rocks_db r) i) (\<lambda>d. Ok (unat (data_depth d)))),
     children_at = (\<lambda>i. rbind (existing_block L P (rocks_db r) i) (\<lambda>d. Ok (data_children d))),
     state_at = (\<lambda>i. rbind (existing_block L P (rocks_db r) i) (\<lambda>d. Ok (from_raw P (data_state d)))),
     block_at = (\<lambda>i. rbind (existing_block L P (rocks_db r) i) (\<lambda>d. Ok (data_block d)))\<rparr>"

section \<open>Settlements (settlement.rs)\<close>

record 'id RocksSettlement =
  changes :: "(row \<times> bytes option) list"
  new_head :: "'id option"
  last_error :: "rocks_error option"

definition new_settlement :: "'id RocksSettlement" where
  "new_settlement = \<lparr>changes = [], new_head = None, last_error = None\<rparr>"

text \<open>
  A settlement answers every query from the backend below it, without its own changes.
\<close>

definition settlement_query ::
  "'db RocksDB \<Rightarrow> ('id, 'b, 's, 'r, 'k, 'a) Coding \<Rightarrow> ('db, 'id) RocksBackend \<Rightarrow> 'id RocksSettlement \<Rightarrow>
   ('id, 'b, 's, 'k, 'a, rocks_error) ChainQuery" where
  "settlement_query L P r t = \<lparr>
     query_genesis = query_genesis (rocks_query L P r),
     query_head = query_head (rocks_query L P r),
     contains = (\<lambda>i. rbind (contains (rocks_query L P r) i) Ok),
     is_canon = (\<lambda>i. rbind (is_canon (rocks_query L P r) i) Ok),
     lookup_canon_depth = (\<lambda>i. rbind (lookup_canon_depth (rocks_query L P r) i) Ok),
     auxiliary = (\<lambda>i. rbind (auxiliary (rocks_query L P r) i) Ok),
     depth_at = (\<lambda>i. rbind (depth_at (rocks_query L P r) i) Ok),
     children_at = (\<lambda>i. rbind (children_at (rocks_query L P r) i) Ok),
     state_at = (\<lambda>i. rbind (state_at (rocks_query L P r) i) Ok),
     block_at = (\<lambda>i. rbind (block_at (rocks_query L P r) i) Ok)\<rparr>"

lemma settlement_query_committed: "settlement_query L P r t = rocks_query L P r"
proof -
  have "rbind v Ok = v" for v :: "('e, 'y) res" by (cases v) simp_all
  then show ?thesis by (simp add: settlement_query_def)
qed

text \<open>The guard at the start of every operation, and the change of a row.\<close>

definition unless_failed :: "('id RocksSettlement \<Rightarrow> 'id RocksSettlement) \<Rightarrow> 'id RocksSettlement \<Rightarrow> 'id RocksSettlement" where
  "unless_failed f t = (if last_error t \<noteq> None then t else f t)"

definition change :: "string \<Rightarrow> bytes \<Rightarrow> bytes option \<Rightarrow> 'id RocksSettlement \<Rightarrow> 'id RocksSettlement" where
  "change column k v t = t\<lparr>changes := AList.update (column, k) v (changes t)\<rparr>"

definition insert_block ::
  "('id, 'b, 's, 'r, 'k, 'a) Coding \<Rightarrow> 'id \<Rightarrow> 'b \<Rightarrow> 's \<Rightarrow> nat \<Rightarrow> 'id list \<Rightarrow> bool \<Rightarrow>
   'id RocksSettlement \<Rightarrow> 'id RocksSettlement" where
  "insert_block P i b s d cs canon = unless_failed (change COLUMN_BLOCKS (id_encode P i)
     (Some (data_encode P \<lparr>data_block = b, data_state = into_raw P s, data_depth = of_nat d, data_children = cs,
       data_is_canon = canon\<rparr>)))"

text \<open>A row is read from the database, changed, and written back to the changes.\<close>

definition modify_block ::
  "'db RocksDB \<Rightarrow> ('id, 'b, 's, 'r, 'k, 'a) Coding \<Rightarrow> ('db, 'id) RocksBackend \<Rightarrow> 'id \<Rightarrow>
   (('id, 'b, 'r) BlockData \<Rightarrow> ('id, 'b, 'r) BlockData) \<Rightarrow> 'id RocksSettlement \<Rightarrow> 'id RocksSettlement" where
  "modify_block L P r i f = unless_failed (\<lambda>t.
     case fetch_block_data L P (rocks_db r) i of
       Ok (Some d) \<Rightarrow> change COLUMN_BLOCKS (id_encode P i) (Some (data_encode P (f d))) t
     | Ok None \<Rightarrow> t\<lparr>last_error := Some Corrupted\<rparr>
     | Err e \<Rightarrow> t\<lparr>last_error := Some e\<rparr>
     | _ \<Rightarrow> t)"

definition push_child ::
  "'db RocksDB \<Rightarrow> ('id, 'b, 's, 'r, 'k, 'a) Coding \<Rightarrow> ('db, 'id) RocksBackend \<Rightarrow> 'id \<Rightarrow> 'id \<Rightarrow>
   'id RocksSettlement \<Rightarrow> 'id RocksSettlement" where
  "push_child L P r i c = modify_block L P r i (\<lambda>d. d\<lparr>data_children := data_children d @ [c]\<rparr>)"

definition set_canon ::
  "'db RocksDB \<Rightarrow> ('id, 'b, 's, 'r, 'k, 'a) Coding \<Rightarrow> ('db, 'id) RocksBackend \<Rightarrow> 'id \<Rightarrow> bool \<Rightarrow>
   'id RocksSettlement \<Rightarrow> 'id RocksSettlement" where
  "set_canon L P r i canon = modify_block L P r i (\<lambda>d. d\<lparr>data_is_canon := canon\<rparr>)"

definition insert_canon_depth_mapping ::
  "('id, 'b, 's, 'r, 'k, 'a) Coding \<Rightarrow> nat \<Rightarrow> 'id \<Rightarrow> 'id RocksSettlement \<Rightarrow> 'id RocksSettlement" where
  "insert_canon_depth_mapping P d i = unless_failed
     (change COLUMN_CANON_DEPTH_MAPPINGS (depth_encode P (of_nat d)) (Some (id_encode P i)))"

definition remove_canon_depth_mapping ::
  "('id, 'b, 's, 'r, 'k, 'a) Coding \<Rightarrow> nat \<Rightarrow> 'id RocksSettlement \<Rightarrow> 'id RocksSettlement" where
  "remove_canon_depth_mapping P d = unless_failed
     (change COLUMN_CANON_DEPTH_MAPPINGS (depth_encode P (of_nat d)) None)"

definition insert_auxiliary ::
  "('id, 'b, 's, 'r, 'k, 'a) Coding \<Rightarrow> 'k \<Rightarrow> 'a \<Rightarrow> 'id RocksSettlement \<Rightarrow> 'id RocksSettlement" where
  "insert_auxiliary P k v = unless_failed (change COLUMN_AUXILIARIES (key_encode P k) (Some (aux_encode P v)))"

definition remove_auxiliary ::
  "('id, 'b, 's, 'r, 'k, 'a) Coding \<Rightarrow> 'k \<Rightarrow> 'id RocksSettlement \<Rightarrow> 'id RocksSettlement" where
  "remove_auxiliary P k = unless_failed (change COLUMN_AUXILIARIES (key_encode P k) None)"

definition set_head ::
  "('id, 'b, 's, 'r, 'k, 'a) Coding \<Rightarrow> 'id \<Rightarrow> 'id RocksSettlement \<Rightarrow> 'id RocksSettlement" where
  "set_head P h = unless_failed (\<lambda>t.
     change COLUMN_INFO (str_encode P KEY_HEAD) (Some (id_encode P h)) (t\<lparr>new_head := Some h\<rparr>))"

definition set_genesis ::
  "('id, 'b, 's, 'r, 'k, 'a) Coding \<Rightarrow> 'id \<Rightarrow> 'id RocksSettlement \<Rightarrow> 'id RocksSettlement" where
  "set_genesis P g = unless_failed (change COLUMN_INFO (str_encode P KEY_GENESIS) (Some (id_encode P g)))"

fun fill_batch :: "'db RocksDB \<Rightarrow> 'db \<Rightarrow> (row \<times> bytes option) list \<Rightarrow> (rocks_error, unit) res" where
  "fill_batch L db [] = Ok ()"
| "fill_batch L db (((column, k), v) # rows) =
     (if \<not> cf_handle L db column then Err Corrupted else
      (case batch_row L (column, k) v of
         Some e \<Rightarrow> Err (Rocks e)
       | None \<Rightarrow> fill_batch L db rows))"

definition settlement_commit ::
  "'db RocksDB \<Rightarrow> ('db, 'id) RocksBackend \<Rightarrow> 'id RocksSettlement \<Rightarrow> (rocks_error, 'db \<times> 'id option) res" where
  "settlement_commit L r t =
     (case last_error t of
        Some e \<Rightarrow> Err e
      | None \<Rightarrow>
          rbind (fill_batch L (rocks_db r) (changes t)) (\<lambda>_.
          case write_batch L (rocks_db r) (changes t) of Inl e \<Rightarrow> Err (Rocks e) | Inr db \<Rightarrow> Ok (db, new_head t)))"

section \<open>Commits and opening (backend.rs)\<close>

text \<open>\<open>settle\<close> is the method of the operation, which calls the settlement.\<close>

definition rocks_commit ::
  "'db RocksDB \<Rightarrow> (('db, 'id) RocksBackend \<Rightarrow> 'id RocksSettlement \<Rightarrow> (rocks_error, 'id RocksSettlement) res) \<Rightarrow>
   ('db, 'id) RocksBackend \<Rightarrow> (rocks_error, ('db, 'id) RocksBackend) res" where
  "rocks_commit L settle r =
     rbind (settle r new_settlement) (\<lambda>t.
     rbind (settlement_commit L r t) (\<lambda>(db, h).
     Ok (r\<lparr>rocks_db := db, rocks_head := (case h of Some h \<Rightarrow> h | None \<Rightarrow> rocks_head r)\<rparr>)))"

text \<open>The settlement that creates a database with a genesis block.\<close>

definition genesis_settlement ::
  "('id, 'b, 's, 'r, 'k, 'a) Coding \<Rightarrow> 'b \<Rightarrow> 's \<Rightarrow> 'id RocksSettlement" where
  "genesis_settlement P b s =
     (let g = block_id P b in
      set_head P g (set_genesis P g (insert_canon_depth_mapping P 0 g (insert_block P g b s 0 [] True new_settlement))))"

text \<open>
  \<^verbatim>\<open>open_or_create\<close> on an opened database; \<open>opened\<close> is the result of opening it, and the flag tells whether the closure \<open>f\<close> was called.
\<close>

definition open_with ::
  "'db RocksDB \<Rightarrow> ('id, 'b, 's, 'r, 'k, 'a) Coding \<Rightarrow> 'db \<Rightarrow> ('db \<Rightarrow> (rocks_error, 'b \<times> 's) res) \<Rightarrow>
   (rocks_error, ('db, 'id) RocksBackend \<times> bool) res" where
  "open_with L P db f =
     rbind (fetch_head L P db) (\<lambda>h.
     rbind (fetch_genesis L P db) (\<lambda>g.
     case (h, g) of
       (Some h, Some g) \<Rightarrow> Ok (\<lparr>rocks_db = db, rocks_head = h, rocks_genesis = g\<rparr>, False)
     | (None, None) \<Rightarrow>
         rbind (f db) (\<lambda>(b, s).
         if block_parent_id P b \<noteq> None then Panic else
         (let g = block_id P b; r = \<lparr>rocks_db = db, rocks_head = g, rocks_genesis = g\<rparr> in
          rbind (settlement_commit L r (genesis_settlement P b s)) (\<lambda>(db, _). Ok (r\<lparr>rocks_db := db\<rparr>, True))))
     | _ \<Rightarrow> Err Corrupted))"

definition open_or_create ::
  "'db RocksDB \<Rightarrow> ('id, 'b, 's, 'r, 'k, 'a) Coding \<Rightarrow> (rocks_error, 'db) res \<Rightarrow> ('db \<Rightarrow> (rocks_error, 'b \<times> 's) res) \<Rightarrow>
   (rocks_error, ('db, 'id) RocksBackend) res" where
  "open_or_create L P opened f = rbind opened (\<lambda>db. rbind (open_with L P db f) (\<lambda>(r, _). Ok r))"

definition new_with_genesis ::
  "'db RocksDB \<Rightarrow> ('id, 'b, 's, 'r, 'k, 'a) Coding \<Rightarrow> (rocks_error, 'db) res \<Rightarrow> 'b \<Rightarrow> 's \<Rightarrow>
   (rocks_error, ('db, 'id) RocksBackend) res" where
  "new_with_genesis L P opened b s =
     rbind opened (\<lambda>db. rbind (open_with L P db (\<lambda>_. Ok (b, s))) (\<lambda>(r, created). if \<not> created then Err Corrupted else Ok r))"

definition from_existing ::
  "'db RocksDB \<Rightarrow> ('id, 'b, 's, 'r, 'k, 'a) Coding \<Rightarrow> (rocks_error, 'db) res \<Rightarrow>
   (rocks_error, ('db, 'id) RocksBackend) res" where
  "from_existing L P opened = open_or_create L P opened (\<lambda>_. Err Corrupted)"

section \<open>The store as maps\<close>

text \<open>What the code relies on: the encodings are faithful, and a batch changes exactly its rows.\<close>

definition coding_ok :: "('id, 'b, 's, 'r, 'k, 'a) Coding \<Rightarrow> bool" where
  "coding_ok P \<longleftrightarrow> (\<forall>i. id_decode P (id_encode P i) = Some i) \<and> (\<forall>d. data_decode P (data_encode P d) = Some d) \<and>
     inj (depth_encode P) \<and> inj (key_encode P) \<and> (\<forall>v. aux_decode P (aux_encode P v) = Some v) \<and>
     str_encode P KEY_HEAD \<noteq> str_encode P KEY_GENESIS"

definition rocksdb_law :: "'db RocksDB \<Rightarrow> bool" where
  "rocksdb_law L \<longleftrightarrow> (\<forall>db batch db'. distinct (map fst batch) \<longrightarrow> write_batch L db batch = Inr db' \<longrightarrow>
     (\<forall>column. cf_handle L db' column = cf_handle L db column) \<and>
     (\<forall>column k. get_cf L db' column k =
       (case map_of batch (column, k) of Some v \<Rightarrow> Inr v | None \<Rightarrow> get_cf L db column k)))"

text \<open>A settlement as the list of the calls it receives from the operation.\<close>

datatype ('id, 'b, 's, 'k, 'a) settle_call =
    InsertBlock 'id 'b 's nat "'id list" bool
  | PushChild 'id 'id
  | SetCanon 'id bool
  | InsertCanonDepth nat 'id
  | RemoveCanonDepth nat
  | InsertAuxiliary 'k 'a
  | RemoveAuxiliary 'k
  | SetHeadTo 'id

fun run_call ::
  "'db RocksDB \<Rightarrow> ('id, 'b, 's, 'r, 'k, 'a) Coding \<Rightarrow> ('db, 'id) RocksBackend \<Rightarrow> ('id, 'b, 's, 'k, 'a) settle_call \<Rightarrow>
   'id RocksSettlement \<Rightarrow> 'id RocksSettlement" where
  "run_call L P r (InsertBlock i b s d cs c) = insert_block P i b s d cs c"
| "run_call L P r (PushChild i c) = push_child L P r i c"
| "run_call L P r (SetCanon i c) = set_canon L P r i c"
| "run_call L P r (InsertCanonDepth d i) = insert_canon_depth_mapping P d i"
| "run_call L P r (RemoveCanonDepth d) = remove_canon_depth_mapping P d"
| "run_call L P r (InsertAuxiliary k v) = insert_auxiliary P k v"
| "run_call L P r (RemoveAuxiliary k) = remove_auxiliary P k"
| "run_call L P r (SetHeadTo h) = set_head P h"

definition settle_calls ::
  "'db RocksDB \<Rightarrow> ('id, 'b, 's, 'r, 'k, 'a) Coding \<Rightarrow> ('id, 'b, 's, 'k, 'a) settle_call list \<Rightarrow> ('db, 'id) RocksBackend \<Rightarrow>
   'id RocksSettlement \<Rightarrow> (rocks_error, 'id RocksSettlement) res" where
  "settle_calls L P calls r t = Ok (foldl (\<lambda>t c. run_call L P r c t) t calls)"

text \<open>The blocks in a database.\<close>

definition blocks_of ::
  "'db RocksDB \<Rightarrow> ('id, 'b, 's, 'r, 'k, 'a) Coding \<Rightarrow> 'db \<Rightarrow> 'id \<rightharpoonup> ('id, 'b, 'r) BlockData" where
  "blocks_of L P db i = (case fetch_block_data L P db i of Ok (Some d) \<Rightarrow> Some d | _ \<Rightarrow> None)"

text \<open>
  The abstract settlement: pending updates of maps. A modified block is taken from the committed ones \<open>B\<close>, not from the
  pending ones.
\<close>

record ('id, 'b, 'r, 'k, 'a) Pending =
  pending_blocks :: "'id \<rightharpoonup> ('id, 'b, 'r) BlockData"
  pending_canon :: "u64 \<rightharpoonup> 'id option"
  pending_aux :: "'k \<rightharpoonup> 'a option"
  pending_head :: "'id option"

definition no_pending :: "('id, 'b, 'r, 'k, 'a) Pending" where
  "no_pending = \<lparr>pending_blocks = Map.empty, pending_canon = Map.empty, pending_aux = Map.empty, pending_head = None\<rparr>"

fun pending_call ::
  "('id, 'b, 's, 'r, 'k, 'a) Coding \<Rightarrow> ('id \<rightharpoonup> ('id, 'b, 'r) BlockData) \<Rightarrow> ('id, 'b, 'r, 'k, 'a) Pending \<Rightarrow>
   ('id, 'b, 's, 'k, 'a) settle_call \<Rightarrow> ('id, 'b, 'r, 'k, 'a) Pending" where
  "pending_call P B p (InsertBlock i b s d cs c) = p\<lparr>pending_blocks := (pending_blocks p)(i \<mapsto>
     \<lparr>data_block = b, data_state = into_raw P s, data_depth = of_nat d, data_children = cs, data_is_canon = c\<rparr>)\<rparr>"
| "pending_call P B p (PushChild i c) = p\<lparr>pending_blocks := (pending_blocks p)(i \<mapsto>
     (the (B i))\<lparr>data_children := data_children (the (B i)) @ [c]\<rparr>)\<rparr>"
| "pending_call P B p (SetCanon i c) = p\<lparr>pending_blocks := (pending_blocks p)(i \<mapsto> (the (B i))\<lparr>data_is_canon := c\<rparr>)\<rparr>"
| "pending_call P B p (InsertCanonDepth d i) = p\<lparr>pending_canon := (pending_canon p)(of_nat d \<mapsto> Some i)\<rparr>"
| "pending_call P B p (RemoveCanonDepth d) = p\<lparr>pending_canon := (pending_canon p)(of_nat d \<mapsto> None)\<rparr>"
| "pending_call P B p (InsertAuxiliary k v) = p\<lparr>pending_aux := (pending_aux p)(k \<mapsto> Some v)\<rparr>"
| "pending_call P B p (RemoveAuxiliary k) = p\<lparr>pending_aux := (pending_aux p)(k \<mapsto> None)\<rparr>"
| "pending_call P B p (SetHeadTo h) = p\<lparr>pending_head := Some h\<rparr>"

definition settlement_sim ::
  "('id, 'b, 's, 'r, 'k, 'a) Coding \<Rightarrow> 'id RocksSettlement \<Rightarrow> ('id, 'b, 'r, 'k, 'a) Pending \<Rightarrow> bool" where
  "settlement_sim P t p \<longleftrightarrow> distinct (map fst (changes t)) \<and> (last_error t = None \<longrightarrow>
     (\<forall>i. map_of (changes t) (COLUMN_BLOCKS, id_encode P i) = map_option (\<lambda>d. Some (data_encode P d)) (pending_blocks p i)) \<and>
     (\<forall>d. map_of (changes t) (COLUMN_CANON_DEPTH_MAPPINGS, depth_encode P d) =
        map_option (map_option (id_encode P)) (pending_canon p d)) \<and>
     (\<forall>k. map_of (changes t) (COLUMN_AUXILIARIES, key_encode P k) = map_option (map_option (aux_encode P)) (pending_aux p k)) \<and>
     new_head t = pending_head p)"

lemmas column_names = COLUMN_BLOCKS_def COLUMN_CANON_DEPTH_MAPPINGS_def COLUMN_AUXILIARIES_def COLUMN_INFO_def

lemma coding_inj:
  assumes "coding_ok P"
  shows "id_encode P i = id_encode P j \<longleftrightarrow> i = j" "depth_encode P d = depth_encode P e \<longleftrightarrow> d = e"
    "key_encode P k = key_encode P l \<longleftrightarrow> k = l"
proof -
  show "id_encode P i = id_encode P j \<longleftrightarrow> i = j" using assms unfolding coding_ok_def by (metis option.inject)
qed (use assms in \<open>auto simp: coding_ok_def inj_eq\<close>)

lemma coding_decode:
  "coding_ok P \<Longrightarrow> id_decode P (id_encode P i) = Some i" "coding_ok P \<Longrightarrow> data_decode P (data_encode P d) = Some d"
  "coding_ok P \<Longrightarrow> aux_decode P (aux_encode P v) = Some v"
  by (simp_all add: coding_ok_def)

lemma fetch_row_total [simp]: "fetch_row L db column k dec \<noteq> Panic" "fetch_row L db column k dec \<noteq> Diverge"
  by (auto simp: fetch_row_def split: sum.splits option.splits)

lemma modify_block_cases:
  "modify_block L P r i f t = (if last_error t \<noteq> None then t else
     case blocks_of L P (rocks_db r) i of
       Some d \<Rightarrow> change COLUMN_BLOCKS (id_encode P i) (Some (data_encode P (f d))) t
     | None \<Rightarrow> t\<lparr>last_error := Some (case fetch_block_data L P (rocks_db r) i of Err e \<Rightarrow> e | _ \<Rightarrow> Corrupted)\<rparr>)"
  by (auto simp: modify_block_def unless_failed_def blocks_of_def fetch_block_data_def split: res.splits option.splits)

lemma sim_new: "settlement_sim P new_settlement no_pending"
  by (simp add: settlement_sim_def new_settlement_def no_pending_def)

lemma sim_call:
  assumes "coding_ok P" "settlement_sim P t p"
  shows "settlement_sim P (run_call L P r c t) (pending_call P (blocks_of L P (rocks_db r)) p c)"
  using assms(2)
  by (cases c) (auto simp: settlement_sim_def insert_block_def push_child_def set_canon_def modify_block_cases
      insert_canon_depth_mapping_def remove_canon_depth_mapping_def insert_auxiliary_def remove_auxiliary_def
      set_head_def unless_failed_def change_def update_conv' distinct_update coding_inj [OF assms(1)] column_names
      simp del: map_of_eq_Some_iff Some_eq_map_of_iff split: option.splits)

lemma sim_calls:
  assumes "coding_ok P" "settlement_sim P t p"
  shows "settlement_sim P (foldl (\<lambda>t c. run_call L P r c t) t calls)
     (foldl (pending_call P (blocks_of L P (rocks_db r))) p calls)"
  using assms(2) by (induction calls arbitrary: t p) (auto intro: sim_call [OF assms(1)])

section \<open>Commits\<close>

text \<open>The calls of a settlement as pending updates of maps.\<close>

definition pending_calls ::
  "'db RocksDB \<Rightarrow> ('id, 'b, 's, 'r, 'k, 'a) Coding \<Rightarrow> 'db \<Rightarrow> ('id, 'b, 's, 'k, 'a) settle_call list \<Rightarrow>
   ('id, 'b, 'r, 'k, 'a) Pending" where
  "pending_calls L P db calls = foldl (pending_call P (blocks_of L P db)) no_pending calls"

lemma rocksdb_lawD:
  assumes "rocksdb_law L" "distinct (map fst batch)" "write_batch L db batch = Inr db'"
  shows "cf_handle L db' column = cf_handle L db column"
    "get_cf L db' column k = (case map_of batch (column, k) of Some v \<Rightarrow> Inr v | None \<Rightarrow> get_cf L db column k)"
  using assms unfolding rocksdb_law_def by blast+

lemma fetch_row_written:
  assumes "rocksdb_law L" "distinct (map fst batch)" "write_batch L db batch = Inr db'"
  shows "map_of batch (column, k) = None \<Longrightarrow> fetch_row L db' column k dec = fetch_row L db column k dec"
    "map_of batch (column, k) = Some None \<Longrightarrow> cf_handle L db column \<Longrightarrow> fetch_row L db' column k dec = Ok None"
    "map_of batch (column, k) = Some (Some v) \<Longrightarrow> cf_handle L db column \<Longrightarrow> dec v = Some x \<Longrightarrow>
     fetch_row L db' column k dec = Ok (Some x)"
  by (simp_all add: fetch_row_def rocksdb_lawD [OF assms])

lemma fill_batch_Ok: "fill_batch L db rows = Ok () \<Longrightarrow> ((column, k), v) \<in> set rows \<Longrightarrow> cf_handle L db column"
  by (induction L db rows rule: fill_batch.induct) (auto split: if_splits option.splits)

lemma settlement_commit_Ok:
  assumes "settlement_commit L r t = Ok (db, h)"
  shows "last_error t = None" "h = new_head t" "write_batch L (rocks_db r) (changes t) = Inr db"
    "map_of (changes t) (column, k) = Some v \<Longrightarrow> cf_handle L (rocks_db r) column"
proof -
  show "last_error t = None" "h = new_head t" "write_batch L (rocks_db r) (changes t) = Inr db"
    using assms by (auto simp: settlement_commit_def split: option.splits sum.splits)
  have "fill_batch L (rocks_db r) (changes t) = Ok ()"
    using assms by (auto simp: settlement_commit_def split: option.splits)
  then show "map_of (changes t) (column, k) = Some v \<Longrightarrow> cf_handle L (rocks_db r) column"
    using fill_batch_Ok map_of_SomeD by metis
qed

lemma committed_row:
  assumes law: "rocksdb_law L" "distinct (map fst (changes t))" and c: "settlement_commit L r t = Ok (db, h)"
    and pv: "map_of (changes t) (column, k) = map_option (map_option enc) pv" and dec: "\<And>x. dec (enc x) = Some x"
  shows "fetch_row L db column k dec = (case pv of Some x \<Rightarrow> Ok x | None \<Rightarrow> fetch_row L (rocks_db r) column k dec)"
proof -
  note ok = settlement_commit_Ok [OF c]
  note w = fetch_row_written [OF law ok(3)]
  show ?thesis
  proof (cases pv)
    case (Some v)
    have "cf_handle L (rocks_db r) column" by (rule ok(4) [of column k]) (simp only: pv Some option.map)
    then show ?thesis
    proof (cases v)
      case None
      then show ?thesis using w(2) pv Some \<open>cf_handle L (rocks_db r) column\<close> by simp
    next
      case (Some x)
      have "fetch_row L db column k dec = Ok (Some x)"
        by (rule w(3) [of column k "enc x"]) (use pv \<open>pv = Some v\<close> Some dec \<open>cf_handle L (rocks_db r) column\<close> in simp_all)
      then show ?thesis using \<open>pv = Some v\<close> Some by simp
    qed
  qed (use w(1) pv in simp)
qed

lemma rocks_commit_calls:
  assumes law: "rocksdb_law L" and coding: "coding_ok P" and run: "rocks_commit L (settle_calls L P calls) r = Ok r'"
  shows "fetch_block_data L P (rocks_db r') i =
      (case pending_blocks (pending_calls L P (rocks_db r) calls) i of
         Some d \<Rightarrow> Ok (Some d) | None \<Rightarrow> fetch_block_data L P (rocks_db r) i)"
    and "lookup_canon_depth (rocks_query L P r') n =
      (case pending_canon (pending_calls L P (rocks_db r) calls) (of_nat n) of
         Some x \<Rightarrow> Ok x | None \<Rightarrow> lookup_canon_depth (rocks_query L P r) n)"
    and "auxiliary (rocks_query L P r') k =
      (case pending_aux (pending_calls L P (rocks_db r) calls) k of
         Some x \<Rightarrow> Ok x | None \<Rightarrow> auxiliary (rocks_query L P r) k)"
    and "rocks_head r' =
      (case pending_head (pending_calls L P (rocks_db r) calls) of Some h \<Rightarrow> h | None \<Rightarrow> rocks_head r)"
    and "rocks_genesis r' = rocks_genesis r"
proof -
  let ?t = "foldl (\<lambda>t c. run_call L P r c t) new_settlement calls"
  let ?p = "pending_calls L P (rocks_db r) calls"
  obtain db h where c: "settlement_commit L r ?t = Ok (db, h)"
    and r': "r' = r\<lparr>rocks_db := db, rocks_head := (case h of Some h \<Rightarrow> h | None \<Rightarrow> rocks_head r)\<rparr>"
    using run by (auto simp: rocks_commit_def settle_calls_def)
  note ok = settlement_commit_Ok [OF c]
  have sim: "settlement_sim P ?t ?p" unfolding pending_calls_def by (rule sim_calls [OF coding sim_new])
  then have d: "distinct (map fst (changes ?t))" by (simp add: settlement_sim_def)
  note w = fetch_row_written [OF law d ok(3)]
  have s: "map_of (changes ?t) (COLUMN_BLOCKS, id_encode P i) = map_option (\<lambda>d. Some (data_encode P d)) (pending_blocks ?p i)"
    "map_of (changes ?t) (COLUMN_CANON_DEPTH_MAPPINGS, depth_encode P m) =
      map_option (map_option (id_encode P)) (pending_canon ?p m)"
    "map_of (changes ?t) (COLUMN_AUXILIARIES, key_encode P k) = map_option (map_option (aux_encode P)) (pending_aux ?p k)"
    "new_head ?t = pending_head ?p" for i m k
    using sim ok(1) unfolding settlement_sim_def by blast+
  note row = committed_row [OF law d c]
  show "fetch_block_data L P (rocks_db r') i =
      (case pending_blocks ?p i of Some d \<Rightarrow> Ok (Some d) | None \<Rightarrow> fetch_block_data L P (rocks_db r) i)"
    using row [of COLUMN_BLOCKS "id_encode P i" "data_encode P" "map_option Some (pending_blocks ?p i)" "data_decode P"]
      s(1) [of i] coding_decode(2) [OF coding]
    by (simp add: r' fetch_block_data_def option.map_comp comp_def split: option.splits)
  show "lookup_canon_depth (rocks_query L P r') n = (case pending_canon ?p (of_nat n) of
      Some x \<Rightarrow> Ok x | None \<Rightarrow> lookup_canon_depth (rocks_query L P r) n)"
    using row [OF s(2) [of "of_nat n"], of "id_decode P"] coding_decode(1) [OF coding]
    by (simp add: r' rocks_query_def split: option.split)
  show "auxiliary (rocks_query L P r') k = (case pending_aux ?p k of Some x \<Rightarrow> Ok x | None \<Rightarrow> auxiliary (rocks_query L P r) k)"
    using row [OF s(3) [of k], of "aux_decode P"] coding_decode(3) [OF coding]
    by (simp add: r' rocks_query_def split: option.split)
  show "rocks_head r' = (case pending_head ?p of Some h \<Rightarrow> h | None \<Rightarrow> rocks_head r)" using s(4) by (simp add: r' ok(2))
  show "rocks_genesis r' = rocks_genesis r" by (simp add: r')
qed

section \<open>The tree of blocks\<close>

text \<open>Every block but a root has its parent in the map, one level higher, and the children listed are the children.\<close>

definition block_tree :: "('id, 'b, 's, 'r, 'k, 'a) Coding \<Rightarrow> ('id \<rightharpoonup> ('id, 'b, 'r) BlockData) \<Rightarrow> bool" where
  "block_tree P B \<longleftrightarrow> finite (dom B) \<and> (\<forall>i d. B i = Some d \<longrightarrow>
     (case block_parent_id P (data_block d) of
        None \<Rightarrow> data_depth d = 0
      | Some p \<Rightarrow> \<exists>q. B p = Some q \<and> unat (data_depth d) = Suc (unat (data_depth q))) \<and>
     set (data_children d) = {c. \<exists>e. B c = Some e \<and> block_parent_id P (data_block e) = Some i})"

definition rocks_valid :: "'db RocksDB \<Rightarrow> ('id, 'b, 's, 'r, 'k, 'a) Coding \<Rightarrow> ('db, 'id) RocksBackend \<Rightarrow> bool" where
  "rocks_valid L P r = block_tree P (blocks_of L P (rocks_db r))"

definition rocks_known :: "'db RocksDB \<Rightarrow> ('id, 'b, 's, 'r, 'k, 'a) Coding \<Rightarrow> ('db, 'id) RocksBackend \<Rightarrow> 'id set" where
  "rocks_known L P r = dom (blocks_of L P (rocks_db r))"

definition rocks_parent ::
  "'db RocksDB \<Rightarrow> ('id, 'b, 's, 'r, 'k, 'a) Coding \<Rightarrow> ('db, 'id) RocksBackend \<Rightarrow> 'id \<Rightarrow> 'id option" where
  "rocks_parent L P r i = block_parent_id P (data_block (the (blocks_of L P (rocks_db r) i)))"

definition rocks_depth ::
  "'db RocksDB \<Rightarrow> ('id, 'b, 's, 'r, 'k, 'a) Coding \<Rightarrow> ('db, 'id) RocksBackend \<Rightarrow> 'id \<Rightarrow> nat" where
  "rocks_depth L P r i = unat (data_depth (the (blocks_of L P (rocks_db r) i)))"

lemma blocks_of_Some: "blocks_of L P db i = Some d \<longleftrightarrow> fetch_block_data L P db i = Ok (Some d)"
  by (auto simp: blocks_of_def split: res.splits option.splits)

lemma existing_block_known: "blocks_of L P db i = Some d \<Longrightarrow> existing_block L P db i = Ok d"
  by (simp add: blocks_of_Some existing_block_def)

lemma unknown_block: "blocks_of L P (rocks_db r) i = None \<Longrightarrow> \<exists>e. existing_block L P (rocks_db r) i = Err e"
  by (auto simp: blocks_of_def existing_block_def fetch_block_data_def fetch_row_def split: option.splits sum.splits if_splits)

lemma block_treeD:
  assumes "block_tree P B" "B i = Some d"
  shows "block_parent_id P (data_block d) = Some p \<Longrightarrow> \<exists>q. B p = Some q \<and> unat (data_depth d) = Suc (unat (data_depth q))"
    "block_parent_id P (data_block d) = None \<Longrightarrow> data_depth d = 0"
    "set (data_children d) = {c. \<exists>e. B c = Some e \<and> block_parent_id P (data_block e) = Some i}"
proof -
  have *: "(case block_parent_id P (data_block d) of None \<Rightarrow> data_depth d = 0
      | Some p \<Rightarrow> \<exists>q. B p = Some q \<and> unat (data_depth d) = Suc (unat (data_depth q))) \<and>
     set (data_children d) = {c. \<exists>e. B c = Some e \<and> block_parent_id P (data_block e) = Some i}"
    using assms unfolding block_tree_def by blast
  show "block_parent_id P (data_block d) = Some p \<Longrightarrow> \<exists>q. B p = Some q \<and> unat (data_depth d) = Suc (unat (data_depth q))"
    "block_parent_id P (data_block d) = None \<Longrightarrow> data_depth d = 0"
    "set (data_children d) = {c. \<exists>e. B c = Some e \<and> block_parent_id P (data_block e) = Some i}"
    using * by simp_all
qed

interpretation rocks: chain_store "rocks_query L P" "block_parent_id P" "rocks_valid L P" "rocks_known L P"
  "rocks_parent L P" "rocks_depth L P" for L P
proof
  fix r x p
  assume v: "rocks_valid L P r"
  let ?B = "blocks_of L P (rocks_db r)"
  from v have tree: "block_tree P ?B" by (simp add: rocks_valid_def)
  then show "finite (rocks_known L P r)" by (simp add: block_tree_def rocks_known_def)
  show "\<exists>e. depth_at (rocks_query L P r) x = Err e" if x: "x \<notin> rocks_known L P r"
  proof -
    obtain e where "existing_block L P (rocks_db r) x = Err e"
      using unknown_block [of L P r x] x by (auto simp: rocks_known_def dom_def)
    then show ?thesis by (simp add: rocks_query_def)
  qed
  assume "x \<in> rocks_known L P r"
  then obtain d where d: "?B x = Some d" by (auto simp: rocks_known_def)
  note t = block_treeD [OF tree d] and e = existing_block_known [OF d]
  show "depth_at (rocks_query L P r) x = Ok (rocks_depth L P r x)" by (simp add: rocks_query_def e rocks_depth_def d)
  show "\<exists>b. block_at (rocks_query L P r) x = Ok b \<and> block_parent_id P b = rocks_parent L P r x"
    by (simp add: rocks_query_def e rocks_parent_def d)
  have "set (data_children d) = {c \<in> rocks_known L P r. rocks_parent L P r c = Some x}"
    using t(3) by (auto simp: rocks_known_def rocks_parent_def)
  then show "\<exists>cs. children_at (rocks_query L P r) x = Ok cs \<and> set cs = {c \<in> rocks_known L P r. rocks_parent L P r c = Some x}"
    by (simp add: rocks_query_def e)
  show "rocks_parent L P r x = None \<Longrightarrow> rocks_depth L P r x = 0" using t(2) by (simp add: rocks_parent_def rocks_depth_def d)
  show "rocks_parent L P r x = Some p \<Longrightarrow> p \<in> rocks_known L P r \<and> rocks_depth L P r x = Suc (rocks_depth L P r p)"
    using t(1) [of p] by (auto simp: rocks_parent_def rocks_depth_def rocks_known_def d)
qed

text \<open>Adding a block below a known one, and changing canonicity, keep the tree.\<close>

lemma block_tree_import:
  assumes tree: "block_tree P B" and p: "B p = Some q" "block_parent_id P (data_block d) = Some p"
    and i: "B i = None" and d: "unat (data_depth d) = Suc (unat (data_depth q))" "data_children d = []"
  shows "block_tree P (B(i \<mapsto> d, p \<mapsto> q\<lparr>data_children := data_children q @ [i]\<rparr>))"
proof -
  let ?q = "q\<lparr>data_children := data_children q @ [i]\<rparr>"
  let ?B = "B(i \<mapsto> d, p \<mapsto> ?q)"
  have ip: "i \<noteq> p" using i p by auto
  have noi: "block_parent_id P (data_block e) \<noteq> Some i" if "B c = Some e" for c e
    using block_treeD(1) [OF tree that] i by auto
  have noid: "block_parent_id P (data_block d) \<noteq> Some i" using p(2) ip by simp
  have up: "\<exists>q'. ?B p' = Some q' \<and> data_depth q' = data_depth e" if "B p' = Some e" for p' e
    using that p(1) ip i by (cases "p' = p") auto
  have kids: "{c. \<exists>e. ?B c = Some e \<and> block_parent_id P (data_block e) = Some x} =
      {c. \<exists>e. B c = Some e \<and> block_parent_id P (data_block e) = Some x} \<union> (if x = p then {i} else {})" for x
    using p i ip by auto
  show ?thesis
    unfolding block_tree_def
  proof (intro conjI allI impI)
    show "finite (dom ?B)" using tree by (simp add: block_tree_def)
    fix x e assume x: "?B x = Some e"
    obtain e' where e': "x = i \<and> e = d \<or> B x = Some e' \<and> data_block e = data_block e' \<and> data_depth e = data_depth e'"
      "x \<noteq> i \<Longrightarrow> set (data_children e) = set (data_children e') \<union> (if x = p then {i} else {})"
      using x p(1) ip by (cases "x = p"; cases "x = i") auto
    show "case block_parent_id P (data_block e) of None \<Rightarrow> data_depth e = 0
        | Some p' \<Rightarrow> \<exists>q. ?B p' = Some q \<and> unat (data_depth e) = Suc (unat (data_depth q))"
    proof (cases "x = i")
      case True
      then show ?thesis using e'(1) p d(1) i by (auto split: option.splits)
    next
      case False
      then show ?thesis using e'(1) block_treeD(1,2) [OF tree, of x e'] up by (fastforce split: option.splits)
    qed
    show "set (data_children e) = {c. \<exists>e. ?B c = Some e \<and> block_parent_id P (data_block e) = Some x}"
    proof (cases "x = i")
      case True
      then show ?thesis using e'(1) d(2) noi noid ip i unfolding kids by auto
    next
      case False
      then show ?thesis using e' block_treeD(3) [OF tree, of x e'] unfolding kids by auto
    qed
  qed
qed

lemma block_tree_canon:
  assumes tree: "block_tree P B" and pb: "\<And>i d. pb i = Some d \<Longrightarrow> \<exists>d' c. B i = Some d' \<and> d = d'\<lparr>data_is_canon := c\<rparr>"
  shows "block_tree P (B ++ pb)"
proof -
  let ?B = "B ++ pb"
  have old: "\<exists>d'. B i = Some d' \<and> data_block d = data_block d' \<and> data_depth d = data_depth d' \<and> data_children d = data_children d'"
    if "?B i = Some d" for i d using that pb [of i d] by (auto simp: map_add_Some_iff)
  have new: "\<exists>d. ?B i = Some d \<and> data_block d = data_block d' \<and> data_depth d = data_depth d' \<and> data_children d = data_children d'"
    if "B i = Some d'" for i d' using that pb [of i] by (cases "pb i") (auto simp: map_add_def)
  have dom: "dom ?B = dom B"
  proof
    show "dom ?B \<subseteq> dom B" using old by (meson domD domI subsetI)
    show "dom B \<subseteq> dom ?B" using new by (meson domD domI subsetI)
  qed
  have kids: "{c. \<exists>e. ?B c = Some e \<and> block_parent_id P (data_block e) = Some x} =
      {c. \<exists>e. B c = Some e \<and> block_parent_id P (data_block e) = Some x}" for x
    using old new by (metis (no_types, opaque_lifting))
  show ?thesis
    unfolding block_tree_def kids dom
  proof (intro conjI allI impI)
    show "finite (dom B)" using tree by (simp add: block_tree_def)
    fix x e assume xe: "?B x = Some e"
    obtain e' where e': "B x = Some e'" "data_block e = data_block e'" "data_depth e = data_depth e'"
      "data_children e = data_children e'" using old [OF xe] by blast
    note t = block_treeD [OF tree e'(1)]
    show "set (data_children e) = {c. \<exists>e. B c = Some e \<and> block_parent_id P (data_block e) = Some x}" using t(3) e'(4) by simp
    show "case block_parent_id P (data_block e) of None \<Rightarrow> data_depth e = 0
        | Some p' \<Rightarrow> \<exists>q. ?B p' = Some q \<and> unat (data_depth e) = Suc (unat (data_depth q))"
    proof (cases "block_parent_id P (data_block e')")
      case (Some p')
      then obtain q where q: "B p' = Some q" "unat (data_depth e') = Suc (unat (data_depth q))" using t(1) by blast
      obtain q' where "?B p' = Some q'" "data_depth q' = data_depth q" using new [OF q(1)] by metis
      then show ?thesis using Some q(2) e' by simp
    qed (use t(2) e' in simp)
  qed
qed

section \<open>Databases built by the node\<close>

text \<open>
  The databases considered. A settlement of the node imports a block that is not in the store yet, by inserting it and
  adding it to the children of its parent, or it moves the head, by any other calls. Which calls an operation
  makes is up to the library that defines it; these are the two kinds that the importer commits.
\<close>

definition import_calls ::
  "('id, 'b, 's, 'r, 'k, 'a) Coding \<Rightarrow> 'b \<Rightarrow> 's \<Rightarrow> 'id \<Rightarrow> ('id, 'b, 'r) BlockData \<Rightarrow> ('id, 'b, 's, 'k, 'a) settle_call list" where
  "import_calls P b s p q = [InsertBlock (block_id P b) b s (unat (data_depth q) + 1) [] False, PushChild p (block_id P b)]"

fun head_call :: "('id, 'b, 's, 'k, 'a) settle_call \<Rightarrow> bool" where
  "head_call (InsertBlock i b s d cs c) = False"
| "head_call (PushChild i c) = False"
| "head_call _ = True"

inductive rocks_chain :: "'db RocksDB \<Rightarrow> ('id, 'b, 's, 'r, 'k, 'a) Coding \<Rightarrow> ('db, 'id) RocksBackend \<Rightarrow> bool" for L P where
  created: "new_with_genesis L P (Ok db) b s = Ok r \<Longrightarrow> \<forall>i. fetch_block_data L P db i = Ok None \<Longrightarrow> rocks_chain L P r"
| imported: "rocks_chain L P r \<Longrightarrow> block_parent_id P b = Some p \<Longrightarrow> blocks_of L P (rocks_db r) p = Some q \<Longrightarrow>
    blocks_of L P (rocks_db r) (block_id P b) = None \<Longrightarrow> unat (data_depth q) + 1 < 2 ^ 64 \<Longrightarrow>
    rocks_commit L (settle_calls L P (import_calls P b s p q)) r = Ok r' \<Longrightarrow> rocks_chain L P r'"
| moved: "rocks_chain L P r \<Longrightarrow> list_all head_call calls \<Longrightarrow>
    rocks_commit L (settle_calls L P calls) r = Ok r' \<Longrightarrow> rocks_chain L P r'"
| reopened: "rocks_chain L P r \<Longrightarrow> from_existing L P (Ok (rocks_db r)) = Ok r' \<Longrightarrow> rocks_chain L P r'"

lemma blocks_of_commit:
  assumes "rocksdb_law L" "coding_ok P" "rocks_commit L (settle_calls L P calls) r = Ok r'"
  shows "blocks_of L P (rocks_db r') = blocks_of L P (rocks_db r) ++ pending_blocks (pending_calls L P (rocks_db r) calls)"
  by (rule ext) (simp add: blocks_of_def rocks_commit_calls(1) [OF assms] map_add_def split: option.splits)

text \<open>A call of a committed settlement that modifies a block finds it.\<close>

lemma failed_call: "last_error t \<noteq> None \<Longrightarrow> last_error (run_call L P r c t) \<noteq> None"
  by (cases c) (simp_all add: insert_block_def push_child_def set_canon_def modify_block_def insert_canon_depth_mapping_def
      remove_canon_depth_mapping_def insert_auxiliary_def remove_auxiliary_def set_head_def unless_failed_def)

lemma failed_calls: "last_error t \<noteq> None \<Longrightarrow> last_error (foldl (\<lambda>t c. run_call L P r c t) t calls) \<noteq> None"
  by (induction calls arbitrary: t) (simp_all add: failed_call del: not_None_eq)

lemma set_canon_known:
  assumes "last_error (foldl (\<lambda>t c. run_call L P r c t) t calls) = None" "SetCanon i c \<in> set calls"
  shows "\<exists>d. blocks_of L P (rocks_db r) i = Some d"
proof (rule ccontr)
  assume "\<nexists>d. blocks_of L P (rocks_db r) i = Some d"
  then have fail: "last_error (run_call L P r (SetCanon i c) t) \<noteq> None" for t
    by (cases "blocks_of L P (rocks_db r) i") (simp_all add: set_canon_def modify_block_cases)
  obtain xs ys where calls: "calls = xs @ SetCanon i c # ys" using assms(2) by (meson split_list)
  show False using failed_calls [OF fail, of L P r "foldl (\<lambda>t c. run_call L P r c t) t xs" ys] assms(1)
    by (simp add: calls)
qed

lemma head_calls_pending:
  assumes "list_all head_call calls" "pending_blocks (foldl (pending_call P B) p calls) i = Some d"
  shows "pending_blocks p i = Some d \<or> (\<exists>c. SetCanon i c \<in> set calls \<and> d = (the (B i))\<lparr>data_is_canon := c\<rparr>)"
  using assms
proof (induction calls arbitrary: p)
  case (Cons c calls)
  then have IH: "pending_blocks (pending_call P B p c) i = Some d \<or>
      (\<exists>c. SetCanon i c \<in> set calls \<and> d = (the (B i))\<lparr>data_is_canon := c\<rparr>)" by simp
  show ?case using Cons.prems(1) IH by (cases c) (auto split: if_splits)
qed simp

lemma genesis_settlement_rows:
  assumes "coding_ok P"
  shows "distinct (map fst (changes (genesis_settlement P b s)))"
    "map_of (changes (genesis_settlement P b s)) (COLUMN_BLOCKS, id_encode P i) =
      map_option (map_option (data_encode P)) (if i = block_id P b then Some (Some \<lparr>data_block = b, data_state = into_raw P s,
        data_depth = 0, data_children = [], data_is_canon = True\<rparr>) else None)"
  by (auto simp: genesis_settlement_def Let_def new_settlement_def insert_block_def insert_canon_depth_mapping_def
      set_genesis_def set_head_def unless_failed_def change_def update_conv' distinct_update coding_inj [OF assms] column_names
      simp del: map_of_eq_Some_iff Some_eq_map_of_iff)

lemma new_with_genesis_blocks:
  assumes law: "rocksdb_law L" "coding_ok P" and run: "new_with_genesis L P (Ok db) b s = Ok r"
    and empty: "\<forall>i. fetch_block_data L P db i = Ok None"
  shows "block_parent_id P b = None \<and> blocks_of L P (rocks_db r) = [block_id P b \<mapsto>
    \<lparr>data_block = b, data_state = into_raw P s, data_depth = 0, data_children = [], data_is_canon = True\<rparr>]"
proof -
  let ?r = "\<lparr>rocks_db = db, rocks_head = block_id P b, rocks_genesis = block_id P b\<rparr>"
  obtain db' h where c: "settlement_commit L ?r (genesis_settlement P b s) = Ok (db', h)" "r = ?r\<lparr>rocks_db := db'\<rparr>"
    and p: "block_parent_id P b = None"
    using run by (auto simp: new_with_genesis_def open_with_def Let_def split: option.splits if_splits)
  have row: "fetch_block_data L P db' i = (if i = block_id P b then Ok (Some \<lparr>data_block = b, data_state = into_raw P s,
        data_depth = 0, data_children = [], data_is_canon = True\<rparr>) else Ok None)" for i
    using committed_row [OF law(1) genesis_settlement_rows(1) [OF law(2)] c(1) genesis_settlement_rows(2) [OF law(2)],
        of "data_decode P" i] coding_decode(2) [OF law(2)] empty
    by (auto simp: fetch_block_data_def split: if_splits)
  show ?thesis using p by (auto simp: fun_eq_iff blocks_of_def row c(2))
qed

lemma rocks_chain_valid:
  assumes law: "rocksdb_law L" "coding_ok P" and "rocks_chain L P r"
  shows "rocks_valid L P r"
  using assms(3)
proof (induction rule: rocks_chain.induct)
  case (created db b s r)
  then show ?case using new_with_genesis_blocks [OF law created] by (auto simp: rocks_valid_def block_tree_def)
next
  case (imported r b p q s r')
  let ?d = "\<lparr>data_block = b, data_state = into_raw P s, data_depth = of_nat (unat (data_depth q) + 1), data_children = [],
    data_is_canon = False\<rparr>"
  have "unat (data_depth ?d) = Suc (unat (data_depth q))" using unat_of_nat_u64 [OF imported(5)] by simp
  then have "block_tree P ((blocks_of L P (rocks_db r))(block_id P b \<mapsto> ?d,
      p \<mapsto> q\<lparr>data_children := data_children q @ [block_id P b]\<rparr>))"
    using imported by (intro block_tree_import) (simp_all add: rocks_valid_def)
  moreover have "blocks_of L P (rocks_db r') = (blocks_of L P (rocks_db r))(block_id P b \<mapsto> ?d,
      p \<mapsto> q\<lparr>data_children := data_children q @ [block_id P b]\<rparr>)"
    using blocks_of_commit [OF law imported(6)] imported(3)
    by (simp add: pending_calls_def import_calls_def no_pending_def del: of_nat_add)
  ultimately show ?case by (simp add: rocks_valid_def)
next
  case (moved r calls r')
  let ?B = "blocks_of L P (rocks_db r)" and ?t = "foldl (\<lambda>t c. run_call L P r c t) new_settlement calls"
  obtain db h where "settlement_commit L r ?t = Ok (db, h)"
    using moved(3) by (auto simp: rocks_commit_def settle_calls_def)
  note known = set_canon_known [OF settlement_commit_Ok(1) [OF this]]
  have "\<exists>d' c. ?B i = Some d' \<and> d = d'\<lparr>data_is_canon := c\<rparr>"
    if pb: "pending_blocks (pending_calls L P (rocks_db r) calls) i = Some d" for i d
  proof -
    obtain c where "SetCanon i c \<in> set calls" "d = (the (?B i))\<lparr>data_is_canon := c\<rparr>"
      using head_calls_pending [OF moved(2) pb [unfolded pending_calls_def]] by (auto simp: no_pending_def)
    then show ?thesis using known [of i c] by auto
  qed
  then have "block_tree P (?B ++ pending_blocks (pending_calls L P (rocks_db r) calls))"
    using moved(4) by (intro block_tree_canon) (simp_all add: rocks_valid_def)
  then show ?case by (simp add: rocks_valid_def blocks_of_commit [OF law moved(3)])
next
  case (reopened r r')
  then have "rocks_db r' = rocks_db r"
    by (auto simp: from_existing_def open_or_create_def open_with_def split: option.splits)
  then show ?case using reopened by (simp add: rocks_valid_def)
qed

section \<open>A database for the witnesses\<close>

text \<open>Rows in an association list, and an encoding of blocks that are a pair of their identifier and parent.\<close>

definition list_db :: "(row \<times> bytes) list RocksDB" where
  "list_db = \<lparr>
     cf_handle = (\<lambda>_ _. True),
     get_cf = (\<lambda>db c k. Inr (map_of db (c, k))),
     batch_row = (\<lambda>_ _. None),
     write_batch = (\<lambda>db batch. Inr (foldl (\<lambda>db (k, v).
       case v of Some x \<Rightarrow> AList.update k x db | None \<Rightarrow> AList.delete k db) db batch))\<rparr>"

type_synonym sample_block = "u8 \<times> u8 option"

definition encode_data :: "(u8, sample_block, unit) BlockData \<Rightarrow> bytes" where
  "encode_data d = fst (data_block d) # (case snd (data_block d) of None \<Rightarrow> [0, 0] | Some p \<Rightarrow> [1, p]) @
     [if data_is_canon d then 1 else 0] @ to_le_bytes (data_depth d) @ data_children d"

fun decode_data :: "bytes \<Rightarrow> (u8, sample_block, unit) BlockData option" where
  "decode_data (i # f # p # c # rest) = Some \<lparr>data_block = (i, if f = 0 then None else Some p), data_state = (),
     data_depth = from_le_bytes (take 8 rest), data_children = drop 8 rest, data_is_canon = (c = 1)\<rparr>"
| "decode_data _ = None"

definition sample_coding :: "(u8, sample_block, unit, unit, u8, u8) Coding" where
  "sample_coding = \<lparr>
     id_encode = (\<lambda>i. [i]), id_decode = (\<lambda>v. case v of [i] \<Rightarrow> Some i | _ \<Rightarrow> None),
     data_encode = encode_data, data_decode = decode_data,
     depth_encode = to_le_bytes, key_encode = (\<lambda>k. [k]),
     aux_encode = (\<lambda>v. [v]), aux_decode = (\<lambda>v. case v of [i] \<Rightarrow> Some i | _ \<Rightarrow> None),
     str_encode = map of_char, into_raw = id, from_raw = id, block_id = fst, block_parent_id = snd\<rparr>"

lemma list_db_law: "rocksdb_law list_db"
proof -
  have m: "map_of (foldl (\<lambda>db (k, v). case v of Some x \<Rightarrow> AList.update k x db | None \<Rightarrow> AList.delete k db) db batch) k =
      (case map_of batch k of Some v \<Rightarrow> v | None \<Rightarrow> map_of db k)" if "distinct (map fst batch)" for db batch and k :: row
    using that
  proof (induction batch arbitrary: db)
    case (Cons a batch)
    obtain k' v where a: "a = (k', v)" by (meson surj_pair)
    have "map_of batch k' = None" using Cons.prems by (simp add: a map_of_eq_None_iff)
    then show ?case using Cons by (cases v; cases "k = k'"; cases "map_of batch k") (simp_all add: a update_conv' delete_conv' del: map_of_eq_None_iff)
  qed simp
  show ?thesis by (simp add: rocksdb_law_def list_db_def m del: map_of_eq_Some_iff split: option.split)
qed

lemma sample_coding_ok: "coding_ok sample_coding"
proof -
  have "decode_data (encode_data d) = Some d" for d
    by (cases d; cases "snd (data_block d)") (auto simp: encode_data_def from_to_le_bytes prod_eq_iff)
  moreover have "inj (to_le_bytes :: u64 \<Rightarrow> bytes)"
    by (rule inj_on_inverseI [of _ from_le_bytes]) (simp add: from_to_le_bytes)
  ultimately show ?thesis by (simp add: coding_ok_def sample_coding_def inj_def KEY_HEAD_def KEY_GENESIS_def)
qed

lemma sample_coding_block [simp]: "block_id sample_coding = fst" "block_parent_id sample_coding = snd"
  by (simp_all add: sample_coding_def)

text \<open>A database with a genesis block, and one with a child of it.\<close>

definition sample_rocks :: "((row \<times> bytes) list, u8) RocksBackend" where
  "sample_rocks = (case new_with_genesis list_db sample_coding (Ok []) (0, None) () of Ok r \<Rightarrow> r)"

definition sample_rocks_child :: "((row \<times> bytes) list, u8) RocksBackend" where
  "sample_rocks_child = (case rocks_commit list_db (settle_calls list_db sample_coding
     [InsertBlock 1 (1, Some 0) () 1 [] False, PushChild 0 1]) sample_rocks of Ok r \<Rightarrow> r)"

lemma sample_rocks_Ok: "new_with_genesis list_db sample_coding (Ok []) (0, None) () = Ok sample_rocks"
proof -
  have "is_ok (new_with_genesis list_db sample_coding (Ok []) (0, None) ())" by code_simp
  then show ?thesis by (auto simp: sample_rocks_def is_ok_iff)
qed

lemma sample_child_Ok:
  "rocks_commit list_db (settle_calls list_db sample_coding
     [InsertBlock 1 (1, Some 0) () 1 [] False, PushChild 0 1]) sample_rocks = Ok sample_rocks_child"
proof -
  have "is_ok (rocks_commit list_db (settle_calls list_db sample_coding
     [InsertBlock 1 (1, Some 0) () 1 [] False, PushChild 0 1]) sample_rocks)" by code_simp
  then show ?thesis by (auto simp: sample_rocks_child_def is_ok_iff)
qed

section \<open>Properties\<close>

text \<open>
  C9: A committed settlement implements updates of maps: after any sequence of calls, blocks, canonical depths,
  auxiliaries and the head read back are the ones the pending maps give, and all others are unchanged, for every
  faithful encoding and every database whose batches change exactly their rows.
\<close>

theorem rocks_commit_refines:
  assumes "rocksdb_law L" "coding_ok P" "rocks_commit L (settle_calls L P calls) r = Ok r'"
  shows "(\<forall>i. fetch_block_data L P (rocks_db r') i =
      (case pending_blocks (pending_calls L P (rocks_db r) calls) i of
         Some d \<Rightarrow> Ok (Some d) | None \<Rightarrow> fetch_block_data L P (rocks_db r) i)) \<and>
    (\<forall>n. lookup_canon_depth (rocks_query L P r') n =
      (case pending_canon (pending_calls L P (rocks_db r) calls) (of_nat n) of
         Some x \<Rightarrow> Ok x | None \<Rightarrow> lookup_canon_depth (rocks_query L P r) n)) \<and>
    (\<forall>k. auxiliary (rocks_query L P r') k =
      (case pending_aux (pending_calls L P (rocks_db r) calls) k of
         Some x \<Rightarrow> Ok x | None \<Rightarrow> auxiliary (rocks_query L P r) k)) \<and>
    query_head (rocks_query L P r') =
      (case pending_head (pending_calls L P (rocks_db r) calls) of
         Some h \<Rightarrow> h | None \<Rightarrow> query_head (rocks_query L P r)) \<and>
    query_genesis (rocks_query L P r') = query_genesis (rocks_query L P r)"
proof -
  have q: "query_head (rocks_query L P r) = rocks_head r" "query_genesis (rocks_query L P r) = rocks_genesis r" for r
    by (simp_all add: rocks_query_def)
  show ?thesis unfolding q by (simp add: rocks_commit_calls [OF assms])
qed

theorem rocks_commit_refines_witness:
  "fetch_block_data list_db sample_coding (rocks_db sample_rocks_child) 1 = Ok (Some
     \<lparr>data_block = (1, Some 0), data_state = (), data_depth = 1, data_children = [], data_is_canon = False\<rparr>)"
  using rocks_commit_refines [OF list_db_law sample_coding_ok sample_child_Ok]
  by (simp add: pending_calls_def no_pending_def sample_coding_def)

text \<open>
  Within one settlement a block is always modified as it is in the database: of two children pushed to the same
  block only the second is kept.
\<close>

lemma push_child_lost_update:
  assumes "rocksdb_law L" "coding_ok P" "blocks_of L P (rocks_db r) p = Some q"
    and "rocks_commit L (settle_calls L P [PushChild p c, PushChild p c']) r = Ok r'"
  shows "children_at (rocks_query L P r') p = Ok (data_children q @ [c'])"
proof -
  have "fetch_block_data L P (rocks_db r') p = Ok (Some (q\<lparr>data_children := data_children q @ [c']\<rparr>))"
    using rocks_commit_calls(1) [OF assms(1,2,4), of p] assms(3) by (simp add: pending_calls_def no_pending_def)
  then show ?thesis by (simp add: rocks_query_def existing_block_def)
qed

text \<open>
  C5: On every database that the node builds, by creating it with a genesis block, importing new blocks below known ones,
  moving the head and reopening, the fork choice returns. If the justified block and the targets of all latest votes
  are in the database, the head is a known block without children, reached from the justified block by going to a
  child with most votes, where the votes of a block are the validators whose latest vote is the block or a
  descendant. Otherwise it is an error: for an unknown justified block, and for one with children as soon as a
  single latest vote is for an unknown block. A justified block without children is the head, whatever the votes.
\<close>

theorem ghost_head_correct:
  assumes "rocksdb_law L" "coding_ok P" "rocks_chain L P (backend g)" "ghost_wf g"
  shows "(j \<in> rocks_known L P (backend g) \<and> ran (latest_vote g) \<subseteq> rocks_known L P (backend g) \<longrightarrow>
      (\<exists>h. head (rocks_query L P) (block_parent_id P) g j = Ok h \<and>
        (ghost_child (rocks_known L P (backend g)) (rocks_parent L P (backend g)) g)\<^sup>*\<^sup>* j h \<and>
        h \<in> rocks_known L P (backend g) \<and>
        (\<nexists>c. c \<in> rocks_known L P (backend g) \<and> rocks_parent L P (backend g) c = Some h))) \<and>
    (j \<notin> rocks_known L P (backend g) \<longrightarrow> (\<exists>e. head (rocks_query L P) (block_parent_id P) g j = Err e)) \<and>
    (j \<in> rocks_known L P (backend g) \<and> (\<nexists>c. c \<in> rocks_known L P (backend g) \<and> rocks_parent L P (backend g) c = Some j) \<longrightarrow>
      head (rocks_query L P) (block_parent_id P) g j = Ok j) \<and>
    (j \<in> rocks_known L P (backend g) \<and> (\<exists>c. c \<in> rocks_known L P (backend g) \<and> rocks_parent L P (backend g) c = Some j) \<and>
      \<not> ran (latest_vote g) \<subseteq> rocks_known L P (backend g) \<longrightarrow>
      (\<exists>e. head (rocks_query L P) (block_parent_id P) g j = Err e))"
proof (intro conjI impI)
  note valid = rocks_chain_valid [OF assms(1-3)]
  show "\<exists>h. head (rocks_query L P) (block_parent_id P) g j = Ok h \<and>
      (ghost_child (rocks_known L P (backend g)) (rocks_parent L P (backend g)) g)\<^sup>*\<^sup>* j h \<and> h \<in> rocks_known L P (backend g) \<and>
      (\<nexists>c. c \<in> rocks_known L P (backend g) \<and> rocks_parent L P (backend g) c = Some h)"
    if "j \<in> rocks_known L P (backend g) \<and> ran (latest_vote g) \<subseteq> rocks_known L P (backend g)"
    using that by (intro rocks.head_known [OF valid assms(4)]) simp_all
qed (blast intro: rocks.head_unknown rocks.head_leaf rocks.head_unknown_vote rocks_chain_valid [OF assms(1-3)])+

theorem ghost_head_correct_witness:
  "\<exists>h. head (rocks_query list_db sample_coding) (block_parent_id sample_coding)
     \<lparr>backend = sample_rocks_child, votes = [(7 :: nat, 1)], overlayed_votes = []\<rparr> 0 = Ok h \<and>
     (\<nexists>c. c \<in> rocks_known list_db sample_coding sample_rocks_child \<and>
        rocks_parent list_db sample_coding sample_rocks_child c = Some h)"
proof -
  let ?g = "\<lparr>backend = sample_rocks_child, votes = [(7 :: nat, 1)], overlayed_votes = []\<rparr>"
  have b: "blocks_of list_db sample_coding (rocks_db sample_rocks) 0 = Some
      \<lparr>data_block = (0, None), data_state = (), data_depth = 0, data_children = [], data_is_canon = True\<rparr>"
    "blocks_of list_db sample_coding (rocks_db sample_rocks) 1 = None" by code_simp+
  have "fetch_block_data list_db sample_coding [] i = Ok None" for i
    by (simp add: fetch_block_data_def fetch_row_def list_db_def)
  then have "rocks_chain list_db sample_coding sample_rocks" using rocks_chain.created [OF sample_rocks_Ok] by blast
  then have chain: "rocks_chain list_db sample_coding (backend ?g)"
    unfolding ArchiveGhost.simps by (rule rocks_chain.imported [where b = "(1, Some 0)" and p = 0 and s = "()", OF _ _ b(1)])
      (use b(2) sample_child_Ok in \<open>simp_all add: import_calls_def\<close>)
  have k: "blocks_of list_db sample_coding (rocks_db sample_rocks_child) 0 \<noteq> None"
    "blocks_of list_db sample_coding (rocks_db sample_rocks_child) 1 \<noteq> None" by code_simp+
  have "ghost_wf ?g" by (simp add: ghost_wf_def)
  moreover have "ran (latest_vote ?g) \<subseteq> rocks_known list_db sample_coding (backend ?g)"
    using k(2) by (auto simp: latest_vote_def rocks_known_def ran_def split: if_splits)
  moreover have "0 \<in> rocks_known list_db sample_coding (backend ?g)" using k(1) by (auto simp: rocks_known_def)
  ultimately show ?thesis using ghost_head_correct [OF list_db_law sample_coding_ok chain, of 0] by auto
qed

end
