(* ===== verification/Node.thy ===== *)
theory Node
  imports Block_Authoring Rocks_Backend
begin

text \<open>
  The node around the state transition: blocks as the store sees them (\<^verbatim>\<open>blockchain/runtime\<close>), the executor
  the importer calls (\<^verbatim>\<open>blockchain/src/lib.rs\<close>), the backend wrapper (\<^verbatim>\<open>blockchain/src/backend.rs\<close>) and the
  attestation pool (\<^verbatim>\<open>blockchain/src/pool.rs\<close>).
\<close>

section \<open>Blocks and states\<close>

text \<open>\<^verbatim>\<open>Block::id\<close> and \<^verbatim>\<open>Block::parent_id\<close>.\<close>

definition beacon_block_id :: "Config \<Rightarrow> BeaconBlock \<Rightarrow> H256" where
  "beacon_block_id C b =
     (let header = BeaconBlockHeader_default\<lparr>
        bh_slot := bb_slot b,
        bh_parent_root := bb_parent_root b,
        bh_state_root := bb_state_root b,
        bh_body_root := root_body (hashing C) (bb_body b)\<rparr>
      in root_signing_header (hashing C) (signing_header header))"

definition beacon_parent_id :: "BeaconBlock \<Rightarrow> H256 option" where
  "beacon_parent_id b = (if bb_parent_root b = H256_default then None else Some (bb_parent_root b))"

text \<open>\<^verbatim>\<open>MemoryState\<close> and \<^verbatim>\<open>RocksState\<close> wrap a beacon state.\<close>

record MemoryState =
  memory_state :: BeaconState

record RocksState =
  rocks_state :: BeaconState

definition rocks_from_raw :: "BeaconState \<Rightarrow> RocksState" where
  "rocks_from_raw s = \<lparr>rocks_state = s\<rparr>"

definition rocks_into_raw :: "RocksState \<Rightarrow> BeaconState" where
  "rocks_into_raw s = rocks_state s"

section \<open>The executor\<close>

datatype executor_error = BeaconError error

definition executor_initialize_block :: "Config \<Rightarrow> Slot \<Rightarrow> (BeaconState, executor_error, unit) exec" where
  "executor_initialize_block C n s = (case initialize_block C n s of (r, t) \<Rightarrow> (map_err BeaconError r, t))"

definition executor_apply_inherent ::
  "Config \<Rightarrow> BLSConfig \<Rightarrow> BeaconBlock \<Rightarrow> Inherent \<Rightarrow> (BeaconState, executor_error, UnsealedBeaconBlock) exec" where
  "executor_apply_inherent C BLS parent i s = (case apply_inherent C BLS parent i s of (r, t) \<Rightarrow> (map_err BeaconError r, t))"

definition executor_apply_extrinsic ::
  "Config \<Rightarrow> BLSConfig \<Rightarrow> Transaction \<Rightarrow> (UnsealedBeaconBlock \<times> BeaconState, executor_error, unit) exec" where
  "executor_apply_extrinsic C BLS x s = (case apply_transaction C BLS x s of (r, t) \<Rightarrow> (map_err BeaconError r, t))"

definition executor_finalize_block ::
  "Config \<Rightarrow> BLSConfig \<Rightarrow> (UnsealedBeaconBlock \<times> BeaconState, executor_error, unit) exec" where
  "executor_finalize_block C BLS s = (case finalize_block C BLS s of (r, t) \<Rightarrow> (map_err BeaconError r, t))"

definition executor_execute :: "Config \<Rightarrow> BLSConfig \<Rightarrow> BeaconBlock \<Rightarrow> BeaconState \<Rightarrow> (executor_error, BeaconState) res" where
  "executor_execute C BLS b s = map_err BeaconError (run_local (execute_block C BLS b) s)"

definition executor_justified_block_id :: "BeaconState \<Rightarrow> (executor_error, H256 option) res" where
  "executor_justified_block_id s =
     (let justified_root = root (current_justified_checkpoint s) in
      Ok (if justified_root = H256_default then None else Some justified_root))"

definition executor :: "Config \<Rightarrow> BLSConfig \<Rightarrow> (BeaconBlock, BeaconState, u64, H256, executor_error) JustifiableExecutor" where
  "executor C BLS = \<lparr>
     execute = executor_execute C BLS,
     justified_active = (\<lambda>s. Ok (justified_active_validators s)),
     justified_block_id = executor_justified_block_id,
     block_votes = (\<lambda>b s. map_err BeaconError (block_vote_targets C s b))\<rparr>"

section \<open>The backend wrapper\<close>

record 'ba ShasperBackend =
  wrapped :: 'ba

definition shasper_query ::
  "('ba \<Rightarrow> ('id, 'b, 's, 'k, 'a, 'e) ChainQuery) \<Rightarrow> 'ba ShasperBackend \<Rightarrow> ('id, 'b, 's, 'k, 'a, 'e) ChainQuery" where
  "shasper_query query ba =
     (let Q = query (wrapped ba) in \<lparr>
        query_genesis = query_genesis Q,
        query_head = query_head Q,
        contains = (\<lambda>i. rbind (contains Q i) Ok),
        is_canon = (\<lambda>i. rbind (is_canon Q i) Ok),
        lookup_canon_depth = (\<lambda>d. rbind (lookup_canon_depth Q d) Ok),
        auxiliary = (\<lambda>k. rbind (auxiliary Q k) Ok),
        depth_at = (\<lambda>i. rbind (depth_at Q i) Ok),
        children_at = (\<lambda>i. rbind (children_at Q i) Ok),
        state_at = (\<lambda>i. rbind (state_at Q i) Ok),
        block_at = (\<lambda>i. rbind (block_at Q i) Ok)\<rparr>)"

definition shasper_ancestor_at ::
  "('b \<Rightarrow> 'id option) \<Rightarrow> ('ba \<Rightarrow> ('id, 'b, 's, 'k, 'a, 'e) ChainQuery) \<Rightarrow> 'ba ShasperBackend \<Rightarrow> 'id \<Rightarrow> nat \<Rightarrow> ('e, 'id) res" where
  "shasper_ancestor_at parent_id query ba = ancestor_at parent_id (query (wrapped ba))"

definition shasper_commit :: "('ba \<Rightarrow> 'op \<Rightarrow> ('e, 'ba) res) \<Rightarrow> 'ba ShasperBackend \<Rightarrow> 'op \<Rightarrow> ('e, 'ba ShasperBackend) res" where
  "shasper_commit commit ba op = rbind (commit (wrapped ba) op) (\<lambda>b. Ok (ba\<lparr>wrapped := b\<rparr>))"

section \<open>The attestation pool\<close>

text \<open>Attestations by the hash of their data.\<close>

type_synonym AttestationPool = "(H256 \<times> Attestation list) list"

definition new_pool :: AttestationPool where
  "new_pool = []"

text \<open>The first \<open>n\<close> bits of the new attestation are tested; an index out of range panics.\<close>

definition has_duplicate :: "Attestation \<Rightarrow> Attestation \<Rightarrow> bool result" where
  "has_duplicate existing a =
     (if length (aggregation_bits existing) > length (aggregation_bits a) then Panic
      else Ok (list_ex id (take (length (aggregation_bits existing)) (aggregation_bits a))))"

text \<open>\<^verbatim>\<open>xs[i] |= bit\<close> for every bit of the second list.\<close>

fun or_bits :: "bool list \<Rightarrow> bool list \<Rightarrow> bool list result" where
  "or_bits xs [] = Ok xs"
| "or_bits [] (b # bs) = Panic"
| "or_bits (x # xs) (b # bs) = rbind (or_bits xs bs) (\<lambda>ys. Ok ((x \<or> b) # ys))"

definition aggregate_attestation :: "BLSConfig \<Rightarrow> Attestation \<Rightarrow> Attestation \<Rightarrow> Attestation result" where
  "aggregate_attestation BLS existing a =
     rbind (or_bits (aggregation_bits existing) (aggregation_bits a)) (\<lambda>agg.
     rbind (or_bits (custody_bits existing) (custody_bits a)) (\<lambda>cust.
     if length cust > length (custody_bits a) \<or> list_ex id (take (length cust) (custody_bits a)) then Panic
     else Ok (existing\<lparr>aggregation_bits := agg, custody_bits := cust,
       at_signature := aggregate_signatures BLS [at_signature existing, at_signature a]\<rparr>)))"

text \<open>The loop over the existing attestations; the flag is \<^verbatim>\<open>aggregated\<close>.\<close>

fun aggregate_into :: "BLSConfig \<Rightarrow> Attestation \<Rightarrow> Attestation list \<Rightarrow> (Attestation list \<times> bool) result" where
  "aggregate_into BLS a [] = Ok ([], False)"
| "aggregate_into BLS a (e # es) =
     rbind (has_duplicate e a) (\<lambda>dup.
     if dup then rbind (aggregate_into BLS a es) (\<lambda>(es', f). Ok (e # es', f))
     else rbind (aggregate_attestation BLS e a) (\<lambda>e'. Ok (e' # es, True)))"

definition pool_push :: "Config \<Rightarrow> BLSConfig \<Rightarrow> Attestation \<Rightarrow> AttestationPool \<Rightarrow> AttestationPool result" where
  "pool_push C BLS a pool =
     (let h = root_attestation_data (hashing C) \<lparr>adc_data = at_data a, custody_bit = False\<rparr> in
      case map_of pool h of
        Some existings \<Rightarrow>
          rbind (aggregate_into BLS a existings) (\<lambda>(es, aggregated).
          Ok (AList.update h (if aggregated then es else es @ [a]) pool))
      | None \<Rightarrow> Ok (AList.update h [a] pool))"

definition pool_pop :: "H256 \<Rightarrow> AttestationPool \<Rightarrow> AttestationPool" where
  "pool_pop h pool = AList.delete h pool"

definition pool_iter :: "AttestationPool \<Rightarrow> (H256 \<times> Attestation) list" where
  "pool_iter pool = concat (map (\<lambda>(h, ats). map (\<lambda>a. (h, a)) ats) pool)"

section \<open>Properties\<close>

lemma shasper_query_eq: "shasper_query query ba = query (wrapped ba)"
  by (cases "query (wrapped ba)") (simp add: shasper_query_def Let_def)

interpretation shasper: chain_store "shasper_query (rocks_query L P)" "block_parent_id P" "\<lambda>ba. rocks_valid L P (wrapped ba)"
  "\<lambda>ba. rocks_known L P (wrapped ba)" "\<lambda>ba. rocks_parent L P (wrapped ba)" "\<lambda>ba. rocks_depth L P (wrapped ba)" for L P
  using rocks.chain_store_axioms [of L P] unfolding chain_store_def shasper_query_eq by blast

interpretation op_header: operations_invariant C "\<lambda>s. latest_block_header s = h \<and> slot s = k" for C h k
  by unfold_locales simp_all

lemma randao_header: "preserves (\<lambda>s. latest_block_header s = h \<and> slot s = k) (process_randao C BLS body)"
  unfolding process_randao_def by (intro preserves_intros preserves_emod) (simp add: Let_def)

lemma slot_steps_header:
  assumes "for_each (replicate k ()) (\<lambda>_. slot_step C) s = (Ok (), t)" "0 < k"
    and "bh_state_root (filled_header C s) \<noteq> H256_default"
  shows "latest_block_header t = filled_header C s"
  using assms
proof (induction k arbitrary: s)
  case (Suc k)
  then obtain u where u: "slot_step C s = (Ok (), u)" "for_each (replicate k ()) (\<lambda>_. slot_step C) u = (Ok (), t)"
    by (auto simp: eseq_eq_Ok)
  note h = slot_step_history(2) [OF u(1)]
  then have "filled_header C u = filled_header C s" using Suc.prems(3) by (simp add: filled_header_def)
  then show ?case using Suc.IH [OF u(2)] Suc.prems(3) h u(2) by (cases k) (auto simp: eret_eq)
qed simp

lemma process_slots_header:
  assumes "process_slots C n s = (Ok (), t)" "slot s \<noteq> n" "bh_state_root (filled_header C s) \<noteq> H256_default"
  shows "latest_block_header t = filled_header C s"
proof -
  have n: "slot s \<le> n" "slots_loop C n s = (Ok (), t)" using assms(1) by (auto simp: process_slots_def exec_ok not_less)
  then have "0 < unat n - unat (slot s)" using assms(2) by (simp add: word_le_nat_alt word_unat_eq_iff)
  then show ?thesis using slot_steps_header [OF _ _ assms(3)] n slots_loop_iterates [OF n(1)] by metis
qed

lemma execute_block_header:
  assumes "execute_block C BLS b s = (Ok (), t)"
  shows "latest_block_header t = header_of C (Sealed b)" "slot t = bb_slot b" "root_state (hashing C) t = bb_state_root b"
    "\<exists>u. process_slots C (bb_slot b) s = (Ok (), u) \<and>
      bb_parent_root b = root_signing_header (hashing C) (signing_header (latest_block_header u))"
proof -
  obtain u v where u: "process_slots C (bb_slot b) s = (Ok (), u)" "process_block_header C BLS (Sealed b) u = (Ok (), v)"
    and ops: "eseq (process_randao C BLS (bb_body b)) (eseq (process_eth1_data C (bb_body b))
      (process_operations C BLS (bb_body b))) v = (Ok (), t)" and r: "root_state (hashing C) t = bb_state_root b"
    using assms by (auto simp: execute_block_def state_transition_def process_block_def exec_ok)
  let ?I = "\<lambda>s. latest_block_header s = header_of C (Sealed b) \<and> slot s = bb_slot b"
  have v: "v = set_header (header_of C (Sealed b)) u" "slot u = bb_slot b"
    "bb_parent_root b = root_signing_header (hashing C) (signing_header (latest_block_header u))"
    using u(2) by (auto simp: process_block_header_Ok)
  have "preserves ?I (eseq (process_randao C BLS (bb_body b)) (eseq (process_eth1_data C (bb_body b))
      (process_operations C BLS (bb_body b))))"
    by (intro preserves_eseq randao_header op_header.eth1_inv op_header.operations_inv)
  from preservesD [OF this _ ops] have "?I t" using v by (simp add: set_header_def)
  then show "latest_block_header t = header_of C (Sealed b)" "slot t = bb_slot b" by simp_all
  show "root_state (hashing C) t = bb_state_root b" by (rule r)
  show "\<exists>u. process_slots C (bb_slot b) s = (Ok (), u) \<and>
      bb_parent_root b = root_signing_header (hashing C) (signing_header (latest_block_header u))" using u(1) v(3) by blast
qed

text \<open>
  The parent root of an executed block. In the slot of its parent the state root of the parent is not yet in the
  header, so the parent root is the identifier of the parent without its state root.
\<close>

lemma process_slots_same: "process_slots C n s = (Ok (), t) \<Longrightarrow> slot s = n \<Longrightarrow> t = s"
  by (simp add: process_slots_def exec_ok slots_loop.simps [of C n s])

lemma executed_same_slot:
  assumes b: "execute_block C BLS b s = (Ok (), s1)" and c: "execute_block C BLS c s1 = (Ok (), s2)"
    and "bb_slot c = bb_slot b"
  shows "bb_parent_root c = beacon_block_id C (b\<lparr>bb_state_root := H256_default\<rparr>)"
proof -
  note h = execute_block_header [OF b]
  obtain u where u: "process_slots C (bb_slot c) s1 = (Ok (), u)"
    "bb_parent_root c = root_signing_header (hashing C) (signing_header (latest_block_header u))"
    using execute_block_header(4) [OF c] by blast
  have "u = s1" using process_slots_same [OF u(1)] h(2) assms(3) by simp
  then show ?thesis
    unfolding u(2) by (simp add: h(1) beacon_block_id_def header_of_def signing_header_def BeaconBlockHeader_default_def)
qed

lemma executed_parent:
  assumes b: "execute_block C BLS b s = (Ok (), s1)" and c: "execute_block C BLS c s1 = (Ok (), s2)"
    and "bb_slot b \<noteq> bb_slot c" "bb_state_root b \<noteq> H256_default"
  shows "bb_parent_root c = beacon_block_id C b"
proof -
  note h = execute_block_header [OF b]
  have f: "filled_header C s1 = (header_of C (Sealed b))\<lparr>bh_state_root := bb_state_root b\<rparr>"
    using h by (simp add: filled_header_def header_of_def BeaconBlockHeader_default_def)
  obtain u where u: "process_slots C (bb_slot c) s1 = (Ok (), u)"
    "bb_parent_root c = root_signing_header (hashing C) (signing_header (latest_block_header u))"
    using execute_block_header(4) [OF c] by blast
  have "latest_block_header u = filled_header C s1"
    using assms(3,4) h(2) by (intro process_slots_header [OF u(1)]) (simp_all add: f)
  then show ?thesis unfolding u(2) by (simp add: f beacon_block_id_def header_of_def signing_header_def)
qed

lemma genesis_header:
  assumes "genesis C BLS ds time eth1 = Ok (b, g)"
  shows "latest_block_header g = BeaconBlockHeader_default\<lparr>bh_body_root := root_body (hashing C) BeaconBlockBody_default\<rparr>"
    "slot g = 0" "b = BeaconBlock_default\<lparr>bb_state_root := root_state (hashing C) g\<rparr>"
proof -
  have g: "genesis_beacon_state C BLS ds time eth1 = Ok g" and b: "b = BeaconBlock_default\<lparr>bb_state_root := root_state (hashing C) g\<rparr>"
    using assms by (auto simp: genesis_def rbind_eq_Ok)
  obtain s where run: "for_each ds (process_deposit C BLS) (genesis_initial C time eth1) = (Ok (), s)"
    and s: "g = s\<lparr>validators := map (genesis_activate C) (validators s)\<rparr>"
    using genesis_deposits [OF g] .
  let ?i = "genesis_initial C time eth1"
  have "latest_block_header s = latest_block_header ?i \<and> slot s = slot ?i"
    using preservesD [OF preserves_for_each [OF op_header.deposit_inv [of "latest_block_header ?i" "slot ?i"]] _ run] by simp
  then show "latest_block_header g = BeaconBlockHeader_default\<lparr>bh_body_root := root_body (hashing C) BeaconBlockBody_default\<rparr>"
    "slot g = 0" by (simp_all add: s genesis_initial_def BeaconState_default_def Let_def)
  show "b = BeaconBlock_default\<lparr>bb_state_root := root_state (hashing C) g\<rparr>" by (rule b)
qed

lemma genesis_parent:
  assumes "genesis C BLS ds time eth1 = Ok (b, g)" "execute_block C BLS c g = (Ok (), t)"
    and "bb_state_root b \<noteq> H256_default"
  shows "bb_parent_root c = beacon_block_id C (if bb_slot c = bb_slot b then b\<lparr>bb_state_root := H256_default\<rparr> else b)"
proof -
  note h = genesis_header [OF assms(1)]
  have f: "filled_header C g = (latest_block_header g)\<lparr>bh_state_root := bb_state_root b\<rparr>"
    by (simp add: filled_header_def h BeaconBlockHeader_default_def)
  obtain u where u: "process_slots C (bb_slot c) g = (Ok (), u)"
    "bb_parent_root c = root_signing_header (hashing C) (signing_header (latest_block_header u))"
    using execute_block_header(4) [OF assms(2)] by blast
  have "latest_block_header u = (if bb_slot c = bb_slot b then latest_block_header g else filled_header C g)"
    using process_slots_same [OF u(1)] process_slots_header [OF u(1)] assms(3) h(2) f by (simp add: h(3) BeaconBlock_default_def)
  then show ?thesis
    unfolding u(2) by (simp add: f h beacon_block_id_def signing_header_def BeaconBlock_default_def BeaconBlockHeader_default_def)
qed

text \<open>A small configuration and a block on it.\<close>

definition small_config :: Config where
  "small_config = (MinimalConfig toy_hashing)\<lparr>slots_per_historical_root := 8, epochs_per_historical_vector := 3,
     epochs_per_slashings_vector := 2, shuffle_round_count := 1\<rparr>"

definition small_state :: BeaconState where
  "small_state = (BeaconState_default small_config)\<lparr>slot := 8, validators := [sample_validator 1], balances := [32000000000]\<rparr>"

definition next_block :: "BeaconBlock \<Rightarrow> BeaconState \<Rightarrow> (error, unit) res \<times> BeaconState" where
  "next_block b s = eseq (process_block small_config BLSNoVerification (Sealed b))
     (ensure (\<lambda>s. block_state_root (Sealed b) = root_state (hashing small_config) s) BlockStateRootInvalid)
     (next_slot small_config s)"

definition small_head :: BeaconState where
  "small_head = snd (next_block (sample_block 0 9) small_state)"

lemma execute_next_block:
  assumes "(slot s + 1) mod 8 \<noteq> 0" "slot s < bb_slot b" "bb_slot b = slot s + 1"
  shows "execute_block small_config BLSNoVerification b s = next_block b s"
proof -
  have "slots_per_epoch small_config = 8" by (simp add: small_config_def MinimalConfig_def)
  then have "process_slots small_config (block_slot (Sealed b)) s = (Ok (), next_slot small_config s)"
    using assms by (intro process_slots_next) simp_all
  then show ?thesis by (simp add: execute_block_def state_transition_def eseq_run next_block_def)
qed

lemma small_block: "fst (next_block (sample_block 0 9) small_state) = Ok ()"
  by code_simp

lemma small_head_Ok: "execute_block small_config BLSNoVerification (sample_block 0 9) small_state = (Ok (), small_head)"
proof -
  have "slot small_state = 8" by (simp add: small_state_def)
  then show ?thesis
    using small_block by (simp add: execute_next_block sample_block_def small_head_def prod_eq_iff)
qed

text \<open>
  C36: The pool does not aggregate: an attestation with at least one bit set is appended to the attestations with the same
  data and committee size, whatever bits these have, also if it has no bit in common with them.
\<close>

theorem pool_push_appends:
  assumes "map_of pool (root_attestation_data (hashing C) \<lparr>adc_data = at_data a, custody_bit = False\<rparr>) = Some es"
    and "\<forall>e\<in>set es. length (aggregation_bits e) = length (aggregation_bits a)" "list_ex id (aggregation_bits a)"
  shows "pool_push C BLS a pool =
    Ok (AList.update (root_attestation_data (hashing C) \<lparr>adc_data = at_data a, custody_bit = False\<rparr>) (es @ [a]) pool)"
proof -
  have "aggregate_into BLS a es = Ok (es, False)"
    using assms(2,3) by (induction es) (simp_all add: has_duplicate_def)
  then show ?thesis using assms(1) by (simp add: pool_push_def Let_def)
qed

definition sample_data :: AttestationData where
  "sample_data = \<lparr>ad_slot = 1, ad_index = 0, beacon_block_root = H256_default, source = Checkpoint_default,
     target = Checkpoint_default\<rparr>"

definition attestation_of :: "bool list \<Rightarrow> Attestation" where
  "attestation_of bits = \<lparr>aggregation_bits = bits, at_data = sample_data, custody_bits = map (\<lambda>_. False) bits,
     at_signature = Signature_default\<rparr>"

theorem pool_push_appends_witness:
  "\<exists>h. rbind (pool_push (MinimalConfig toy_hashing) BLSNoVerification (attestation_of [True, False]) new_pool)
     (pool_push (MinimalConfig toy_hashing) BLSNoVerification (attestation_of [False, True])) =
   Ok [(h, [attestation_of [True, False], attestation_of [False, True]])]"
proof -
  let ?h = "root_attestation_data (hashing (MinimalConfig toy_hashing)) \<lparr>adc_data = sample_data, custody_bit = False\<rparr>"
  have 1: "pool_push (MinimalConfig toy_hashing) BLSNoVerification (attestation_of [True, False]) new_pool =
      Ok [(?h, [attestation_of [True, False]])]" by (simp add: pool_push_def new_pool_def Let_def attestation_of_def)
  have "pool_push (MinimalConfig toy_hashing) BLSNoVerification (attestation_of [False, True]) [(?h, [attestation_of [True, False]])] =
      Ok (AList.update ?h ([attestation_of [True, False]] @ [attestation_of [False, True]]) [(?h, [attestation_of [True, False]])])"
    using pool_push_appends [of "[(?h, [attestation_of [True, False]])]" "MinimalConfig toy_hashing" "attestation_of [False, True]"
        "[attestation_of [True, False]]" BLSNoVerification]
    by (simp add: attestation_of_def)
  then show ?thesis using 1 by simp
qed

end
