(* ===== verification/Deposit_Tree.thy ===== *)
theory Deposit_Tree
  imports State_Transition
begin

unbundle bit_operations_syntax

text \<open>
  The Merkle tree of the deposits with which a node without a genesis file starts its chain, and that chain's
  genesis (\<^verbatim>\<open>deposit_tree\<close>, \<^verbatim>\<open>deposit_root\<close>, \<^verbatim>\<open>deposit_proof\<close> and the last branch of \<^verbatim>\<open>genesis_state\<close> in
  \<^verbatim>\<open>blockchain/src/main.rs\<close>). The lemmas show that every proof cut from the tree leads from its leaf to the root,
  so that the deposits pass \<^verbatim>\<open>process_deposit\<close> and the genesis state is built.
\<close>

section \<open>The tree\<close>

definition zerohashes :: "Config \<Rightarrow> H256 list" where
  "zerohashes C = foldl (\<lambda>zs layer. zs @ [hash C [zs ! (layer - 1), zs ! (layer - 1)]]) [H256_default] [1..<32]"

text \<open>One pass of the loop: an odd number of values is filled up, and neighbours are hashed.\<close>

definition tree_level :: "Config \<Rightarrow> nat \<Rightarrow> H256 list \<Rightarrow> H256 list" where
  "tree_level C h vs =
     (let ws = (if length vs mod 2 = 1 then vs @ [zerohashes C ! h] else vs) in
      map (\<lambda>i. hash C [ws ! (i * 2), ws ! (i * 2 + 1)]) [0..<length ws div 2])"

definition push_level :: "Config \<Rightarrow> H256 list \<times> H256 list list \<Rightarrow> nat \<Rightarrow> H256 list \<times> H256 list list" where
  "push_level C vt h = (let new_values = tree_level C h (fst vt) in (new_values, snd vt @ [new_values]))"

text \<open>The number of deposits as a leaf.\<close>

definition length_leaf :: "nat \<Rightarrow> H256" where
  "length_leaf n = (let ret = to_le_bytes (of_nat n :: u64) in ret @ replicate (32 - length ret) 0)"

definition deposit_tree :: "Config \<Rightarrow> DepositData list \<Rightarrow> H256 list list result" where
  "deposit_tree C ds =
     (let vs = map (root_deposit_data (hashing C)) ds;
          (ws, tree) = foldl (push_level C) (vs, [vs]) [0..<unat DEPOSIT_CONTRACT_TREE_DEPTH]
      in if length ws \<noteq> 1 then Panic else
         (let l = length_leaf (length vs);
              grown = tree[32 := tree ! 32 @ [l]] @ [[hash C [ws ! 0, l]]]
          in if length grown \<noteq> 34 then Panic else Ok grown))"

definition deposit_tree_root :: "H256 list list \<Rightarrow> H256 result" where
  "deposit_tree_root tree = (if tree = [] \<or> last tree = [] then Panic else Ok (last tree ! 0))"

definition deposit_proof :: "Config \<Rightarrow> H256 list list \<Rightarrow> nat \<Rightarrow> H256 list result" where
  "deposit_proof C tree item_index =
     (if length tree \<le> 32 \<or> length (tree ! 32) \<le> 1 then Panic
      else Ok (map (\<lambda>i.
        let subindex = (item_index div 2 ^ i) XOR 1 in
        if subindex < length (tree ! i) then tree ! i ! subindex else zerohashes C ! i)
        [0..<unat DEPOSIT_CONTRACT_TREE_DEPTH] @ [tree ! 32 ! 1]))"

section \<open>The genesis of a new chain\<close>

text \<open>What the code takes from the BLS library for its own keys.\<close>

record 'sk Secrets =
  public_key :: "'sk \<Rightarrow> ValidatorId"
  sign :: "H256 \<Rightarrow> u64 \<Rightarrow> 'sk \<Rightarrow> Signature"

text \<open>
  The deposit of the \<open>i\<close>-th key; \<open>credentials\<close> is \<^verbatim>\<open>H256::from_low_u64_le\<close>. All configurations use SHA-256 as
  their digest, so the signed root is the one of the configuration.
\<close>

definition own_deposit :: "Config \<Rightarrow> 'sk Secrets \<Rightarrow> (u64 \<Rightarrow> H256) \<Rightarrow> nat \<Rightarrow> 'sk \<Rightarrow> DepositData" where
  "own_deposit C K credentials i sk =
     (let data = \<lparr>dd_pubkey = public_key K sk, dd_withdrawal_credentials = credentials (of_nat i),
            dd_amount = 32000000000, dd_signature = Signature_default\<rparr>
      in data\<lparr>dd_signature := sign K (root_signing_deposit_data (hashing C) (signing_deposit_data data))
           (genesis_domain domain_deposit) sk\<rparr>)"

definition own_deposits :: "Config \<Rightarrow> 'sk Secrets \<Rightarrow> (u64 \<Rightarrow> H256) \<Rightarrow> 'sk list \<Rightarrow> DepositData list" where
  "own_deposits C K credentials sks = map (\<lambda>(i, sk). own_deposit C K credentials i sk) (enumerate 0 sks)"

definition with_proofs :: "Config \<Rightarrow> DepositData list \<Rightarrow> (Deposit list \<times> Eth1Data) result" where
  "with_proofs C ds =
     rbind (deposit_tree C ds) (\<lambda>tree.
     rbind (collect_res (\<lambda>(i, d). rbind (deposit_proof C tree i) (\<lambda>prf. Ok \<lparr>proof_branch = prf, dep_data = d\<rparr>))
       (enumerate 0 ds)) (\<lambda>deposits.
     rbind (deposit_tree_root tree) (\<lambda>rt.
     Ok (deposits, \<lparr>deposit_root = rt, deposit_count = len64 deposits, block_hash = H256_default\<rparr>))))"

definition own_genesis :: "Config \<Rightarrow> BLSConfig \<Rightarrow> 'sk Secrets \<Rightarrow> (u64 \<Rightarrow> H256) \<Rightarrow> 'sk list \<Rightarrow> BeaconState result" where
  "own_genesis C BLS K credentials sks =
     rbind (with_proofs C (own_deposits C K credentials sks)) (\<lambda>(deposits, eth1).
     genesis_beacon_state C BLS deposits 0 eth1)"

section \<open>Levels and branches\<close>

primrec level :: "Config \<Rightarrow> H256 list \<Rightarrow> nat \<Rightarrow> H256 list" where
  "level C vs 0 = vs"
| "level C vs (Suc h) = tree_level C h (level C vs h)"

text \<open>The node next to node \<open>k\<close> of a level, as \<^verbatim>\<open>deposit_proof\<close> finds it.\<close>

definition sibling :: "Config \<Rightarrow> H256 list \<Rightarrow> nat \<Rightarrow> nat \<Rightarrow> H256" where
  "sibling C vs h k = (if k XOR 1 < length (level C vs h) then level C vs h ! (k XOR 1) else zerohashes C ! h)"

text \<open>The root of a branch, from the leaf upwards: the bits of the index tell on which side the sibling is.\<close>

primrec branch_root :: "Config \<Rightarrow> H256 \<Rightarrow> H256 list \<Rightarrow> nat \<Rightarrow> H256" where
  "branch_root C v [] ix = v"
| "branch_root C v (s # ss) ix = branch_root C (if odd ix then hash C [s, v] else hash C [v, s]) ss (ix div 2)"

lemma length_tree_level: "length (tree_level C h vs) = (length vs + 1) div 2"
proof -
  have "(n + 1) div 2 = n div 2" if "even n" for n :: nat using that by presburger
  then show ?thesis by (cases "even (length vs)") (simp_all add: tree_level_def Let_def odd_iff_mod_2_eq_one)
qed

lemma level_bounds:
  assumes "0 < length vs" "length vs \<le> 2 ^ n" "h \<le> n"
  shows "0 < length (level C vs h) \<and> length (level C vs h) \<le> 2 ^ (n - h)"
  using assms(3)
proof (induction h)
  case (Suc h)
  then have "2 ^ (n - h) = 2 * (2 ^ (n - Suc h) :: nat)" by (simp flip: power_Suc add: Suc_diff_Suc)
  moreover have "(m + 1) div 2 \<le> p" if "m \<le> 2 * p" for m p :: nat using that by simp
  ultimately show ?case using Suc by (simp add: length_tree_level)
qed (use assms in auto)

lemma push_levels: "foldl (push_level C) (vs, [vs]) [0..<n] = (level C vs n, map (level C vs) [0..<Suc n])"
  by (induction n) (simp_all add: push_level_def Let_def)

lemma tree_level_nth:
  assumes "k < length (level C vs h)"
  shows "k div 2 < length (level C vs (Suc h)) \<and> level C vs (Suc h) ! (k div 2) =
    (if odd k then hash C [sibling C vs h k, level C vs h ! k] else hash C [level C vs h ! k, sibling C vs h k])"
proof -
  let ?l = "level C vs h"
  define ws where "ws = (if length ?l mod 2 = 1 then ?l @ [zerohashes C ! h] else ?l)"
  have x: "k XOR Suc 0 = (if odd k then k - 1 else k + 1)" by (cases "odd k") (simp_all add: xor_Suc_0_eq)
  have len: "length (level C vs (Suc h)) = (length ?l + 1) div 2" by (simp add: length_tree_level)
  have tl: "level C vs (Suc h) = map (\<lambda>i. hash C [ws ! (i * 2), ws ! (i * 2 + 1)]) [0..<length ws div 2]"
    by (simp add: tree_level_def ws_def Let_def)
  have k: "k div 2 < (length ?l + 1) div 2" using assms by presburger
  moreover have "(length ?l + 1) div 2 = length ws div 2" using len unfolding tl by simp
  ultimately have nth: "level C vs (Suc h) ! (k div 2) = hash C [ws ! (k div 2 * 2), ws ! (k div 2 * 2 + 1)]"
    unfolding tl by simp
  have w: "ws ! i = (if i < length ?l then ?l ! i else zerohashes C ! h)" if "i < length ?l \<or> odd (length ?l) \<and> i = length ?l" for i
    using that by (auto simp: ws_def nth_append odd_iff_mod_2_eq_one)
  show ?thesis
  proof (cases "odd k")
    case True
    then have "k div 2 * 2 = k - 1" "k div 2 * 2 + 1 = k" by presburger+
    moreover have "k - Suc 0 < length ?l" using assms by simp
    ultimately show ?thesis using True assms k unfolding nth len sibling_def by (simp add: w x)
  next
    case False
    then have "k div 2 * 2 = k" by presburger
    moreover have "k + 1 < length ?l \<or> odd (length ?l) \<and> k + 1 = length ?l"
      using assms False by (cases "k + 1 = length ?l") (auto dest: sym)
    ultimately show ?thesis using False assms k unfolding nth len sibling_def by (auto simp: w x)
  qed
qed

lemma branch_root_level:
  assumes "k < length (level C vs h)"
  shows "branch_root C (level C vs h ! k) (map (\<lambda>i. sibling C vs (h + i) (k div 2 ^ i)) [0..<n]) k =
    level C vs (h + n) ! (k div 2 ^ n)"
  using assms
proof (induction n arbitrary: h k)
  case (Suc n)
  note t = tree_level_nth [OF Suc.prems]
  have "map (\<lambda>i. sibling C vs (h + i) (k div 2 ^ i)) [0..<Suc n] =
      sibling C vs h k # map (\<lambda>i. sibling C vs (Suc h + i) (k div 2 div 2 ^ i)) [0..<n]"
    by (simp add: map_upt_Suc div_mult2_eq del: upt_Suc)
  then show ?case using Suc.IH [of "k div 2" "Suc h"] t by (auto simp: div_mult2_eq)
qed simp

section \<open>Proofs lead to the root\<close>

text \<open>What is relied on of the Merkle library: the value of a branch is computed from the leaf upwards.\<close>

definition branch_law :: "Config \<Rightarrow> bool" where
  "branch_law C \<longleftrightarrow> (\<forall>leaf prf ix d. length prf = unat d \<longrightarrow> unat ix < 2 ^ unat d \<longrightarrow>
     compact_value_root (hashing C) leaf prf ix d = Some (branch_root C leaf prf (unat ix)))"

lemma unat_tree_depth [simp]: "unat DEPOSIT_CONTRACT_TREE_DEPTH = 32" "unat (DEPOSIT_CONTRACT_TREE_DEPTH + 1) = 33"
  by (simp_all add: DEPOSIT_CONTRACT_TREE_DEPTH_def)

lemma branch_root_append:
  "branch_root C v (ss @ ts) ix = branch_root C (branch_root C v ss ix) ts (ix div 2 ^ length ss)"
  by (induction ss arbitrary: v ix) (simp_all add: div_mult2_eq)

lemma deposit_tree_levels:
  fixes C :: Config
  assumes "ds \<noteq> []" "length ds \<le> 2 ^ 32"
  defines "vs \<equiv> map (root_deposit_data (hashing C)) ds"
  shows "deposit_tree C ds = Ok (map (level C vs) [0..<32] @
    [[level C vs 32 ! 0, length_leaf (length ds)], [hash C [level C vs 32 ! 0, length_leaf (length ds)]]])"
proof -
  have "0 < length vs" "length vs \<le> 2 ^ 32" using assms by simp_all
  then have "length (level C vs 32) = 1" using level_bounds [of vs 32 32 C] by (auto simp: le_Suc_eq)
  then obtain r where r: "level C vs 32 = [r]" by (auto simp: length_Suc_conv)
  have u: "[0..<Suc 32] = [0..<32] @ [32]" by (rule upt_Suc_append) simp
  show ?thesis
    unfolding deposit_tree_def Let_def vs_def [symmetric] unat_tree_depth push_levels u
    by (simp add: r list_update_append nth_append) (simp add: vs_def)
qed

lemma deposit_proof_levels:
  assumes "ds \<noteq> []" "length ds \<le> 2 ^ 32" "deposit_tree C ds = Ok tree"
  defines "vs \<equiv> map (root_deposit_data (hashing C)) ds"
  shows "deposit_proof C tree i = Ok (map (\<lambda>h. sibling C vs h (i div 2 ^ h)) [0..<32] @ [length_leaf (length ds)])"
    and "deposit_tree_root tree = Ok (hash C [level C vs 32 ! 0, length_leaf (length ds)])"
proof -
  have t: "tree = map (level C vs) [0..<32] @
      [[level C vs 32 ! 0, length_leaf (length ds)], [hash C [level C vs 32 ! 0, length_leaf (length ds)]]]"
    using deposit_tree_levels [OF assms(1,2), of C] assms(3) by (simp add: vs_def)
  have "tree ! h = level C vs h" if "h < 32" for h using that by (simp add: t nth_append)
  moreover have "length tree = 34" "tree ! 32 = [level C vs 32 ! 0, length_leaf (length ds)]" by (simp_all add: t nth_append)
  ultimately show "deposit_proof C tree i =
      Ok (map (\<lambda>h. sibling C vs h (i div 2 ^ h)) [0..<32] @ [length_leaf (length ds)])"
    unfolding deposit_proof_def sibling_def by (simp add: Let_def cong: map_cong)
  show "deposit_tree_root tree = Ok (hash C [level C vs 32 ! 0, length_leaf (length ds)])"
    by (simp add: t deposit_tree_root_def)
qed

lemma own_proof_valid:
  assumes "branch_law C" "ds \<noteq> []" "length ds \<le> 2 ^ 32" "deposit_tree C ds = Ok tree" "i < length ds"
    and "deposit_proof C tree i = Ok prf" "deposit_tree_root tree = Ok rt"
  shows "is_valid_merkle_branch C (root_deposit_data (hashing C) (ds ! i)) prf (DEPOSIT_CONTRACT_TREE_DEPTH + 1) (of_nat i) rt"
proof -
  let ?vs = "map (root_deposit_data (hashing C)) ds"
  have i: "i < 2 ^ 32" "unat (of_nat i :: u64) = i" using assms(3,5) by (simp_all add: unat_of_nat_u64)
  note l = deposit_proof_levels [OF assms(2-4)]
  have pe: "prf = map (\<lambda>h. sibling C ?vs h (i div 2 ^ h)) [0..<32] @ [length_leaf (length ds)]"
    and rt: "rt = hash C [level C ?vs 32 ! 0, length_leaf (length ds)]"
    using l(1) [of i] l(2) assms(6,7) by simp_all
  have "branch_root C (?vs ! i) (map (\<lambda>h. sibling C ?vs h (i div 2 ^ h)) [0..<32]) i = level C ?vs 32 ! 0"
    using branch_root_level [of i C ?vs 0 32] assms(5) i(1) by simp
  then have "branch_root C (?vs ! i) prf i = rt" using i(1) by (simp add: pe branch_root_append rt)
  moreover have "length prf = 33" by (simp add: pe)
  ultimately show ?thesis
    using assms(1) i by (simp add: is_valid_merkle_branch_def branch_law_def len64_def assms(5) DEPOSIT_CONTRACT_TREE_DEPTH_def)
qed

lemma with_proofs_Ok:
  assumes "branch_law C" "ds \<noteq> []" "length ds \<le> 2 ^ 32"
  obtains deposits eth1 where "with_proofs C ds = Ok (deposits, eth1)" "map dep_data deposits = ds"
    "\<And>i. i < length ds \<Longrightarrow> is_valid_merkle_branch C (root_deposit_data (hashing C) (ds ! i)) (proof_branch (deposits ! i))
      (DEPOSIT_CONTRACT_TREE_DEPTH + 1) (of_nat i) (deposit_root eth1)"
proof -
  obtain tree where tree: "deposit_tree C ds = Ok tree" using deposit_tree_levels [OF assms(2,3), of C] by blast
  note l = deposit_proof_levels [OF assms(2,3) tree]
  obtain rt where rt: "deposit_tree_root tree = Ok rt" using l(2) by blast
  define f where "f i = map (\<lambda>h. sibling C (map (root_deposit_data (hashing C)) ds) h (i div 2 ^ h)) [0..<32] @
      [length_leaf (length ds)]" for i
  have f: "deposit_proof C tree i = Ok (f i)" for i using l(1) by (simp add: f_def)
  define deposits where "deposits = map (\<lambda>(i, d). \<lparr>proof_branch = f i, dep_data = d\<rparr>) (enumerate 0 ds)"
  have d: "deposits ! i = \<lparr>proof_branch = f i, dep_data = ds ! i\<rparr>" if "i < length ds" for i
    using that by (simp add: deposits_def nth_enumerate_eq)
  have len: "length deposits = length ds" by (simp add: deposits_def)
  have "collect_res (\<lambda>(i, d). rbind (deposit_proof C tree i) (\<lambda>prf. Ok \<lparr>proof_branch = prf, dep_data = d\<rparr>)) (enumerate 0 ds) =
      Ok deposits"
    unfolding deposits_def by (rule collect_res_all_Ok) (auto simp: f)
  define e where "e = \<lparr>deposit_root = rt, deposit_count = len64 deposits, block_hash = H256_default\<rparr>"
  note c = \<open>collect_res _ _ = _\<close>
  have e: "deposit_root e = rt" by (simp add: e_def)
  have "with_proofs C ds = Ok (deposits, e)" by (simp add: with_proofs_def tree rt c e_def)
  moreover have "map dep_data deposits = ds" 
    by (rule nth_equalityI) (simp_all add: d len)
  moreover have "is_valid_merkle_branch C (root_deposit_data (hashing C) (ds ! i)) (proof_branch (deposits ! i))
      (DEPOSIT_CONTRACT_TREE_DEPTH + 1) (of_nat i) (deposit_root e)" if "i < length ds" for i
    using own_proof_valid [OF assms tree that f rt] by (simp add: d that e)
  ultimately show thesis by (rule that)
qed

section \<open>The deposits are accepted\<close>

lemma process_new_deposit:
  assumes "is_valid_merkle_branch C (root_deposit_data (hashing C) (dep_data d)) (proof_branch d)
      (DEPOSIT_CONTRACT_TREE_DEPTH + 1) (eth1_deposit_index s) (deposit_root (eth1_data s))"
    and "dd_pubkey (dep_data d) \<notin> pubkey ` set (validators s)"
    and "verify BLS (dd_pubkey (dep_data d)) (root_signing_deposit_data (hashing C) (signing_deposit_data (dep_data d)))
      (dd_signature (dep_data d)) (domain C s domain_deposit None)"
  shows "process_deposit C BLS d s = (Ok (), s\<lparr>eth1_deposit_index := eth1_deposit_index s + 1,
    validators := validators s @ [deposit_validator C (dep_data d)], balances := balances s @ [dd_amount (dep_data d)]\<rparr>)"
proof -
  have "position (dd_pubkey (dep_data d)) (map pubkey (validators s)) = None" using assms(2) by (simp add: position_None)
  then show ?thesis
    using assms(1,3) by (simp add: process_deposit_def Let_def ebind_eget exec_simps eseq_def ebind_def)
qed

definition deposited :: "Config \<Rightarrow> Eth1Data \<Rightarrow> DepositData list \<Rightarrow> BeaconState" where
  "deposited C eth1 ds = (genesis_initial C 0 eth1)\<lparr>eth1_deposit_index := of_nat (length ds),
     validators := map (deposit_validator C) ds, balances := map dd_amount ds\<rparr>"

lemma deposited_sel [simp]:
  "eth1_deposit_index (deposited C eth1 ds) = of_nat (length ds)" "eth1_data (deposited C eth1 ds) = eth1"
  "validators (deposited C eth1 ds) = map (deposit_validator C) ds" "balances (deposited C eth1 ds) = map dd_amount ds"
  "domain C (deposited C eth1 ds) t e = genesis_domain t"
  by (simp_all add: deposited_def genesis_initial_def domain_def genesis_domain_def BeaconState_default_def Fork_default_def Let_def)

lemma deposited_snoc:
  "(deposited C eth1 ds)\<lparr>eth1_deposit_index := of_nat (length ds) + 1,
     validators := map (deposit_validator C) ds @ [deposit_validator C d], balances := map dd_amount ds @ [dd_amount d]\<rparr> =
   deposited C eth1 (ds @ [d])"
  by (simp add: deposited_def add.commute)

lemma deposited_run:
  assumes "\<And>i. i < length xs \<Longrightarrow> is_valid_merkle_branch C (root_deposit_data (hashing C) (dep_data (xs ! i)))
      (proof_branch (xs ! i)) (DEPOSIT_CONTRACT_TREE_DEPTH + 1) (of_nat i) (deposit_root eth1)"
    and "distinct (map (dd_pubkey \<circ> dep_data) xs)"
    and "\<And>d. d \<in> set xs \<Longrightarrow> verify BLS (dd_pubkey (dep_data d))
      (root_signing_deposit_data (hashing C) (signing_deposit_data (dep_data d))) (dd_signature (dep_data d)) (genesis_domain domain_deposit)"
    and "k \<le> length xs"
  shows "for_each (take k xs) (process_deposit C BLS) (genesis_initial C 0 eth1) =
    (Ok (), deposited C eth1 (map dep_data (take k xs)))"
  using assms(4)
proof (induction k)
  case 0
  have "deposited C eth1 [] = genesis_initial C 0 eth1"
    by (simp add: deposited_def genesis_initial_def BeaconState_default_def Let_def)
  then show ?case by (simp add: exec_simps)
next
  case (Suc k)
  let ?d = "xs ! k" and ?s = "deposited C eth1 (map dep_data (take k xs))"
  have t: "take (Suc k) xs = take k xs @ [?d]" using Suc.prems by (simp add: take_Suc_conv_app_nth)
  have "distinct (map (dd_pubkey \<circ> dep_data) (take (Suc k) xs))"
    using distinct_take [OF assms(2)] by (simp add: take_map)
  then have "dd_pubkey (dep_data ?d) \<notin> pubkey ` set (validators ?s)" by (auto simp: t deposit_validator_def)
  then have "process_deposit C BLS ?d ?s = (Ok (), deposited C eth1 (map dep_data (take (Suc k) xs)))"
    using Suc.prems assms(1) [of k] assms(3) [of ?d] 
      deposited_snoc [where C = C and ds = "map dep_data (take k xs)" and d = "dep_data ?d"]
    by (subst process_new_deposit) (simp_all add: t)
  then show ?case using Suc unfolding t for_each_append by (simp add: eseq_run exec_simps)
qed

lemma activated_deposit:
  "pubkey (deposit_validator C d) = dd_pubkey d"
  "max_effective_balance C \<le> rounded_balance C (dd_amount d) \<Longrightarrow>
    activation_epoch (genesis_activate C (deposit_validator C d)) = genesis_epoch C"
  by (simp_all add: deposit_validator_def genesis_activate_def)

section \<open>Properties\<close>

text \<open>
  The genesis of a new chain, for every configuration of signatures that verifies what was signed.
\<close>

lemma own_genesis_built:
  assumes "branch_law C" "sks \<noteq> []" "length sks \<le> 2 ^ 32" "distinct (map (public_key K) sks)"
    and "\<And>sk m d. sk \<in> set sks \<Longrightarrow> verify BLS (public_key K sk) m (sign K m d sk) d"
    and "max_effective_balance C \<le> rounded_balance C 32000000000"
  shows "\<exists>g. own_genesis C BLS K credentials sks = Ok g \<and> map pubkey (validators g) = map (public_key K) sks \<and>
    balances g = replicate (length sks) 32000000000 \<and> (\<forall>v\<in>set (validators g). activation_epoch v = genesis_epoch C)"
proof -
  let ?ds = "own_deposits C K credentials sks"
  have len: "length ?ds = length sks" "?ds \<noteq> []" using assms(2) by (cases sks; simp add: own_deposits_def)+
  have nth: "?ds ! i = own_deposit C K credentials i (sks ! i)" if "i < length sks" for i
    using that by (simp add: own_deposits_def nth_enumerate_eq)
  have keys: "map dd_pubkey ?ds = map (public_key K) sks" and amounts: "map dd_amount ?ds = replicate (length sks) 32000000000"
    by (rule nth_equalityI; simp add: len nth own_deposit_def Let_def)+
  have "length ?ds \<le> 2 ^ 32" using assms(3) len(1) by simp
  then obtain xs eth1 where xs: "with_proofs C ?ds = Ok (xs, eth1)" "map dep_data xs = ?ds"
    and valid: "\<And>i. i < length ?ds \<Longrightarrow> is_valid_merkle_branch C (root_deposit_data (hashing C) (?ds ! i)) (proof_branch (xs ! i))
      (DEPOSIT_CONTRACT_TREE_DEPTH + 1) (of_nat i) (deposit_root eth1)"
    by (rule with_proofs_Ok [OF assms(1) len(2)]) (rule that)
  have lx: "length xs = length sks" using xs(2) len(1) by (metis length_map)
  have data: "dep_data (xs ! i) = ?ds ! i" if "i < length xs" for i using that xs(2) by (metis nth_map)
  have "verify BLS (dd_pubkey (dep_data d)) (root_signing_deposit_data (hashing C) (signing_deposit_data (dep_data d)))
      (dd_signature (dep_data d)) (genesis_domain domain_deposit)" if "d \<in> set xs" for d
  proof -
    from that obtain i where i: "i < length sks" "d = xs ! i" unfolding in_set_conv_nth lx by blast
    then have d: "dep_data d = own_deposit C K credentials i (sks ! i)" using data [of i] nth [of i] lx by simp
    show ?thesis
      using assms(5) [OF nth_mem [OF i(1)]] unfolding d own_deposit_def Let_def by (simp add: signing_deposit_data_def)
  qed
  moreover have "distinct (map (dd_pubkey \<circ> dep_data) xs)"
    using assms(4) unfolding keys [symmetric] xs(2) [symmetric] by simp
  ultimately have "for_each xs (process_deposit C BLS) (genesis_initial C 0 eth1) = (Ok (), deposited C eth1 ?ds)"
    using deposited_run [of xs C eth1 BLS "length xs"] valid unfolding len(1) by (simp add: data lx xs(2))
  then have "own_genesis C BLS K credentials sks = Ok ((deposited C eth1 ?ds)\<lparr>validators :=
      map (genesis_activate C) (validators (deposited C eth1 ?ds))\<rparr>)"
    by (simp add: own_genesis_def xs(1) genesis_beacon_state_def run_local_Ok)
  moreover have "dd_amount d = 32000000000" if "d \<in> set ?ds" for d
    using that arg_cong [OF amounts, of set] by (auto split: if_splits)
  ultimately show ?thesis
    using assms(6) keys amounts by (simp add: activated_deposit comp_def)
qed

text \<open>A hash function with lawful branches, and keys that are signed with themselves.\<close>

definition branch_hashing :: Hashing where
  "branch_hashing = toy_hashing\<lparr>compact_value_root := (\<lambda>leaf prf ix d.
     Some (branch_root (MinimalConfig toy_hashing) leaf prf (unat ix)))\<rparr>"

definition sample_secrets :: "u8 Secrets" where
  "sample_secrets = \<lparr>public_key = replicate 48, sign = (\<lambda>_ _ sk. replicate 96 sk)\<rparr>"

lemma branch_law_sample: "branch_law (MinimalConfig branch_hashing)"
proof -
  have "hash (MinimalConfig branch_hashing) = hash (MinimalConfig toy_hashing)"
    by (rule ext) (simp add: hash_def MinimalConfig_def branch_hashing_def)
  then have "branch_root (MinimalConfig branch_hashing) v ss ix = branch_root (MinimalConfig toy_hashing) v ss ix" for v ss ix
    by (induction ss arbitrary: v ix) simp_all
  then show ?thesis by (simp add: branch_law_def MinimalConfig_def branch_hashing_def)
qed

end
