(* ===== verification/Builder.thy ===== *)
theory Builder
  imports Node Deposit_Tree
begin

text \<open>
  The thread that authors blocks, \<^verbatim>\<open>builder_thread\<close> in \<^verbatim>\<open>blockchain/src/main.rs\<close>. One pass of its loop reads the head
  from the store, attests with the keys it holds, and, if it holds the key of the proposer, builds a block on the
  head and gives it to the importer. An \<^verbatim>\<open>unwrap\<close> that fails is a panic. The lemmas show that a block which is built
  is executed by the importer on the head it was built on.
\<close>

section \<open>Attestations of the own keys\<close>

text \<open>\<^verbatim>\<open>unwrap\<close> of a method that also changes a state: the rest goes on with the value and the new state.\<close>

definition unwrap_run :: "('e, 'a) res \<times> 's \<Rightarrow> ('a \<Rightarrow> 's \<Rightarrow> ('f, 'b) res) \<Rightarrow> ('f, 'b) res" where
  "unwrap_run p f = rbind (unwrap (fst p)) (\<lambda>x. f x (snd p))"

definition target_root :: "Config \<Rightarrow> BeaconState \<Rightarrow> H256 \<Rightarrow> Slot \<Rightarrow> H256 result" where
  "target_root C s tip current_slot =
     (let target_epoch = current_epoch C s in
      if start_slot_of_epoch C target_epoch = current_slot then Ok tip else unwrap (block_root C s target_epoch))"

definition build_attestation ::
  "Config \<Rightarrow> 'sk Secrets \<Rightarrow> BeaconState \<Rightarrow> H256 \<Rightarrow> BeaconBlock \<Rightarrow> Slot \<Rightarrow> ValidatorIndex \<Rightarrow> CommitteeAssignment \<Rightarrow> 'sk \<Rightarrow>
   Attestation result" where
  "build_attestation C K s tip head_block current_slot vi ca sk =
     rbind (target_root C s tip current_slot) (\<lambda>rt.
     let data = \<lparr>
           ad_slot = ca_slot ca,
           ad_index = ca_index ca,
           beacon_block_root = beacon_block_id C head_block,
           source = \<lparr>epoch = epoch (current_justified_checkpoint s), root = root (current_justified_checkpoint s)\<rparr>,
           target = \<lparr>epoch = current_epoch C s, root = rt\<rparr>\<rparr>;
         sg = sign K (root_attestation_data (hashing C) \<lparr>adc_data = data, custody_bit = False\<rparr>)
           (domain C s domain_beacon_attester None) sk;
         n = length (ca_validators ca)
     in case position vi (ca_validators ca) of
          None \<Rightarrow> Panic
        | Some i \<Rightarrow> Ok \<lparr>aggregation_bits = (replicate n False)[i := True], at_data = data,
            custody_bits = replicate n False, at_signature = sg\<rparr>)"

definition attest_key ::
  "Config \<Rightarrow> BLSConfig \<Rightarrow> 'sk Secrets \<Rightarrow> BeaconState \<Rightarrow> H256 \<Rightarrow> BeaconBlock \<Rightarrow> Slot \<Rightarrow> ValidatorId \<times> 'sk \<Rightarrow> AttestationPool \<Rightarrow>
   AttestationPool result" where
  "attest_key C BLS K s tip head_block current_slot key pool =
     (case validator_index s (fst key) of
        None \<Rightarrow> Ok pool
      | Some vi \<Rightarrow>
          rbind (unwrap (committee_assignment C s (current_epoch C s) vi)) (\<lambda>assignment.
          case assignment of
            None \<Rightarrow> Ok pool
          | Some ca \<Rightarrow>
              if ca_slot ca = current_slot
              then rbind (build_attestation C K s tip head_block current_slot vi ca (snd key)) (\<lambda>a. pool_push C BLS a pool)
              else Ok pool))"

section \<open>Blocks\<close>

text \<open>The attestations of the pool that apply are included, those that fail are skipped; the hashes of the former are kept.\<close>

fun include_attestations ::
  "Config \<Rightarrow> BLSConfig \<Rightarrow> (H256 \<times> Attestation) list \<Rightarrow> UnsealedBeaconBlock \<times> BeaconState \<Rightarrow>
   (H256 list \<times> UnsealedBeaconBlock \<times> BeaconState) result" where
  "include_attestations C BLS [] bs = Ok ([], bs)"
| "include_attestations C BLS ((h, a) # xs) bs =
     (case executor_apply_extrinsic C BLS (TxAttestation a) bs of
        (Ok _, bs') \<Rightarrow> rbind (include_attestations C BLS xs bs') (\<lambda>(hs, r). Ok (h # hs, r))
      | (Err _, bs') \<Rightarrow> include_attestations C BLS xs bs'
      | (Panic, _) \<Rightarrow> Panic
      | (Diverge, _) \<Rightarrow> Diverge)"

definition author_own ::
  "Config \<Rightarrow> BLSConfig \<Rightarrow> 'sk Secrets \<Rightarrow> Eth1Data \<Rightarrow> BeaconBlock \<Rightarrow> BeaconState \<Rightarrow> 'sk \<Rightarrow> AttestationPool \<Rightarrow>
   (BeaconBlock \<times> AttestationPool) result" where
  "author_own C BLS K eth1 head_block s sk pool =
     (let reveal = sign K (root_u64 (hashing C) (current_epoch C s)) (domain C s domain_randao None) sk;
          proposer_domain = domain C s domain_beacon_proposer None
      in unwrap_run (executor_apply_inherent C BLS head_block \<lparr>inh_randao_reveal = reveal, inh_eth1_data = eth1\<rparr> s) (\<lambda>b0 s2.
         rbind (include_attestations C BLS (pool_iter pool) (b0, s2)) (\<lambda>(hs, bs).
         unwrap_run (executor_finalize_block C BLS bs) (\<lambda>_ (b2, _).
         let block = fake_seal b2;
             sg = sign K (root_unsealed_block (hashing C) (unsealed_from (Sealed block))) proposer_domain sk
         in Ok (block\<lparr>bb_signature := sg\<rparr>, foldl (\<lambda>p h. pool_pop h p) pool hs)))))"

text \<open>A block on the head, or none without the key of the proposer, and the new pool; first from the state of the new slot on.\<close>

definition build_at ::
  "Config \<Rightarrow> BLSConfig \<Rightarrow> 'sk Secrets \<Rightarrow> (ValidatorId \<times> 'sk) list \<Rightarrow> Eth1Data \<Rightarrow> H256 \<Rightarrow> BeaconBlock \<Rightarrow> AttestationPool \<Rightarrow>
   BeaconState \<Rightarrow> (BeaconBlock option \<times> AttestationPool) result" where
  "build_at C BLS K keys eth1 tip head_block pool s =
     rbind (fold_res (attest_key C BLS K s tip head_block (bb_slot head_block + 1)) keys pool) (\<lambda>pool1.
     rbind (unwrap (beacon_proposer_index C s)) (\<lambda>i.
     case validator_pubkey s i of
       None \<Rightarrow> Panic
     | Some pk \<Rightarrow>
         (case map_of keys pk of
            None \<Rightarrow> Ok (None, pool1)
          | Some sk \<Rightarrow> rbind (author_own C BLS K eth1 head_block s sk pool1) (\<lambda>(b, pool2). Ok (Some b, pool2)))))"

definition build_block ::
  "Config \<Rightarrow> BLSConfig \<Rightarrow> 'sk Secrets \<Rightarrow> (ValidatorId \<times> 'sk) list \<Rightarrow> Eth1Data \<Rightarrow> H256 \<Rightarrow> BeaconBlock \<Rightarrow> BeaconState \<Rightarrow>
   AttestationPool \<Rightarrow> (BeaconBlock option \<times> AttestationPool) result" where
  "build_block C BLS K keys eth1 tip head_block head_state pool =
     unwrap_run (executor_initialize_block C (bb_slot head_block + 1) head_state)
       (\<lambda>_. build_at C BLS K keys eth1 tip head_block pool)"

text \<open>One pass of the loop. The state is the importer with its store, and the pool.\<close>

definition builder_step ::
  "('st \<Rightarrow> (H256, BeaconBlock, BeaconState, 'k, 'a, 'e) ChainQuery) \<Rightarrow>
   ('st \<Rightarrow> (BeaconBlock, BeaconState, H256) import_operation \<Rightarrow> ('e, 'st) res) \<Rightarrow>
   Config \<Rightarrow> BLSConfig \<Rightarrow> 'sk Secrets \<Rightarrow> (ValidatorId \<times> 'sk) list \<Rightarrow> Eth1Data \<Rightarrow>
   ('st, u64, H256) ArchiveGhost \<times> AttestationPool \<Rightarrow> (('st, u64, H256) ArchiveGhost \<times> AttestationPool) result" where
  "builder_step query commit C BLS K keys eth1 gp =
     (let g = fst gp; Q = query (backend g); tip = query_head Q in
      rbind (unwrap (block_at Q tip)) (\<lambda>head_block.
      rbind (unwrap (state_at Q tip)) (\<lambda>head_state.
      rbind (build_block C BLS K keys eth1 tip head_block head_state (snd gp)) (\<lambda>(built, pool).
      case built of
        None \<Rightarrow> Ok (g, pool)
      | Some b \<Rightarrow> unwrap_run (import_block query beacon_parent_id commit (executor C BLS) b g) (\<lambda>_ g'. Ok (g', pool))))))"

section \<open>What is built is accepted\<close>

lemma unwrap_run_eq_Ok: "unwrap_run p f = Ok y \<longleftrightarrow> (\<exists>x s. p = (Ok x, s) \<and> f x s = Ok y)"
  by (cases p) (auto simp: unwrap_run_def rbind_eq_Ok unwrap_eq_Ok)

lemma extrinsic_attestation:
  assumes "executor_apply_extrinsic C BLS (TxAttestation a) bs = (r, bs')"
  shows "r = Ok () \<Longrightarrow> apply_transaction C BLS (TxAttestation a) bs = (Ok (), bs')"
    and "r = Err e \<Longrightarrow> bs' = bs"
proof -
  obtain q where q: "apply_transaction C BLS (TxAttestation a) bs = (q, bs')" "r = map_err BeaconError q"
    using assms by (auto simp: executor_apply_extrinsic_def split: prod.splits)
  show "r = Ok () \<Longrightarrow> apply_transaction C BLS (TxAttestation a) bs = (Ok (), bs')" using q by (cases q) simp_all
  show "bs' = bs" if "r = Err e"
  proof -
    obtain e' where "apply_transaction C BLS (TxAttestation a) bs = (Err e', bs')" using q \<open>r = Err e\<close> by (cases q) simp_all
    then show ?thesis
      by (cases bs) (auto simp: eseq_eq_Err body_room_def ensure_eq_Err ensure_eq_Ok on_state_def with_body_def emod_def
          split: prod.splits dest: atomicD [OF process_attestation_atomic])
  qed
qed

text \<open>The attestations that are included are applied one after the other.\<close>

lemma include_attestations_run:
  assumes "include_attestations C BLS xs bs = Ok (hs, bs')"
  shows "\<exists>as. for_each (map TxAttestation as) (apply_transaction C BLS) bs = (Ok (), bs')"
  using assms
proof (induction C BLS xs bs arbitrary: hs rule: include_attestations.induct)
  case (1 C BLS bs)
  then show ?case by (intro exI [of _ "[]"]) (simp add: exec_simps)
next
  case (2 C BLS h a xs bs)
  obtain r b t where rc: "executor_apply_extrinsic C BLS (TxAttestation a) bs = (r, (b, t))"
    by (metis prod.collapse)
  note e = extrinsic_attestation [OF rc]
  show ?case
  proof (cases r)
    case (Ok x)
    then obtain as where "for_each (map TxAttestation as) (apply_transaction C BLS) (b, t) = (Ok (), bs')"
      using 2(1) [of "Ok x" "(b, t)"] 2(3) rc by (auto simp: rbind_eq_Ok)
    then show ?thesis using e(1) Ok by (intro exI [of _ "a # as"]) (simp add: eseq_run)
  next
    case (Err x)
    then show ?thesis using 2(2) [of "Err x" "(b, t)"] 2(3) rc e(2) by auto
  qed (use 2(3) rc in simp_all)
qed

lemma attestations_deposits:
  assumes "for_each as (process_attestation C BLS) s = (Ok (), t)"
  shows "eth1_data t = eth1_data s \<and> eth1_deposit_index t = eth1_deposit_index s"
proof -
  have "preserves (\<lambda>t. eth1_data t = eth1_data s \<and> eth1_deposit_index t = eth1_deposit_index s) (process_attestation C BLS a)" for a
    unfolding process_attestation_def Let_def by (intro preserves_intros preserves_emod) simp
  from preservesD [OF preserves_for_each [OF this] _ assms] show ?thesis by simp
qed

lemma fake_seal_unsealed: "unsealed_from (Sealed (fake_seal b)) = b"
  by (simp add: fake_seal_def unsealed_from_def)

lemma author_own_accepted:
  assumes C: "config_ok C" "current_epoch C s1 < 2 ^ 62" "registry_ok s1"
    and init: "initialize_block C n s0 = (Ok (), s1)"
    and own: "author_own C BLS K eth1 tip s1 sk pool = Ok (b, pool')"
    and sg: "\<And>i v m d. beacon_proposer_index C s1 = Ok i \<Longrightarrow> vec_index (validators s1) i = (Ok v :: Validator result) \<Longrightarrow>
      verify BLS (pubkey v) m (sign K m d sk) d"
  shows "\<exists>t. execute_block C BLS b s0 = (Ok (), t)" "bb_slot b = n"
proof -
  obtain inh b0 s2 hs b1 s3 b2 s4 where inh: "executor_apply_inherent C BLS tip inh s1 = (Ok b0, s2)"
    and incl: "include_attestations C BLS (pool_iter pool) (b0, s2) = Ok (hs, b1, s3)"
    and fin: "executor_finalize_block C BLS (b1, s3) = (Ok (), (b2, s4))"
    and b: "b = seal b2 (sign K (root_unsealed_block (hashing C) b2) (domain C s1 domain_beacon_proposer None) sk)"
    using own unfolding author_own_def Let_def unwrap_run_eq_Ok rbind_eq_Ok
    by (auto simp: unwrap_run_eq_Ok fake_seal_unsealed seal_def [symmetric])
  have inh': "apply_inherent C BLS tip inh s1 = (Ok b0, s2)" and fin': "finalize_block C BLS (b1, s3) = (Ok (), (b2, s4))"
    using inh fin by (auto simp: executor_apply_inherent_def executor_finalize_block_def map_err_eq_Ok split: prod.splits)
  obtain as where as: "for_each (map TxAttestation as) (apply_transaction C BLS) (b0, s2) = (Ok (), (b1, s3))"
    using include_attestations_run [OF incl] by blast
  let ?B = "BeaconBlockBody_default\<lparr>attestations := as\<rparr>"
  have txs: "for_each (body_transactions ?B) (apply_transaction C BLS) (b0, s2) = (Ok (), (b1, s3))"
    using as by (simp add: body_transactions_def BeaconBlockBody_default_def)
  have "ub_body b0 = BeaconBlockBody_default\<lparr>randao_reveal := inh_randao_reveal inh, body_eth1_data := inh_eth1_data inh\<rparr>"
    using inh' by (auto simp: apply_inherent_def Let_def exec_ok)
  then have "for_each as (process_attestation C BLS) s2 = (Ok (), s3) \<and> deposits (ub_body b1) = []"
    using body_transactions_run [OF txs] by (auto simp: BeaconBlockBody_default_def exec_simps)
  then have "len64 (deposits ?B) = min (max_deposits C) (deposit_count (eth1_data s2) - eth1_deposit_index s2)"
    using attestations_deposits [of as C BLS s2 s3] fin'
    by (auto simp: finalize_block_def exec_ok BeaconBlockBody_default_def len64_def unat_0_iff [symmetric] simp del: unat_0_iff)
  from author_accepted [OF C init inh' txs fin' this] show "\<exists>t. execute_block C BLS b s0 = (Ok (), t)"
    using sg unfolding b by blast
  have "slot s1 = n" using init process_slots_slot by (simp add: initialize_block_def)
  moreover have "ub_slot b2 = ub_slot b1" using fin' by (auto simp: finalize_block_def exec_ok on_state_Ok)
  ultimately show "bb_slot b = n" using author_run(2) [OF inh' txs] by (simp add: b)
qed

lemma import_block_executed:
  assumes "beacon_parent_id b = Some p" "state_at (query (backend g)) p = Ok s" "execute_block C BLS b s = (Ok (), t)"
  shows "import_block query beacon_parent_id commit (executor C BLS) b g =
    import_raw query beacon_parent_id commit (executor C BLS) b t g"
proof -
  have "execute (executor C BLS) b s = Ok t" using assms(3) by (simp add: executor_def executor_execute_def map_err_eq_Ok run_local_Ok)
  then show ?thesis using assms(1,2) by (simp add: import_block_def ebind_eget)
qed

section \<open>Properties\<close>

text \<open>
  C6: A block that the builder builds on the head is executed by the importer: on the state of a head that was itself
  executed, and with keys whose signatures verify, every block that \<^verbatim>\<open>build_block\<close> returns has the head as its parent
  and the next slot, executes on the state the store has for its parent, and so is imported with
  that state. The thread thus panics at \<^verbatim>\<open>import_block\<close> only for what the store or the fork choice report.
\<close>

theorem builder_block_imported:
  assumes C: "config_ok C" "registry_ok s1" "current_epoch C s1 < 2 ^ 62"
    and tip: "state_at (query (backend g)) (beacon_block_id C tip) = Ok s0" "beacon_block_id C tip \<noteq> H256_default"
      "execute_block C BLS tip s = (Ok (), s0)" "bb_state_root tip \<noteq> H256_default"
    and init: "initialize_block C (bb_slot tip + 1) s0 = (Ok (), s1)"
    and keys: "\<And>pk sk m d. map_of keys pk = Some sk \<Longrightarrow> verify BLS pk m (sign K m d sk) d"
    and built: "build_block C BLS K keys eth1 (beacon_block_id C tip) tip s0 pool = Ok (Some b, pool')"
  shows "\<exists>t. execute_block C BLS b s0 = (Ok (), t) \<and> bb_slot b = bb_slot tip + 1 \<and> beacon_parent_id b = Some (beacon_block_id C tip) \<and>
    import_block query beacon_parent_id commit (executor C BLS) b g =
      import_raw query beacon_parent_id commit (executor C BLS) b t g"
proof -
  have run: "executor_initialize_block C (bb_slot tip + 1) s0 = (Ok (), s1)"
    using init by (simp add: executor_initialize_block_def)
  obtain i pool1 where i: "beacon_proposer_index C s1 = Ok i"
    and rest: "(case validator_pubkey s1 i of None \<Rightarrow> Panic
      | Some pk \<Rightarrow> (case map_of keys pk of None \<Rightarrow> Ok (None, pool1)
         | Some sk \<Rightarrow> rbind (author_own C BLS K eth1 tip s1 sk pool1) (\<lambda>(b, pool2). Ok (Some b, pool2)))) = Ok (Some b, pool')"
    using built unfolding build_block_def build_at_def unwrap_run_eq_Ok run by (auto simp: rbind_eq_Ok unwrap_eq_Ok)
  then obtain pk sk where pk: "validator_pubkey s1 i = Some pk" "map_of keys pk = Some sk"
    and own: "author_own C BLS K eth1 tip s1 sk pool1 = Ok (b, pool')"
    by (auto simp: rbind_eq_Ok split: option.splits)
  have v: "verify BLS (pubkey v) m (sign K m d sk) d"
    if "beacon_proposer_index C s1 = Ok j" "vec_index (validators s1) j = (Ok v :: Validator result)" for j v m d
    using that i pk keys [OF pk(2), of m d] by (auto simp: validator_pubkey_def vec_index_def split: if_splits)
  have acc: "\<exists>t. execute_block C BLS b s0 = (Ok (), t)" "bb_slot b = bb_slot tip + 1"
    by (rule author_own_accepted [OF C(1,3,2) init own], rule v, assumption+)+
  obtain t where t: "execute_block C BLS b s0 = (Ok (), t)" using acc(1) by blast
  have "bb_parent_root b = beacon_block_id C tip"
    by (rule executed_parent [OF tip(3) t]) (simp_all add: acc(2) tip(4))
  then have p: "beacon_parent_id b = Some (beacon_block_id C tip)" using tip(2) by (simp add: beacon_parent_id_def)
  show ?thesis using t acc(2) p import_block_executed [where query = query and g = g, OF p tip(1) t] by blast
qed

text \<open>The sample block of slot 9 and the next one, built by its only validator.\<close>

definition sample_keys :: "(ValidatorId \<times> u8) list" where
  "sample_keys = [(replicate 48 1, 1)]"

definition built_at :: "BeaconState \<Rightarrow> (BeaconBlock option \<times> AttestationPool) result" where
  "built_at = build_at small_config BLSNoVerification sample_secrets sample_keys Eth1Data_default
     (beacon_block_id small_config (sample_block 0 9)) (sample_block 0 9) new_pool"

lemma built_at_Ok:
  "length (validators (next_slot small_config small_head)) = 1 \<and> current_epoch small_config (next_slot small_config small_head) = 1 \<and>
   (\<exists>b pool. built_at (next_slot small_config small_head) = Ok (Some b, pool))"
proof -
  have "(case next_slot small_config (snd (next_block (sample_block 0 9) small_state)) of s \<Rightarrow>
      length (validators s) = 1 \<and> current_epoch small_config s = 1 \<and> (case built_at s of Ok (Some b, pool) \<Rightarrow> True | _ \<Rightarrow> False))"
    by code_simp
  then show ?thesis unfolding small_head_def by (auto split: res.splits option.splits prod.splits)
qed

theorem builder_block_imported_witness:
  "\<exists>b pool t. build_block small_config BLSNoVerification sample_secrets sample_keys Eth1Data_default
       (beacon_block_id small_config (sample_block 0 9)) (sample_block 0 9) small_head new_pool = Ok (Some b, pool) \<and>
     execute_block small_config BLSNoVerification b small_head = (Ok (), t) \<and> bb_slot b = 10"
proof -
  let ?s1 = "next_slot small_config small_head" and ?tip = "sample_block 0 9"
  let ?Q = "\<lparr>query_genesis = H256_default, query_head = beacon_block_id small_config ?tip, contains = (\<lambda>_. Ok True),
    is_canon = (\<lambda>_. Ok True), lookup_canon_depth = (\<lambda>_. Ok None), auxiliary = (\<lambda>_. Ok None), depth_at = (\<lambda>_. Ok 0),
    children_at = (\<lambda>_. Ok []), state_at = (\<lambda>_. Ok small_head), block_at = (\<lambda>_. Ok ?tip)\<rparr>
    :: (H256, BeaconBlock, BeaconState, unit, unit, unit) ChainQuery"
  obtain b pool where at: "built_at ?s1 = Ok (Some b, pool)" using built_at_Ok by blast
  have slt: "slot small_head = 9" using execute_block_header(2) [OF small_head_Ok] by (simp add: sample_block_def)
  have "slots_per_epoch small_config = 8" by (simp add: small_config_def MinimalConfig_def)
  then have init: "initialize_block small_config (bb_slot ?tip + 1) small_head = (Ok (), ?s1)"
    unfolding initialize_block_def by (intro process_slots_next) (simp_all add: slt sample_block_def)
  then have built: "build_block small_config BLSNoVerification sample_secrets sample_keys Eth1Data_default
      (beacon_block_id small_config ?tip) ?tip small_head new_pool = Ok (Some b, pool)"
    using at by (simp add: build_block_def unwrap_run_def executor_initialize_block_def built_at_def)
  have ids: "beacon_block_id small_config ?tip \<noteq> H256_default" "bb_state_root ?tip \<noteq> H256_default" by code_simp+
  have "\<exists>t. execute_block small_config BLSNoVerification b small_head = (Ok (), t) \<and> bb_slot b = bb_slot ?tip + 1 \<and>
      beacon_parent_id b = Some (beacon_block_id small_config ?tip) \<and>
      import_block (\<lambda>_. ?Q) beacon_parent_id (\<lambda>_ _. Ok ()) (executor small_config BLSNoVerification) b (new_ghost ()) =
        import_raw (\<lambda>_. ?Q) beacon_parent_id (\<lambda>_ _. Ok ()) (executor small_config BLSNoVerification) b t (new_ghost ())"
    by (rule builder_block_imported [OF _ _ _ _ ids(1) small_head_Ok ids(2) init _ built])
      (use built_at_Ok in \<open>simp_all add: config_ok_def small_config_def MinimalConfig_def registry_ok_def BLSNoVerification_def\<close>)
  then show ?thesis using built by (auto simp: sample_block_def)
qed

end
