(* ===== verification/BLS_Verification.thy ===== *)
theory BLS_Verification
  imports Deposit_Tree
begin

text \<open>
  Signature checks of the node, \<^verbatim>\<open>BLSVerification\<close> in \<^verbatim>\<open>crypto/src/lib.rs\<close>. The cryptography is a library, the parameter
  \<open>BlsCrate\<close>; the code here decodes keys and signatures and gives up on the first one that is malformed.
  The lemmas show that malformed input is never accepted, and that a chain started on own keys is
  accepted by these checks.
\<close>

section \<open>The library\<close>

text \<open>Keys and signatures, single and aggregated, with their encodings.\<close>

record ('sk, 'pk, 'sg, 'apk, 'asg) BlsCrate =
  public_from_secret_key :: "'sk \<Rightarrow> 'pk"
  public_from_bytes :: "bytes \<Rightarrow> 'pk option"
  public_as_bytes :: "'pk \<Rightarrow> bytes"
  signature_new :: "bytes \<Rightarrow> u64 \<Rightarrow> 'sk \<Rightarrow> 'sg"
  signature_from_bytes :: "bytes \<Rightarrow> 'sg option"
  signature_as_bytes :: "'sg \<Rightarrow> bytes"
  aggregate_public_new :: 'apk
  aggregate_public_from_bytes :: "bytes \<Rightarrow> 'apk option"
  aggregate_public_add :: "'pk \<Rightarrow> 'apk \<Rightarrow> 'apk"
  aggregate_public_as_bytes :: "'apk \<Rightarrow> bytes"
  aggregate_signature_new :: 'asg
  aggregate_signature_from_bytes :: "bytes \<Rightarrow> 'asg option"
  aggregate_signature_add :: "'sg \<Rightarrow> 'asg \<Rightarrow> 'asg"
  aggregate_signature_as_bytes :: "'asg \<Rightarrow> bytes"
  bls_verify :: "'asg \<Rightarrow> bytes \<Rightarrow> u64 \<Rightarrow> 'apk \<Rightarrow> bool"
  bls_verify_multiple :: "'asg \<Rightarrow> bytes list \<Rightarrow> u64 \<Rightarrow> 'apk list \<Rightarrow> bool"

section \<open>Checks\<close>

definition bls_verification_verify ::
  "('sk, 'pk, 'sg, 'apk, 'asg) BlsCrate \<Rightarrow> ValidatorId \<Rightarrow> H256 \<Rightarrow> Signature \<Rightarrow> u64 \<Rightarrow> bool" where
  "bls_verification_verify B key message signature dm =
     (case aggregate_public_from_bytes B key of
        None \<Rightarrow> False
      | Some pk \<Rightarrow>
          (case aggregate_signature_from_bytes B signature of
             None \<Rightarrow> False
           | Some sg \<Rightarrow> bls_verify B sg message dm pk))"

fun add_pubkeys :: "('sk, 'pk, 'sg, 'apk, 'asg) BlsCrate \<Rightarrow> ValidatorId list \<Rightarrow> 'apk \<Rightarrow> 'apk option" where
  "add_pubkeys B [] aggregated = Some aggregated"
| "add_pubkeys B (key # keys) aggregated =
     (case public_from_bytes B key of
        None \<Rightarrow> None
      | Some pk \<Rightarrow> add_pubkeys B keys (aggregate_public_add B pk aggregated))"

definition bls_verification_aggregate_pubkeys :: "('sk, 'pk, 'sg, 'apk, 'asg) BlsCrate \<Rightarrow> ValidatorId list \<Rightarrow> ValidatorId" where
  "bls_verification_aggregate_pubkeys B keys =
     (case add_pubkeys B keys (aggregate_public_new B) of
        None \<Rightarrow> ValidatorId_default
      | Some aggregated \<Rightarrow> aggregate_public_as_bytes B aggregated)"

fun add_signatures :: "('sk, 'pk, 'sg, 'apk, 'asg) BlsCrate \<Rightarrow> Signature list \<Rightarrow> 'asg \<Rightarrow> 'asg option" where
  "add_signatures B [] aggregated = Some aggregated"
| "add_signatures B (signature # signatures) aggregated =
     (case signature_from_bytes B signature of
        None \<Rightarrow> None
      | Some sg \<Rightarrow> add_signatures B signatures (aggregate_signature_add B sg aggregated))"

definition bls_verification_aggregate_signatures :: "('sk, 'pk, 'sg, 'apk, 'asg) BlsCrate \<Rightarrow> Signature list \<Rightarrow> Signature" where
  "bls_verification_aggregate_signatures B signatures =
     (case add_signatures B signatures (aggregate_signature_new B) of
        None \<Rightarrow> Signature_default
      | Some aggregated \<Rightarrow> aggregate_signature_as_bytes B aggregated)"

fun decode_pubkeys :: "('sk, 'pk, 'sg, 'apk, 'asg) BlsCrate \<Rightarrow> ValidatorId list \<Rightarrow> 'apk list option" where
  "decode_pubkeys B [] = Some []"
| "decode_pubkeys B (key # keys) =
     (case aggregate_public_from_bytes B key of
        None \<Rightarrow> None
      | Some pk \<Rightarrow> map_option ((#) pk) (decode_pubkeys B keys))"

definition bls_verification_verify_multiple ::
  "('sk, 'pk, 'sg, 'apk, 'asg) BlsCrate \<Rightarrow> ValidatorId list \<Rightarrow> H256 list \<Rightarrow> Signature \<Rightarrow> u64 \<Rightarrow> bool" where
  "bls_verification_verify_multiple B keys messages signature dm =
     (case aggregate_signature_from_bytes B signature of
        None \<Rightarrow> False
      | Some sg \<Rightarrow>
          (case decode_pubkeys B keys of
             None \<Rightarrow> False
           | Some pks \<Rightarrow> bls_verify_multiple B sg messages dm pks))"

definition BLSVerification :: "('sk, 'pk, 'sg, 'apk, 'asg) BlsCrate \<Rightarrow> BLSConfig" where
  "BLSVerification B = \<lparr>
     verify = bls_verification_verify B,
     aggregate_pubkeys = bls_verification_aggregate_pubkeys B,
     aggregate_signatures = bls_verification_aggregate_signatures B,
     verify_multiple = bls_verification_verify_multiple B\<rparr>"

text \<open>The keys and signatures that \<^verbatim>\<open>main.rs\<close> makes with the same library.\<close>

definition bls_secrets :: "('sk, 'pk, 'sg, 'apk, 'asg) BlsCrate \<Rightarrow> 'sk Secrets" where
  "bls_secrets B = \<lparr>
     public_key = (\<lambda>sk. public_as_bytes B (public_from_secret_key B sk)),
     sign = (\<lambda>m dm sk. signature_as_bytes B (signature_new B m dm sk))\<rparr>"

section \<open>Malformed keys and signatures\<close>

lemma verify_malformed:
  "aggregate_public_from_bytes B pk = None \<Longrightarrow> \<not> verify (BLSVerification B) pk m sg dm"
  "aggregate_signature_from_bytes B sg = None \<Longrightarrow> \<not> verify (BLSVerification B) pk m sg dm"
  by (simp_all add: BLSVerification_def bls_verification_verify_def split: option.split)

lemma add_pubkeys_malformed:
  "\<exists>pk\<in>set pks. public_from_bytes B pk = None \<Longrightarrow> add_pubkeys B pks a = None"
  by (induction pks arbitrary: a) (auto split: option.split)

lemma decode_pubkeys_malformed:
  "\<exists>pk\<in>set pks. aggregate_public_from_bytes B pk = None \<Longrightarrow> decode_pubkeys B pks = None"
  by (induction pks) (auto split: option.split)

lemma verify_multiple_malformed:
  "\<exists>pk\<in>set pks. aggregate_public_from_bytes B pk = None \<Longrightarrow> \<not> verify_multiple (BLSVerification B) pks ms sg dm"
  by (simp add: BLSVerification_def bls_verification_verify_multiple_def decode_pubkeys_malformed split: option.split)

lemma aggregate_pubkeys_malformed:
  "\<exists>pk\<in>set pks. public_from_bytes B pk = None \<Longrightarrow> aggregate_pubkeys (BLSVerification B) pks = ValidatorId_default"
  by (simp add: BLSVerification_def bls_verification_aggregate_pubkeys_def add_pubkeys_malformed)

section \<open>A chain on own keys\<close>

text \<open>What is relied on: the encodings of a key and of its signatures are read back as values that verify.\<close>

definition bls_law :: "('sk, 'pk, 'sg, 'apk, 'asg) BlsCrate \<Rightarrow> bool" where
  "bls_law B \<longleftrightarrow> (\<forall>sk m dm. \<exists>pk sg.
     aggregate_public_from_bytes B (public_as_bytes B (public_from_secret_key B sk)) = Some pk \<and>
     aggregate_signature_from_bytes B (signature_as_bytes B (signature_new B m dm sk)) = Some sg \<and>
     bls_verify B sg m dm pk)"

lemma own_signature_verified:
  assumes "bls_law B"
  shows "verify (BLSVerification B) (public_key (bls_secrets B) sk) m (sign (bls_secrets B) m dm sk) dm"
proof -
  obtain pk sg where "aggregate_public_from_bytes B (public_as_bytes B (public_from_secret_key B sk)) = Some pk"
    "aggregate_signature_from_bytes B (signature_as_bytes B (signature_new B m dm sk)) = Some sg" "bls_verify B sg m dm pk"
    using assms unfolding bls_law_def by blast
  then show ?thesis by (simp add: BLSVerification_def bls_verification_verify_def bls_secrets_def)
qed

section \<open>Properties\<close>

text \<open>
  C12: A node that starts a new chain builds its genesis: if the branch values of the Merkle library are computed
  from the leaf upwards and the BLS library reads back and verifies what it signs, the deposits of up to \<open>2\<^sup>32\<close>
  different keys pass the checks of \<^verbatim>\<open>process_deposit\<close> with the proofs cut from the tree, and the genesis state has exactly
  these keys, each with its deposit, and active from the genesis epoch on if the deposit, rounded down, is enough.
\<close>

theorem own_genesis_starts:
  assumes "branch_law C" "bls_law B" "sks \<noteq> []" "length sks \<le> 2 ^ 32" "distinct (map (public_key (bls_secrets B)) sks)"
    and "max_effective_balance C \<le> rounded_balance C 32000000000"
  shows "\<exists>g. own_genesis C (BLSVerification B) (bls_secrets B) credentials sks = Ok g \<and>
    map pubkey (validators g) = map (public_key (bls_secrets B)) sks \<and>
    balances g = replicate (length sks) 32000000000 \<and> (\<forall>v\<in>set (validators g). activation_epoch v = genesis_epoch C)"
  by (rule own_genesis_built [OF assms(1,3-5) own_signature_verified [OF assms(2)] assms(6)])

text \<open>A library whose signatures are the key with the message.\<close>

definition toy_bls :: "(u8, bytes, bytes, bytes, bytes) BlsCrate" where
  "toy_bls = \<lparr>
     public_from_secret_key = replicate 48,
     public_from_bytes = Some,
     public_as_bytes = id,
     signature_new = (\<lambda>m _ sk. sk # m),
     signature_from_bytes = Some,
     signature_as_bytes = id,
     aggregate_public_new = [],
     aggregate_public_from_bytes = (\<lambda>bs. if length bs = 48 then Some bs else None),
     aggregate_public_add = (\<lambda>p a. p @ a),
     aggregate_public_as_bytes = id,
     aggregate_signature_new = [],
     aggregate_signature_from_bytes = (\<lambda>bs. if bs = [] then None else Some bs),
     aggregate_signature_add = (\<lambda>s a. s @ a),
     aggregate_signature_as_bytes = id,
     bls_verify = (\<lambda>s m _ p. s = p ! 0 # m),
     bls_verify_multiple = (\<lambda>_ _ _ _. False)\<rparr>"

lemma toy_bls_law: "bls_law toy_bls"
  by (simp add: bls_law_def toy_bls_def)

theorem own_genesis_starts_witness:
  "\<exists>g. own_genesis (MinimalConfig branch_hashing) (BLSVerification toy_bls) (bls_secrets toy_bls) to_bytes [1, 2, 3] = Ok g \<and>
     map pubkey (validators g) = [replicate 48 1, replicate 48 2, replicate 48 3] \<and>
     balances g = replicate 3 32000000000 \<and> (\<forall>v\<in>set (validators g). activation_epoch v = 0)"
proof -
  have keys: "map (public_key (bls_secrets toy_bls)) [1, 2, 3] = [replicate 48 1, replicate 48 2, replicate 48 3]"
    by (simp add: bls_secrets_def toy_bls_def)
  have "(1 :: u8) \<noteq> 2" "(1 :: u8) \<noteq> 3" "(2 :: u8) \<noteq> 3" by simp_all
  then have "distinct (map (public_key (bls_secrets toy_bls)) [1, 2, 3])" unfolding keys by simp
  moreover have "max_effective_balance (MinimalConfig branch_hashing) \<le> rounded_balance (MinimalConfig branch_hashing) 32000000000"
    by code_simp
  ultimately have "\<exists>g. own_genesis (MinimalConfig branch_hashing) (BLSVerification toy_bls) (bls_secrets toy_bls) to_bytes [1, 2, 3] = Ok g \<and>
     map pubkey (validators g) = map (public_key (bls_secrets toy_bls)) [1, 2, 3] \<and>
     balances g = replicate (length [1 :: u8, 2, 3]) 32000000000 \<and>
     (\<forall>v\<in>set (validators g). activation_epoch v = genesis_epoch (MinimalConfig branch_hashing))"
    by (intro own_genesis_starts [OF branch_law_sample toy_bls_law]) simp_all
  moreover have "length [1 :: u8, 2, 3] = 3" by simp
  ultimately show ?thesis unfolding keys by (simp only: MinimalConfig_sel)
qed

end
