(* ===== verification/Casper_Pallet.thy ===== *)
theory Casper_Pallet
  imports Casper_Justifier
begin

text \<open>
  The Casper FFG pallet, \<^verbatim>\<open>substrate/casper/pallet/src/lib.rs\<close>, and the import of blocks that follows it,
  \<^verbatim>\<open>substrate/casper/consensus/src/lib.rs\<close>. Its storage items are the fields of a record;
  the validator identifiers, hashes and block numbers of the runtime are type variables. What the pallet
  takes from the runtime, block hashes, signatures, local keys and the transaction queue, is in the
  record \<open>Runtime\<close>. The lemmas relate the change of sessions to the justifier of the beacon chain.
\<close>

section \<open>Storage and parameters\<close>

record 'h CasperCheckpoint =
  cp_epoch :: u64
  cp_hash :: 'h

record ('v, 'h) CasperAttestation =
  validator_id :: 'v
  att_source :: "'h CasperCheckpoint"
  att_target :: "'h CasperCheckpoint"

datatype ('v, 'h) casper_event =
    OnJustified 'h
  | OnFinalized 'h
  | OnNewPreviousEpochAttestation "('v, 'h) CasperAttestation"
  | OnNewCurrentEpochAttestation "('v, 'h) CasperAttestation"

record ('v, 'h, 'n) Casper =
  casper_validators :: "('v \<times> u64) list"
  casper_current_epoch :: u64
  current_epoch_number :: 'n
  casper_previous_epoch :: u64
  previous_epoch_number :: 'n
  previous_justified_epoch :: u64
  previous_justified_epoch_number :: 'n
  current_justified_epoch :: u64
  current_justified_epoch_number :: 'n
  finalized_epoch :: u64
  finalized_epoch_number :: 'n
  casper_current_attestations :: "('v, 'h) CasperAttestation list"
  current_epoch_attestations_count :: u32
  casper_previous_attestations :: "('v, 'h) CasperAttestation list"
  previous_epoch_attestations_count :: u32
  casper_justification_bits :: "bool list"
  casper_events :: "('v, 'h) casper_event list"

text \<open>The initial storage, with the configured validators.\<close>

definition casper_genesis :: "('v \<times> u64) list \<Rightarrow> ('v, 'h, 'n::zero) Casper" where
  "casper_genesis vs = \<lparr>
     casper_validators = vs,
     casper_current_epoch = 0, current_epoch_number = 0,
     casper_previous_epoch = 0, previous_epoch_number = 0,
     previous_justified_epoch = 0, previous_justified_epoch_number = 0,
     current_justified_epoch = 0, current_justified_epoch_number = 0,
     finalized_epoch = 0, finalized_epoch_number = 0,
     casper_current_attestations = [], current_epoch_attestations_count = 0,
     casper_previous_attestations = [], previous_epoch_attestations_count = 0,
     casper_justification_bits = [False, False, False, False],
     casper_events = []\<rparr>"

text \<open>
  The runtime: \<^verbatim>\<open>system::Module::block_hash\<close>, verification and signing of encoded attestations, the local
  keys, and the construction and submission of an unsigned transaction.
\<close>

record ('v, 'h, 'n, 'sig, 'x) Runtime =
  block_hash_at :: "'n \<Rightarrow> 'h"
  verify_attestation :: "'v \<Rightarrow> ('v, 'h) CasperAttestation \<Rightarrow> 'sig \<Rightarrow> bool"
  sign_attestation :: "'v \<Rightarrow> ('v, 'h) CasperAttestation \<Rightarrow> 'sig option"
  local_keys :: "'v list"
  unchecked_extrinsic :: "('v, 'h) CasperAttestation \<Rightarrow> 'sig \<Rightarrow> 'x option"
  submit_transaction :: "'x \<Rightarrow> bool"

datatype casper_error =
    BadOrigin
  | SameAttestation
  | InvalidSignature1
  | InvalidSignature2
  | DifferentValidators
  | NotSlashable
  | ValidatorNotInSession
  | InvalidAttestationSignature
  | InvalidSourceOrTarget
  | AttestationSigningFailed
  | CreateUnsignedFailed
  | SubmitFailed

section \<open>Calls\<close>

text \<open>\<^verbatim>\<open>slash\<close> returns the validator that it hands to \<^verbatim>\<open>on_slashing\<close>; \<open>none\<close> tells that the origin is none.\<close>

definition casper_slashable :: "('v, 'h) CasperAttestation \<Rightarrow> ('v, 'h) CasperAttestation \<Rightarrow> bool" where
  "casper_slashable a b \<longleftrightarrow> cp_epoch (att_target a) = cp_epoch (att_target b) \<or>
     cp_epoch (att_source a) < cp_epoch (att_source b) \<and> cp_epoch (att_target b) < cp_epoch (att_target a)"

definition slash ::
  "('v, 'h, 'n, 'sig, 'x) Runtime \<Rightarrow> bool \<Rightarrow> ('v, 'h) CasperAttestation \<Rightarrow> 'sig \<Rightarrow> ('v, 'h) CasperAttestation \<Rightarrow> 'sig \<Rightarrow>
   (casper_error, 'v) res" where
  "slash R none a s b t =
     (if \<not> none then Err BadOrigin
      else if a = b then Err SameAttestation
      else if \<not> verify_attestation R (validator_id a) a s then Err InvalidSignature1
      else if \<not> verify_attestation R (validator_id b) b t then Err InvalidSignature2
      else if validator_id a \<noteq> validator_id b then Err DifferentValidators
      else if \<not> casper_slashable a b then Err NotSlashable
      else Ok (validator_id a))"

definition deposit_event :: "('v, 'h) casper_event \<Rightarrow> ('v, 'h, 'n) Casper \<Rightarrow> ('v, 'h, 'n) Casper" where
  "deposit_event e s = s\<lparr>casper_events := casper_events s @ [e]\<rparr>"

definition attests_to ::
  "('v, 'h) CasperAttestation \<Rightarrow> u64 \<Rightarrow> 'h \<Rightarrow> u64 \<Rightarrow> 'h \<Rightarrow> bool" where
  "attests_to a se sh te th \<longleftrightarrow> cp_epoch (att_source a) = se \<and> cp_hash (att_source a) = sh \<and>
     cp_epoch (att_target a) = te \<and> cp_hash (att_target a) = th"

definition push_previous :: "('v, 'h) CasperAttestation \<Rightarrow> ('v, 'h, 'n) Casper \<Rightarrow> ('v, 'h, 'n) Casper" where
  "push_previous a s =
     (let ats = casper_previous_attestations s @ [a] in
      deposit_event (OnNewPreviousEpochAttestation a)
        (s\<lparr>previous_epoch_attestations_count := of_nat (length ats), casper_previous_attestations := ats\<rparr>))"

definition push_current :: "('v, 'h) CasperAttestation \<Rightarrow> ('v, 'h, 'n) Casper \<Rightarrow> ('v, 'h, 'n) Casper" where
  "push_current a s =
     (let ats = casper_current_attestations s @ [a] in
      deposit_event (OnNewCurrentEpochAttestation a)
        (s\<lparr>current_epoch_attestations_count := of_nat (length ats), casper_current_attestations := ats\<rparr>))"

definition attest ::
  "('v, 'h, 'n, 'sig, 'x) Runtime \<Rightarrow> bool \<Rightarrow> ('v, 'h) CasperAttestation \<Rightarrow> 'sig \<Rightarrow>
   (('v, 'h, 'n) Casper, casper_error, unit) exec" where
  "attest R none a sg =
     eseq (ensure (\<lambda>_. none) BadOrigin) (
     eseq (ensure (\<lambda>s. list_ex (\<lambda>v. fst v = validator_id a) (casper_validators s)) ValidatorNotInSession) (
     eseq (ensure (\<lambda>_. verify_attestation R (validator_id a) a sg) InvalidAttestationSignature) (\<lambda>s.
       if attests_to a (previous_justified_epoch s) (block_hash_at R (previous_justified_epoch_number s))
            (casper_previous_epoch s) (block_hash_at R (previous_epoch_number s))
       then (Ok (), push_previous a s)
       else if attests_to a (current_justified_epoch s) (block_hash_at R (current_justified_epoch_number s))
            (casper_current_epoch s) (block_hash_at R (current_epoch_number s))
       then (Ok (), push_current a s)
       else (Err InvalidSourceOrTarget, s))))"

section \<open>The off-chain worker\<close>

text \<open>One attestation per validator of the session whose key is local; the state is the list of submitted ones.\<close>

definition own_attestation :: "('v, 'h, 'n, 'sig, 'x) Runtime \<Rightarrow> ('v, 'h, 'n) Casper \<Rightarrow> 'v \<Rightarrow> ('v, 'h) CasperAttestation" where
  "own_attestation R s key = \<lparr>
     validator_id = key,
     att_source = \<lparr>cp_epoch = current_justified_epoch s, cp_hash = block_hash_at R (current_justified_epoch_number s)\<rparr>,
     att_target = \<lparr>cp_epoch = casper_current_epoch s, cp_hash = block_hash_at R (current_epoch_number s)\<rparr>\<rparr>"

definition submit_own ::
  "('v, 'h, 'n, 'sig, 'x) Runtime \<Rightarrow> ('v, 'h, 'n) Casper \<Rightarrow> 'v \<Rightarrow> ('x list, casper_error, unit) exec" where
  "submit_own R s key =
     (let a = own_attestation R s key in
      case sign_attestation R key a of
        None \<Rightarrow> efail AttestationSigningFailed
      | Some sg \<Rightarrow>
          (case unchecked_extrinsic R a sg of
             None \<Rightarrow> efail CreateUnsignedFailed
           | Some x \<Rightarrow> if submit_transaction R x then emod (\<lambda>xs. xs @ [x]) else efail SubmitFailed))"

definition offchain ::
  "('v, 'h, 'n::{plus, one}, 'sig, 'x) Runtime \<Rightarrow> ('v, 'h, 'n) Casper \<Rightarrow> 'n \<Rightarrow> ('x list, casper_error, unit) exec" where
  "offchain R s n =
     (if n = current_epoch_number s + 1
      then for_each (filter (\<lambda>k. k \<in> set (local_keys R)) (map fst (casper_validators s))) (submit_own R s)
      else eret ())"

definition offchain_worker ::
  "('v, 'h, 'n::{plus, one}, 'sig, 'x) Runtime \<Rightarrow> bool \<Rightarrow> ('v, 'h, 'n) Casper \<Rightarrow> 'n \<Rightarrow> 'x list \<Rightarrow> 'x list" where
  "offchain_worker R is_validator s n xs = (if is_validator then snd (offchain R s n xs) else xs)"

section \<open>Queries\<close>

definition current_justified_block :: "('v, 'h, 'n, 'sig, 'x) Runtime \<Rightarrow> ('v, 'h, 'n) Casper \<Rightarrow> 'h" where
  "current_justified_block R s = block_hash_at R (current_justified_epoch_number s)"

definition previous_justified_block :: "('v, 'h, 'n, 'sig, 'x) Runtime \<Rightarrow> ('v, 'h, 'n) Casper \<Rightarrow> 'h" where
  "previous_justified_block R s = block_hash_at R (previous_justified_epoch_number s)"

definition finalized_block :: "('v, 'h, 'n, 'sig, 'x) Runtime \<Rightarrow> ('v, 'h, 'n) Casper \<Rightarrow> 'h" where
  "finalized_block R s = block_hash_at R (finalized_epoch_number s)"

section \<open>Sessions\<close>

definition validator_weight :: "('v \<times> u64) list \<Rightarrow> 'v \<Rightarrow> u64" where
  "validator_weight vs v = (case find (\<lambda>x. fst x = v) vs of Some x \<Rightarrow> snd x | None \<Rightarrow> 0)"

definition matching_balance :: "('v \<times> u64) list \<Rightarrow> ('v, 'h) CasperAttestation list \<Rightarrow> u64" where
  "matching_balance vs ats = foldl (\<lambda>acc a. acc + validator_weight vs (validator_id a)) 0 ats"

definition finalize_if :: "bool \<Rightarrow> u64 \<Rightarrow> 'n \<Rightarrow> ('v, 'h, 'n) Casper \<Rightarrow> ('v, 'h, 'n) Casper" where
  "finalize_if c e n s = (if c then s\<lparr>finalized_epoch := e, finalized_epoch_number := n\<rparr> else s)"

definition justify_if ::
  "bool \<Rightarrow> nat \<Rightarrow> u64 \<Rightarrow> 'n \<Rightarrow> ('v, 'h, 'n) Casper \<times> bool list \<Rightarrow> ('v, 'h, 'n) Casper \<times> bool list" where
  "justify_if c k e n sb =
     (if c then ((fst sb)\<lparr>current_justified_epoch := e, current_justified_epoch_number := n\<rparr>, (snd sb)[k := True]) else sb)"

text \<open>
  \<^verbatim>\<open>on_new_session\<close>, first part: the justified epochs and the bits. The bits move up by one; the first keeps its
  value unless the current epoch is justified.
\<close>

definition session_justify :: "('v, 'h, 'n) Casper \<Rightarrow> ('v, 'h, 'n) Casper \<times> bool list" where
  "session_justify s =
     (let vs = casper_validators s;
          total_balance = foldl (\<lambda>acc v. acc + snd v) 0 vs;
          previous_matching_target_balance = matching_balance vs (casper_previous_attestations s);
          current_matching_target_balance = matching_balance vs (casper_current_attestations s);
          old_bits = casper_justification_bits s;
          t = s\<lparr>previous_justified_epoch := current_justified_epoch s,
                previous_justified_epoch_number := current_justified_epoch_number s\<rparr>
      in justify_if (current_matching_target_balance * 3 \<ge> total_balance * 2) 0
           (casper_current_epoch s) (current_epoch_number s)
         (justify_if (previous_matching_target_balance * 3 \<ge> total_balance * 2) 1
           (casper_previous_epoch s) (previous_epoch_number s) (t, (old_bits ! 0) # take 3 old_bits)))"

text \<open>Second part: finality, with the justified epochs of the old state \<open>s\<close>.\<close>

definition session_finalize :: "('v, 'h, 'n) Casper \<Rightarrow> bool list \<Rightarrow> ('v, 'h, 'n) Casper \<Rightarrow> ('v, 'h, 'n) Casper" where
  "session_finalize s bits t =
     (let old_pe = previous_justified_epoch s; old_pn = previous_justified_epoch_number s;
          old_ce = current_justified_epoch s; old_cn = current_justified_epoch_number s
      in finalize_if (bits_all bits 0 2 \<and> old_ce + 1 = casper_current_epoch s) old_ce old_cn
         (finalize_if (bits_all bits 0 3 \<and> old_ce + 2 = casper_current_epoch s) old_ce old_cn
         (finalize_if (bits_all bits 1 3 \<and> old_pe + 2 = casper_current_epoch s) old_pe old_pn
         (finalize_if (bits_all bits 1 4 \<and> old_pe + 3 = casper_current_epoch s) old_pe old_pn t))))"

text \<open>Third part: the new session starts.\<close>

definition session_rotate :: "bool \<Rightarrow> 'v list \<Rightarrow> 'n \<Rightarrow> bool list \<Rightarrow> ('v, 'h, 'n) Casper \<Rightarrow> ('v, 'h, 'n) Casper" where
  "session_rotate changed new_validators block_number bits s =
     (let t = s\<lparr>casper_justification_bits := bits, casper_previous_attestations := [], casper_current_attestations := []\<rparr>;
          u = (if changed then t\<lparr>casper_validators := map (\<lambda>k. (k, 1)) new_validators\<rparr> else t)
      in u\<lparr>casper_previous_epoch := casper_current_epoch s, previous_epoch_number := current_epoch_number s,
           casper_current_epoch := casper_current_epoch s + 1, current_epoch_number := block_number\<rparr>)"

definition on_new_session :: "bool \<Rightarrow> 'v list \<Rightarrow> 'n \<Rightarrow> ('v, 'h, 'n) Casper \<Rightarrow> ('v, 'h, 'n) Casper" where
  "on_new_session changed new_validators block_number s =
     (case session_justify s of (t, bits) \<Rightarrow>
        session_rotate changed new_validators block_number bits (session_finalize s bits t))"

definition on_disabled :: "nat \<Rightarrow> (('v, 'h, 'n) Casper, casper_error, unit) exec" where
  "on_disabled i s =
     (if i < length (casper_validators s)
      then (Ok (), s\<lparr>casper_validators := (casper_validators s)[i := (fst (casper_validators s ! i), 0)]\<rparr>)
      else (Panic, s))"

section \<open>Validity of transactions\<close>

datatype ('v, 'h, 'sig) casper_call =
    Attest "('v, 'h) CasperAttestation" 'sig
  | Slash "('v, 'h) CasperAttestation" 'sig "('v, 'h) CasperAttestation" 'sig
  | OtherCall

text \<open>The tag a valid transaction provides; priority, requirements, longevity and propagation are constant.\<close>

datatype ('v, 'h) provided_tag =
    AttestationTag "('v, 'h) CasperAttestation"
  | SlashingTag "('v, 'h) CasperAttestation" "('v, 'h) CasperAttestation"

record ('v, 'h) ValidTransaction =
  priority :: u64
  requires :: "('v, 'h) provided_tag list"
  provides :: "('v, 'h) provided_tag list"
  longevity :: u64
  propagate :: bool

fun validate_unsigned :: "('v, 'h, 'sig) casper_call \<Rightarrow> ('v, 'h) ValidTransaction option" where
  "validate_unsigned (Attest a _) = Some \<lparr>priority = 0, requires = [], provides = [AttestationTag a],
     longevity = - 1, propagate = True\<rparr>"
| "validate_unsigned (Slash a _ b _) = Some \<lparr>priority = 0, requires = [], provides = [SlashingTag a b],
     longevity = - 1, propagate = True\<rparr>"
| "validate_unsigned OtherCall = None"

section \<open>Import of blocks (consensus/src/lib.rs)\<close>

text \<open>
  \<^verbatim>\<open>CasperBlockImport\<close> wraps the import of the client. What it calls of the client and of the runtime is the
  parameter \<open>Client\<close>, on a state \<open>'st\<close> of the client; \<open>client_imported\<close> recognizes \<^verbatim>\<open>ImportResult::Imported\<close>.
\<close>

record ('b, 'h, 'i, 'e, 'st) Client =
  client_import_block :: "'b \<Rightarrow> ('st, 'e, 'i) exec"
  client_check_block :: "'b \<Rightarrow> ('st, 'e, 'i) exec"
  client_imported :: "'i \<Rightarrow> bool"
  client_finalized_hash :: "'st \<Rightarrow> 'h"
  client_finalize_block :: "'h \<Rightarrow> ('st, 'e, unit) exec"
  runtime_finalized_block :: "'h \<Rightarrow> 'st \<Rightarrow> ('e, 'h) res"

text \<open>The closure \<^verbatim>\<open>inner\<close>: its errors are logged and dropped.\<close>

definition follow_finality :: "('b, 'h, 'i, 'e, 'st) Client \<Rightarrow> 'h \<Rightarrow> ('st, 'e, unit) exec" where
  "follow_finality K at st =
     (case runtime_finalized_block K at st of
        Ok finalized_hash \<Rightarrow>
          if finalized_hash \<noteq> client_finalized_hash K st then
            (case client_finalize_block K finalized_hash st of
               (Err _, st') \<Rightarrow> (Ok (), st')
             | r \<Rightarrow> r)
          else (Ok (), st)
      | Err _ \<Rightarrow> (Ok (), st)
      | Panic \<Rightarrow> (Panic, st)
      | Diverge \<Rightarrow> (Diverge, st))"

definition casper_import_block :: "('b, 'h, 'i, 'e, 'st) Client \<Rightarrow> ('b \<Rightarrow> 'h) \<Rightarrow> 'b \<Rightarrow> ('st, 'e, 'i) exec" where
  "casper_import_block K parent_hash block =
     ebind (client_import_block K block) (\<lambda>r.
     eseq (if client_imported K r then follow_finality K (parent_hash block) else eret ()) (eret r))"

definition casper_check_block :: "('b, 'h, 'i, 'e, 'st) Client \<Rightarrow> 'b \<Rightarrow> ('st, 'e, 'i) exec" where
  "casper_check_block K block = client_check_block K block"

text \<open>
  If finalizing a block makes it the finalized one or fails without a change, then after an import the client has
  finalized what it had before or what the runtime finalized at the parent.
\<close>

lemma casper_import_follows:
  assumes "\<And>h st r st'. client_finalize_block K h st = (r, st') \<Longrightarrow>
      (r = Ok () \<longrightarrow> client_finalized_hash K st' = h) \<and> (r \<noteq> Ok () \<longrightarrow> st' = st)"
    and "client_import_block K b st = (Ok r, st1)" "casper_import_block K parent_hash b st = (Ok r', st2)"
  shows "r' = r \<and> (client_finalized_hash K st2 = client_finalized_hash K st1 \<or>
    runtime_finalized_block K (parent_hash b) st1 = Ok (client_finalized_hash K st2))"
proof (cases "client_imported K r")
  case True
  then have f: "follow_finality K (parent_hash b) st1 = (Ok (), st2)" and r: "r' = r"
    using assms(2,3) by (auto simp: casper_import_block_def exec_ok eret_eq)
  show ?thesis
  proof (cases "runtime_finalized_block K (parent_hash b) st1")
    case (Ok h)
    obtain x st3 where x: "client_finalize_block K h st1 = (x, st3)" by fastforce
    then show ?thesis
      using f r Ok assms(1) [OF x] by (cases x) (auto simp: follow_finality_def split: if_splits)
  qed (use f r in \<open>auto simp: follow_finality_def\<close>)
qed (use assms(2,3) in \<open>auto simp: casper_import_block_def exec_ok eret_eq\<close>)

section \<open>Properties\<close>

text \<open>The pallet as a justifier of the beacon chain: checkpoints are epochs with their block numbers.\<close>

definition pallet_justifier :: "('v, 'h, 'n) Casper \<Rightarrow> (u64 \<times> 'n) Justifier" where
  "pallet_justifier s = \<lparr>
     j_justification_bits = casper_justification_bits s,
     j_current_justified_checkpoint = (current_justified_epoch s, current_justified_epoch_number s),
     j_previous_justified_checkpoint = (previous_justified_epoch s, previous_justified_epoch_number s),
     j_finalized_checkpoint = (finalized_epoch s, finalized_epoch_number s)\<rparr>"

definition pallet_registry :: "('v, 'h, 'n) Casper \<Rightarrow> (u64 \<times> 'n, 'e) JustifierRegistry" where
  "pallet_registry s = \<lparr>
     checkpoint_epoch = fst,
     registry_total_active_balance = Ok (foldl (\<lambda>acc v. acc + snd v) 0 (casper_validators s)),
     registry_attesting_target_balance = (\<lambda>c.
       Ok (matching_balance (casper_validators s)
         (if fst c = casper_current_epoch s then casper_current_attestations s else casper_previous_attestations s)))\<rparr>"

lemma pallet_supermajority:
  "casper_previous_epoch s \<noteq> casper_current_epoch s \<Longrightarrow>
   supermajority (pallet_registry s) (casper_previous_epoch s, previous_epoch_number s) =
     Ok (matching_balance (casper_validators s) (casper_previous_attestations s) * 3 \<ge>
       foldl (\<lambda>acc v. acc + snd v) 0 (casper_validators s) * 2)"
  "supermajority (pallet_registry s) (casper_current_epoch s, current_epoch_number s) =
     Ok (matching_balance (casper_validators s) (casper_current_attestations s) * 3 \<ge>
       foldl (\<lambda>acc v. acc + snd v) 0 (casper_validators s) * 2)"
  by (simp_all add: supermajority_def pallet_registry_def)

lemma finalize_if_sel [simp]:
  "casper_current_epoch (finalize_if c e n s) = casper_current_epoch s"
  "current_epoch_number (finalize_if c e n s) = current_epoch_number s"
  "current_justified_epoch (finalize_if c e n s) = current_justified_epoch s"
  "current_justified_epoch_number (finalize_if c e n s) = current_justified_epoch_number s"
  "previous_justified_epoch (finalize_if c e n s) = previous_justified_epoch s"
  "previous_justified_epoch_number (finalize_if c e n s) = previous_justified_epoch_number s"
  "finalized_epoch (finalize_if c e n s) = (if c then e else finalized_epoch s)"
  "finalized_epoch_number (finalize_if c e n s) = (if c then n else finalized_epoch_number s)"
  by (simp_all add: finalize_if_def)

lemma justify_if_sel [simp]:
  "snd (justify_if c k e n sb) = (if c then (snd sb)[k := True] else snd sb)"
  "current_justified_epoch (fst (justify_if c k e n sb)) = (if c then e else current_justified_epoch (fst sb))"
  "current_justified_epoch_number (fst (justify_if c k e n sb)) = (if c then n else current_justified_epoch_number (fst sb))"
  "previous_justified_epoch (fst (justify_if c k e n sb)) = previous_justified_epoch (fst sb)"
  "previous_justified_epoch_number (fst (justify_if c k e n sb)) = previous_justified_epoch_number (fst sb)"
  "finalized_epoch (fst (justify_if c k e n sb)) = finalized_epoch (fst sb)"
  "finalized_epoch_number (fst (justify_if c k e n sb)) = finalized_epoch_number (fst sb)"
  by (simp_all add: justify_if_def)

lemma session_finalize_sel:
  "pallet_justifier (session_finalize s bits t) = (pallet_justifier t)\<lparr>j_finalized_checkpoint :=
     (if bits_all bits 0 2 \<and> current_justified_epoch s + 1 = casper_current_epoch s
      then (current_justified_epoch s, current_justified_epoch_number s)
      else if bits_all bits 0 3 \<and> current_justified_epoch s + 2 = casper_current_epoch s
      then (current_justified_epoch s, current_justified_epoch_number s)
      else if bits_all bits 1 3 \<and> previous_justified_epoch s + 2 = casper_current_epoch s
      then (previous_justified_epoch s, previous_justified_epoch_number s)
      else if bits_all bits 1 4 \<and> previous_justified_epoch s + 3 = casper_current_epoch s
      then (previous_justified_epoch s, previous_justified_epoch_number s)
      else (finalized_epoch t, finalized_epoch_number t))\<rparr>"
  by (simp add: session_finalize_def Let_def pallet_justifier_def finalize_if_def)

lemma on_new_session_justifier:
  fixes s :: "('v, 'h, 'n) Casper"
  assumes b: "casper_justification_bits s = [b0, b1, b2, b3]"
    and P: "P \<longleftrightarrow> matching_balance (casper_validators s) (casper_previous_attestations s) * 3 \<ge>
      foldl (\<lambda>acc v. acc + snd v) 0 (casper_validators s) * 2"
    and Q: "Q \<longleftrightarrow> matching_balance (casper_validators s) (casper_current_attestations s) * 3 \<ge>
      foldl (\<lambda>acc v. acc + snd v) 0 (casper_validators s) * 2"
  shows "pallet_justifier (on_new_session changed new_validators block_number s) = \<lparr>
    j_justification_bits = [Q \<or> b0, P \<or> b0, b1, b2],
    j_current_justified_checkpoint = (if Q then (casper_current_epoch s, current_epoch_number s)
      else if P then (casper_previous_epoch s, previous_epoch_number s)
      else (current_justified_epoch s, current_justified_epoch_number s)),
    j_previous_justified_checkpoint = (current_justified_epoch s, current_justified_epoch_number s),
    j_finalized_checkpoint =
      (if (Q \<or> b0) \<and> (P \<or> b0) \<and> current_justified_epoch s + 1 = casper_current_epoch s
       then (current_justified_epoch s, current_justified_epoch_number s)
       else if (Q \<or> b0) \<and> (P \<or> b0) \<and> b1 \<and> current_justified_epoch s + 2 = casper_current_epoch s
       then (current_justified_epoch s, current_justified_epoch_number s)
       else if (P \<or> b0) \<and> b1 \<and> previous_justified_epoch s + 2 = casper_current_epoch s
       then (previous_justified_epoch s, previous_justified_epoch_number s)
       else if (P \<or> b0) \<and> b1 \<and> b2 \<and> previous_justified_epoch s + 3 = casper_current_epoch s
       then (previous_justified_epoch s, previous_justified_epoch_number s)
       else (finalized_epoch s, finalized_epoch_number s))\<rparr>"
proof -
  let ?bits = "[Q \<or> b0, P \<or> b0, b1, b2]"
  obtain t bits where sj: "session_justify s = (t, bits)" by force
  have t: "bits = ?bits" "previous_justified_epoch t = current_justified_epoch s"
    "previous_justified_epoch_number t = current_justified_epoch_number s"
    "(current_justified_epoch t, current_justified_epoch_number t) =
      (if Q then (casper_current_epoch s, current_epoch_number s)
       else if P then (casper_previous_epoch s, previous_epoch_number s)
       else (current_justified_epoch s, current_justified_epoch_number s))"
    "finalized_epoch t = finalized_epoch s" "finalized_epoch_number t = finalized_epoch_number s"
    using arg_cong [OF sj, of snd] arg_cong [OF sj, of fst]
    by (auto simp: session_justify_def Let_def b P [symmetric] Q [symmetric])
  have rotate: "pallet_justifier (session_rotate changed new_validators block_number bits u) =
      (pallet_justifier u)\<lparr>j_justification_bits := bits\<rparr>" for u :: "('v, 'h, 'n) Casper"
    by (simp add: pallet_justifier_def session_rotate_def Let_def)
  have bits: "bits_all ?bits 0 2 \<longleftrightarrow> (Q \<or> b0) \<and> (P \<or> b0)" "bits_all ?bits 0 3 \<longleftrightarrow> (Q \<or> b0) \<and> (P \<or> b0) \<and> b1"
    "bits_all ?bits 1 3 \<longleftrightarrow> (P \<or> b0) \<and> b1" "bits_all ?bits 1 4 \<longleftrightarrow> (P \<or> b0) \<and> b1 \<and> b2"
    by (simp_all add: bits_all_def)
  show ?thesis
    unfolding on_new_session_def sj prod.case rotate
    unfolding session_finalize_sel t(1) bits by (simp add: pallet_justifier_def t(2-6) cong: if_cong)
qed

lemma pallet_justifier_sel:
  "j_justification_bits (pallet_justifier s) = casper_justification_bits s"
  "j_current_justified_checkpoint (pallet_justifier s) = (current_justified_epoch s, current_justified_epoch_number s)"
  "j_previous_justified_checkpoint (pallet_justifier s) = (previous_justified_epoch s, previous_justified_epoch_number s)"
  "j_finalized_checkpoint (pallet_justifier s) = (finalized_epoch s, finalized_epoch_number s)"
  by (simp_all add: pallet_justifier_def)

text \<open>After a change of session the previous and the current epoch differ, and there are four bits.\<close>

lemma on_new_session_epochs:
  "casper_previous_epoch (on_new_session changed new_validators block_number s) = casper_current_epoch s"
  "casper_current_epoch (on_new_session changed new_validators block_number s) = casper_current_epoch s + 1"
proof -
  have "casper_current_epoch (fst (session_justify s)) = casper_current_epoch s"
    by (simp add: session_justify_def justify_if_def Let_def)
  then show "casper_previous_epoch (on_new_session changed new_validators block_number s) = casper_current_epoch s"
    "casper_current_epoch (on_new_session changed new_validators block_number s) = casper_current_epoch s + 1"
    by (cases "session_justify s"; simp add: on_new_session_def session_rotate_def session_finalize_def Let_def)+
qed

text \<open>
  C10: A change of session, when the previous and the current epoch differ, is one epoch of the beacon chain's justifier,
  with the votes of the pallet as its registry, unless the first justification bit is set and the current epoch
  has no two-thirds majority. The epochs differ after every change of session, so this is every session but the first.
  In the first session both epochs are the genesis epoch, and the pallet counts its votes apart for the two.
\<close>

theorem on_new_session_refines:
  assumes "length (casper_justification_bits s) = 4" "casper_previous_epoch s \<noteq> casper_current_epoch s"
    and "\<not> casper_justification_bits s ! 0 \<or>
      supermajority (pallet_registry s) (casper_current_epoch s, current_epoch_number s) = (Ok True :: (unit, bool) res)"
  shows "justifier_process (pallet_registry s :: (u64 \<times> 'n, unit) JustifierRegistry)
      (casper_previous_epoch s, previous_epoch_number s) (casper_current_epoch s, current_epoch_number s) (pallet_justifier s) =
    (Ok (), pallet_justifier (on_new_session changed new_validators block_number s)) \<and>
    length (casper_justification_bits (on_new_session changed new_validators block_number s)) = 4 \<and>
    casper_previous_epoch (on_new_session changed new_validators block_number s) \<noteq>
      casper_current_epoch (on_new_session changed new_validators block_number s)"
proof -
  let ?R = "pallet_registry s :: (u64 \<times> 'n, unit) JustifierRegistry"
  let ?pc = "(casper_previous_epoch s, previous_epoch_number s)" and ?cc = "(casper_current_epoch s, current_epoch_number s)"
  let ?total = "foldl (\<lambda>acc v. acc + snd v) 0 (casper_validators s)"
  define P Q where "P \<longleftrightarrow> matching_balance (casper_validators s) (casper_previous_attestations s) * 3 \<ge> ?total * 2"
    and "Q \<longleftrightarrow> matching_balance (casper_validators s) (casper_current_attestations s) * 3 \<ge> ?total * 2"
  have sm: "supermajority ?R ?pc = Ok P" "supermajority ?R ?cc = Ok Q"
    by (simp_all add: P_def Q_def pallet_supermajority assms(2))
  have ep: "checkpoint_epoch ?R = fst" by (simp add: pallet_registry_def)
  obtain j' where run: "justifier_process ?R ?pc ?cc (pallet_justifier s) = (Ok (), j')"
    by (simp add: justifier_process_def Let_def exec_simps ebind_eget sm)
  have "length (j_justification_bits (pallet_justifier s)) = 4" using assms(1) by (simp add: pallet_justifier_sel)
  from run this show ?thesis
  proof (rule justifier_process_Ok)
    fix b0 b1 b2 b3 smp smc
    assume b: "j_justification_bits (pallet_justifier s) = [b0, b1, b2, b3]"
      and sm': "supermajority ?R ?pc = Ok smp" "supermajority ?R ?cc = Ok smc"
      and j: "j_justification_bits j' = [smc, smp \<or> b0, b1, b2]"
        "j_previous_justified_checkpoint j' = j_current_justified_checkpoint (pallet_justifier s)"
        "j_current_justified_checkpoint j' =
          (if smc then ?cc else if smp then ?pc else j_current_justified_checkpoint (pallet_justifier s))"
        "j_finalized_checkpoint j' =
          (if smc \<and> (smp \<or> b0) \<and> checkpoint_epoch ?R (j_current_justified_checkpoint (pallet_justifier s)) + 1 = checkpoint_epoch ?R ?cc
           then j_current_justified_checkpoint (pallet_justifier s)
           else if smc \<and> (smp \<or> b0) \<and> b1 \<and> checkpoint_epoch ?R (j_current_justified_checkpoint (pallet_justifier s)) + 2 = checkpoint_epoch ?R ?cc
           then j_current_justified_checkpoint (pallet_justifier s)
           else if (smp \<or> b0) \<and> b1 \<and> checkpoint_epoch ?R (j_previous_justified_checkpoint (pallet_justifier s)) + 2 = checkpoint_epoch ?R ?cc
           then j_previous_justified_checkpoint (pallet_justifier s)
           else if (smp \<or> b0) \<and> b1 \<and> b2 \<and> checkpoint_epoch ?R (j_previous_justified_checkpoint (pallet_justifier s)) + 3 = checkpoint_epoch ?R ?cc
           then j_previous_justified_checkpoint (pallet_justifier s)
           else j_finalized_checkpoint (pallet_justifier s))"
    have b': "casper_justification_bits s = [b0, b1, b2, b3]" using b by (simp add: pallet_justifier_sel)
    have pq: "smp = P" "smc = Q" using sm sm' by simp_all
    then have b0: "(Q \<or> b0) = Q" using assms(3) b' sm' by auto
    have "j' = pallet_justifier (on_new_session changed new_validators block_number s)"
      by (rule Justifier.equality)
        (simp_all only: on_new_session_justifier [OF b' P_def Q_def] j pq ep b0 pallet_justifier_sel fst_conv Justifier.simps
          conj_assoc unit_eq [of "Justifier.more j'"])
    moreover from this have "length (casper_justification_bits (on_new_session changed new_validators block_number s)) = 4"
      using j(1) by (simp add: pallet_justifier_sel(1) [symmetric])
    ultimately show ?thesis using run by (simp add: on_new_session_epochs)
  qed
qed

text \<open>
  C35: The first justification bit is never cleared: once the bit is set for a justified epoch, the next session
  finalizes that epoch whatever its votes are, none at all included. The justifier of the beacon chain needs a
  majority in the next epoch for this.
\<close>

theorem session_finalizes_without_votes:
  assumes "length (casper_justification_bits s) = 4" "casper_justification_bits s ! 0"
    and "current_justified_epoch s + 1 = casper_current_epoch s"
  shows "finalized_epoch (on_new_session changed new_validators block_number s) = current_justified_epoch s \<and>
    finalized_epoch_number (on_new_session changed new_validators block_number s) = current_justified_epoch_number s"
proof -
  obtain b0 b1 b2 b3 where b: "casper_justification_bits s = [b0, b1, b2, b3]"
    using assms(1) by (auto simp: numeral_eq_Suc length_Suc_conv)
  have "j_finalized_checkpoint (pallet_justifier (on_new_session changed new_validators block_number s)) =
      (current_justified_epoch s, current_justified_epoch_number s)"
    unfolding on_new_session_justifier [OF b refl refl] using assms(2,3) by (simp add: b)
  then show ?thesis by (simp add: pallet_justifier_def)
qed

text \<open>A session with one validator, which attests to epoch 1 and then no more.\<close>

definition sample_runtime :: "(nat, nat, nat, unit, unit) Runtime" where
  "sample_runtime = \<lparr>block_hash_at = id, verify_attestation = (\<lambda>_ _ _. True), sign_attestation = (\<lambda>_ _. Some ()),
     local_keys = [0], unchecked_extrinsic = (\<lambda>_ _. Some ()), submit_transaction = (\<lambda>_. True)\<rparr>"

definition sample_session :: "(nat, nat, nat) Casper" where
  "sample_session = on_new_session False [] 10 (casper_genesis [(0, 1)])"

definition attested_session :: "(nat, nat, nat) Casper" where
  "attested_session = snd (attest sample_runtime True (own_attestation sample_runtime sample_session 0) () sample_session)"

lemma sample_sessions:
  "casper_current_epoch sample_session = 1 \<and> casper_previous_epoch sample_session = 0 \<and>
   casper_justification_bits sample_session = [False, False, False, False] \<and>
   casper_current_epoch attested_session = 1 \<and> casper_previous_epoch attested_session = 0 \<and>
   casper_justification_bits attested_session = [False, False, False, False] \<and>
   casper_justification_bits (on_new_session False [] 20 attested_session) = [True, False, False, False] \<and>
   current_justified_epoch (on_new_session False [] 20 attested_session) = 1 \<and>
   casper_current_epoch (on_new_session False [] 20 attested_session) = 2"
  by code_simp

theorem on_new_session_refines_witness:
  "justifier_process (pallet_registry attested_session :: (u64 \<times> nat, unit) JustifierRegistry)
     (0, previous_epoch_number attested_session) (1, current_epoch_number attested_session) (pallet_justifier attested_session) =
   (Ok (), pallet_justifier (on_new_session False [] 20 attested_session))"
  using on_new_session_refines [of attested_session False "[]" 20] sample_sessions by simp

theorem session_finalizes_without_votes_witness:
  "finalized_epoch (on_new_session False [] 30 (on_new_session False [] 20 attested_session)) = 1"
  using session_finalizes_without_votes [of "on_new_session False [] 20 attested_session" False "[]" 30] sample_sessions
  by simp

end
