(* ===== verification/SSZ.thy ===== *)
theory SSZ
  imports Prelude
begin

text \<open>
  SimpleSerialize, the crate \<^verbatim>\<open>utils/ssz\<close>: sizes, series of fixed and variable parts, and the codecs of
  integers, booleans, arrays, bit fields and lists. A type with its \<^verbatim>\<open>Codec\<close>, \<^verbatim>\<open>Encode\<close> and
  \<^verbatim>\<open>Decode\<close> implementations is a record of its size, encoder and decoder; a Rust slice \<^verbatim>\<open>v[a..b]\<close> that is
  out of range panics. A container is what the derive macro generates for a struct. The law
  of a codec, that decoding an encoded value gives the value back, is an interface that the codecs are shown
  to satisfy and that lists and containers pass on from their elements.
\<close>

section \<open>Errors and sizes (lib.rs, size.rs)\<close>

datatype ssz_error =
    IncorrectSize
  | InvalidType
  | InvalidLength
  | ListTooLarge
  | OtherError string

type_synonym 'a ssz = "(ssz_error, 'a) res"

type_synonym LengthOffset = u32

text \<open>\<^verbatim>\<open>Size::size()\<close>: a number of bytes, or none for a variable size.\<close>

type_synonym size = "nat option"

definition is_fixed :: "size \<Rightarrow> bool" where
  "is_fixed s = (s \<noteq> None)"

definition is_variable :: "size \<Rightarrow> bool" where
  "is_variable s = (s = None)"

definition VariableSize :: size where
  "VariableSize = None"

fun size_add :: "size \<Rightarrow> size \<Rightarrow> size" where
  "size_add (Some a) (Some b) = Some (a + b)"
| "size_add _ _ = None"

fun size_mul :: "size \<Rightarrow> size \<Rightarrow> size" where
  "size_mul (Some a) (Some b) = Some (a * b)"
| "size_mul _ _ = None"

fun size_div :: "size \<Rightarrow> size \<Rightarrow> size" where
  "size_div (Some a) (Some b) = Some (a div b)"
| "size_div _ _ = None"

fun size_sum :: "size list \<Rightarrow> size" where
  "size_sum [s] = s"
| "size_sum (s # ss) = size_add s (size_sum ss)"
| "size_sum [] = None"

text \<open>A type with its codec.\<close>

record 'a Codec =
  codec_size :: size
  encode :: "'a \<Rightarrow> bytes"
  decode :: "bytes \<Rightarrow> 'a ssz"

section \<open>Integers and booleans (basic.rs)\<close>

definition uint_codec :: "('a::len word) Codec" where
  "uint_codec = \<lparr>
     codec_size = Some (LENGTH('a) div 8),
     encode = to_le_bytes,
     decode = (\<lambda>v. if length v \<noteq> LENGTH('a) div 8 then Err IncorrectSize else Ok (from_le_bytes v))\<rparr>"

definition bool_codec :: "bool Codec" where
  "bool_codec = \<lparr>
     codec_size = Some 1,
     encode = (\<lambda>b. encode uint_codec (if b then 0x01 else 0x00 :: u8)),
     decode = (\<lambda>v. rbind (decode uint_codec v) (\<lambda>b :: u8.
       if b = 0x01 then Ok True else if b = 0x00 then Ok False else Err InvalidType))\<rparr>"

section \<open>Series (series.rs)\<close>

datatype SeriesItem = Fixed bytes | Variable bytes

type_synonym Series = "SeriesItem list"

text \<open>The slice \<^verbatim>\<open>v[a..b]\<close>.\<close>

definition slice :: "bytes \<Rightarrow> nat \<Rightarrow> nat \<Rightarrow> bytes ssz" where
  "slice v a b = (if a \<le> b \<and> b \<le> length v then Ok (take (b - a) (drop a v)) else Panic)"

definition offset_len :: nat where
  "offset_len = length (encode uint_codec (0 :: LengthOffset))"

lemma offset_len_4: "offset_len = 4"
  by (simp add: offset_len_def uint_codec_def)

fun fixed_part_size :: "SeriesItem \<Rightarrow> nat" where
  "fixed_part_size (Fixed f) = length f"
| "fixed_part_size (Variable _) = offset_len"

text \<open>The first loop of \<^verbatim>\<open>Series::encode\<close>, with the running offset; \<open>as LengthOffset\<close> truncates.\<close>

fun encode_heads :: "Series \<Rightarrow> nat \<Rightarrow> bytes" where
  "encode_heads [] off = []"
| "encode_heads (Fixed f # ps) off = f @ encode_heads ps off"
| "encode_heads (Variable v # ps) off =
     encode uint_codec (of_nat off :: LengthOffset) @ encode_heads ps (off + length v)"

fun encode_tails :: "Series \<Rightarrow> bytes" where
  "encode_tails [] = []"
| "encode_tails (Fixed _ # ps) = encode_tails ps"
| "encode_tails (Variable v # ps) = v @ encode_tails ps"

definition series_encode :: "Series \<Rightarrow> bytes" where
  "series_encode ps =
     (let fixed_parts_size = foldl (\<lambda>acc p. acc + fixed_part_size p) 0 ps
      in encode_heads ps fixed_parts_size @ encode_tails ps)"

text \<open>The first loop of \<^verbatim>\<open>decode_vector\<close>: the parts, with empty variable ones, and the offsets read.\<close>

fun decode_heads :: "bytes \<Rightarrow> size list \<Rightarrow> nat \<Rightarrow> (Series \<times> nat list) ssz" where
  "decode_heads v [] pos = Ok ([], [])"
| "decode_heads v (Some n # ts) pos =
     rbind (slice v pos (pos + n)) (\<lambda>f.
     rbind (decode_heads v ts (pos + n)) (\<lambda>(ps, os).
     Ok (Fixed f # ps, os)))"
| "decode_heads v (None # ts) pos =
     rbind (slice v pos (pos + offset_len)) (\<lambda>bs.
     rbind (decode uint_codec bs) (\<lambda>off :: LengthOffset.
     rbind (decode_heads v ts (pos + offset_len)) (\<lambda>(ps, os).
     Ok (Variable [] # ps, unat off # os))))"

fun next_offset :: "bytes \<Rightarrow> nat list \<Rightarrow> nat" where
  "next_offset v [] = length v"
| "next_offset v (off # _) = off"

fun fill_parts :: "bytes \<Rightarrow> Series \<Rightarrow> nat list \<Rightarrow> Series ssz" where
  "fill_parts v [] os = Ok []"
| "fill_parts v (Fixed f # ps) os = rbind (fill_parts v ps os) (\<lambda>qs. Ok (Fixed f # qs))"
| "fill_parts v (Variable w # ps) [] = Panic"
| "fill_parts v (Variable w # ps) (off # os) =
     rbind (slice v off (next_offset v os)) (\<lambda>x.
     rbind (fill_parts v ps os) (\<lambda>qs. Ok (Variable (w @ x) # qs)))"

definition decode_vector :: "bytes \<Rightarrow> size list \<Rightarrow> Series ssz" where
  "decode_vector v ts = rbind (decode_heads v ts 0) (\<lambda>(ps, os). fill_parts v ps os)"

text \<open>
  The loops of \<^verbatim>\<open>decode_list\<close>. With elements of size zero the first one never ends, so it is a partial function.
\<close>

partial_function (option) list_fixed_loop :: "bytes \<Rightarrow> nat \<Rightarrow> nat \<Rightarrow> Series \<Rightarrow> Series option" where
  "list_fixed_loop v n pos ret =
     (if pos + n \<le> length v
      then list_fixed_loop v n (pos + n) (ret @ [Fixed (take n (drop pos v))])
      else Some ret)"

function list_offsets_loop :: "bytes \<Rightarrow> nat \<Rightarrow> nat list \<Rightarrow> nat list ssz" where
  "list_offsets_loop v pos os =
     (if pos + offset_len \<le> length v \<and> (case os of [] \<Rightarrow> True | f # _ \<Rightarrow> pos + offset_len \<le> f)
      then
        rbind (slice v pos (pos + offset_len)) (\<lambda>bs.
        rbind (decode uint_codec bs) (\<lambda>off :: LengthOffset.
        list_offsets_loop v (pos + offset_len) (os @ [unat off])))
      else Ok os)"
  by pat_completeness auto

termination
  by (relation "measure (\<lambda>(v, pos, os). length v - pos)") (auto simp: offset_len_4)

declare list_offsets_loop.simps [simp del]

fun list_parts :: "bytes \<Rightarrow> nat list \<Rightarrow> Series ssz" where
  "list_parts v [] = Ok []"
| "list_parts v (off # os) =
     rbind (slice v off (next_offset v os)) (\<lambda>x.
     rbind (list_parts v os) (\<lambda>ps. Ok (Variable x # ps)))"

definition series_decode_list :: "bytes \<Rightarrow> size \<Rightarrow> Series ssz" where
  "series_decode_list v typ =
     (case typ of
        Some n \<Rightarrow> (case list_fixed_loop v n 0 [] of None \<Rightarrow> Diverge | Some ps \<Rightarrow> Ok ps)
      | None \<Rightarrow> rbind (list_offsets_loop v 0 []) (list_parts v))"

section \<open>Lists (utils.rs)\<close>

definition series_item :: "'a Codec \<Rightarrow> 'a \<Rightarrow> SeriesItem" where
  "series_item T x = (if is_fixed (codec_size T) then Fixed (encode T x) else Variable (encode T x))"

definition encode_list :: "'a Codec \<Rightarrow> 'a list \<Rightarrow> bytes" where
  "encode_list T values = series_encode (map (series_item T) values)"

fun decode_item :: "'a Codec \<Rightarrow> SeriesItem \<Rightarrow> 'a ssz" where
  "decode_item T (Fixed f) = (if is_fixed (codec_size T) then decode T f else Err InvalidType)"
| "decode_item T (Variable v) = (if is_variable (codec_size T) then decode T v else Err InvalidType)"

definition decode_list :: "'a Codec \<Rightarrow> bytes \<Rightarrow> 'a list ssz" where
  "decode_list T v = rbind (series_decode_list v (codec_size T)) (collect_res (decode_item T))"

section \<open>Arrays (fixed.rs)\<close>

text \<open>\<^verbatim>\<open>Compact<GenericArray<u.., L>>\<close> and \<^verbatim>\<open>Compact<VecArray<u.., L>>\<close>.\<close>

definition exact_length :: "nat \<Rightarrow> 'a list \<Rightarrow> 'a list ssz" where
  "exact_length n xs = (if length xs \<noteq> n then Err InvalidLength else Ok xs)"

definition uint_array_codec :: "nat \<Rightarrow> ('a::len word) list Codec" where
  "uint_array_codec n = \<lparr>
     codec_size = size_mul (codec_size (uint_codec :: 'a word Codec)) (Some n),
     encode = encode_list uint_codec,
     decode = (\<lambda>v. rbind (decode_list uint_codec v) (exact_length n))\<rparr>"

definition uint_vecarray_codec :: "nat \<Rightarrow> ('a::len word) list Codec" where
  "uint_vecarray_codec n = \<lparr>
     codec_size = size_mul (codec_size (uint_codec :: 'a word Codec)) (Some n),
     encode = encode_list uint_codec,
     decode = (\<lambda>v. rbind (decode_list uint_codec v) (exact_length n))\<rparr>"

text \<open>The loop that sets the bits of a byte vector, and the bit test of the decoders.\<close>

definition set_bit_at :: "bool list \<Rightarrow> bytes \<Rightarrow> nat \<Rightarrow> bytes" where
  "set_bit_at bits bs i = bs[i div 8 := bs ! (i div 8) OR push_bit (i mod 8) (of_bool (bits ! i))]"

definition set_bits :: "bool list \<Rightarrow> bytes \<Rightarrow> bytes" where
  "set_bits bits bytes = foldl (set_bit_at bits) bytes [0..<length bits]"

definition test_bit :: "bytes \<Rightarrow> nat \<Rightarrow> bool" where
  "test_bit v i = (v ! (i div 8) AND push_bit (i mod 8) 1 \<noteq> 0)"

definition bits_encode :: "bool list \<Rightarrow> bytes" where
  "bits_encode bits = set_bits bits (replicate ((length bits + 7) div 8) 0)"

definition bits_decode :: "nat \<Rightarrow> bytes \<Rightarrow> bool list ssz" where
  "bits_decode n v =
     collect_res (\<lambda>i. if i div 8 \<ge> length v then Err IncorrectSize else Ok (test_bit v i)) [0..<n]"

definition bits_array_codec :: "nat \<Rightarrow> bool list Codec" where
  "bits_array_codec n = \<lparr>
     codec_size = size_div (size_add (Some n) (Some 7)) (Some 8),
     encode = bits_encode,
     decode = bits_decode n\<rparr>"

definition bits_vecarray_codec :: "nat \<Rightarrow> bool list Codec" where
  "bits_vecarray_codec n = \<lparr>
     codec_size = size_div (size_add (Some n) (Some 7)) (Some 8),
     encode = bits_encode,
     decode = bits_decode n\<rparr>"

text \<open>Arrays of encodable elements, \<^verbatim>\<open>GenericArray<T, L>\<close> and \<^verbatim>\<open>VecArray<T, L>\<close>.\<close>

definition array_codec :: "'a Codec \<Rightarrow> nat \<Rightarrow> 'a list Codec" where
  "array_codec T n = \<lparr>
     codec_size = size_mul (codec_size T) (Some n),
     encode = encode_list T,
     decode = (\<lambda>v. rbind (decode_list T v) (exact_length n))\<rparr>"

definition vecarray_codec :: "'a Codec \<Rightarrow> nat \<Rightarrow> 'a list Codec" where
  "vecarray_codec T n = \<lparr>
     codec_size = size_mul (codec_size T) (Some n),
     encode = encode_list T,
     decode = (\<lambda>v. rbind (decode_list T v) (exact_length n))\<rparr>"

definition h256_codec :: "bytes Codec" where
  "h256_codec = \<lparr>
     codec_size = codec_size (uint_array_codec 32 :: u8 list Codec),
     encode = encode (uint_array_codec 32),
     decode = decode (uint_array_codec 32)\<rparr>"

section \<open>Variable-sized types (variable.rs)\<close>

definition at_most :: "nat \<Rightarrow> 'a list \<Rightarrow> 'a list ssz" where
  "at_most m xs = (if length xs > m then Err ListTooLarge else Ok xs)"

definition uint_maxvec_codec :: "nat \<Rightarrow> ('a::len word) list Codec" where
  "uint_maxvec_codec m = \<lparr>
     codec_size = VariableSize,
     encode = encode_list uint_codec,
     decode = (\<lambda>v. rbind (decode_list uint_codec v) (at_most m))\<rparr>"

definition maxvec_codec :: "'a Codec \<Rightarrow> nat \<Rightarrow> 'a list Codec" where
  "maxvec_codec T m = \<lparr>
     codec_size = VariableSize,
     encode = encode_list T,
     decode = (\<lambda>v. rbind (decode_list T v) (at_most m))\<rparr>"

definition uint_vec_codec :: "('a::len word) list Codec" where
  "uint_vec_codec = \<lparr>codec_size = VariableSize, encode = encode_list uint_codec, decode = decode_list uint_codec\<rparr>"

definition vec_codec :: "'a Codec \<Rightarrow> 'a list Codec" where
  "vec_codec T = \<lparr>codec_size = VariableSize, encode = encode_list T, decode = decode_list T\<rparr>"

text \<open>Bit lists: a one bit behind the last element marks the length.\<close>

definition leading_zeros :: "u8 \<Rightarrow> nat" where
  "leading_zeros b = length (takeWhile (\<lambda>i. \<not> bit b i) (rev [0..<8]))"

definition bitlist_encode :: "bool list \<Rightarrow> bytes" where
  "bitlist_encode bits =
     (let n = length bits;
          bs = set_bits bits (replicate ((n + 1 + 7) div 8) 0)
      in bs[n div 8 := bs ! (n div 8) OR push_bit (n mod 8) 1])"

function bitlist_loop :: "bytes \<Rightarrow> u64 \<Rightarrow> nat \<Rightarrow> bool list \<Rightarrow> bool list ssz" where
  "bitlist_loop v n i ret =
     (if i < unat n
      then if i div 8 \<ge> length v then Err IncorrectSize
           else bitlist_loop v n (i + 1) (ret @ [test_bit v i])
      else Ok ret)"
  by pat_completeness auto

termination
  by (relation "measure (\<lambda>(v, n, i, ret). unat n - i)") auto

declare bitlist_loop.simps [simp del]

text \<open>The length is computed with 64-bit arithmetic; an empty slice panics at its last byte.\<close>

definition bitlist_decode :: "bytes \<Rightarrow> bool list ssz" where
  "bitlist_decode v =
     rbind (vec_index v (len64 v - 1)) (\<lambda>l.
     let n = (len64 v - 1) * 8 + (7 - of_nat (leading_zeros l))
     in bitlist_loop v n 0 [])"

definition bitlist_codec :: "bool list Codec" where
  "bitlist_codec = \<lparr>codec_size = VariableSize, encode = bitlist_encode, decode = bitlist_decode\<rparr>"

definition max_bitlist_codec :: "nat \<Rightarrow> bool list Codec" where
  "max_bitlist_codec m = \<lparr>
     codec_size = VariableSize,
     encode = encode bitlist_codec,
     decode = (\<lambda>v. rbind (decode bitlist_codec v) (at_most m))\<rparr>"

section \<open>Containers (derive)\<close>

text \<open>
  What the derive macros generate for a struct, field by field: the sizes that make up the size of the struct, the
  parts its encoder pushes, the sizes its decoder asks for, and the construction of the value from the
  decoded parts. A field marked \<^verbatim>\<open>compact\<close> has the size of its type in the first, but the size of its compact
  form in the third.
\<close>

record 'a Fields =
  declared_sizes :: "size list"
  field_items :: "'a \<Rightarrow> Series"
  decode_sizes :: "size list"
  field_decode :: "Series \<Rightarrow> 'a ssz"

definition no_fields :: "unit Fields" where
  "no_fields = \<lparr>declared_sizes = [], field_items = (\<lambda>_. []), decode_sizes = [], field_decode = (\<lambda>_. Ok ())\<rparr>"

definition field_item :: "size \<Rightarrow> 'a Codec \<Rightarrow> 'a \<Rightarrow> SeriesItem" where
  "field_item sz T x = (if is_fixed sz then Fixed (encode T x) else Variable (encode T x))"

fun decode_field :: "size \<Rightarrow> 'a Codec \<Rightarrow> SeriesItem \<Rightarrow> 'a ssz" where
  "decode_field sz T (Fixed f) = (if is_fixed sz then decode T f else Err InvalidType)"
| "decode_field sz T (Variable v) = (if is_variable sz then decode T v else Err InvalidType)"

text \<open>A field of declared size \<open>sz\<close> encoded with \<open>T\<close>, before the fields \<open>R\<close>.\<close>

definition add_field :: "size \<Rightarrow> 'a Codec \<Rightarrow> 'b Fields \<Rightarrow> ('a \<times> 'b) Fields" where
  "add_field sz T R = \<lparr>
     declared_sizes = sz # declared_sizes R,
     field_items = (\<lambda>(x, r). field_item sz T x # field_items R r),
     decode_sizes = codec_size T # decode_sizes R,
     field_decode = (\<lambda>ps. case ps of [] \<Rightarrow> Panic | p # ps \<Rightarrow>
       rbind (decode_field sz T p) (\<lambda>x. rbind (field_decode R ps) (\<lambda>r. Ok (x, r))))\<rparr>"

abbreviation field :: "'a Codec \<Rightarrow> 'b Fields \<Rightarrow> ('a \<times> 'b) Fields" where
  "field T R \<equiv> add_field (codec_size T) T R"

text \<open>The codec of a struct whose fields are the components of the tuple \<open>out x\<close>.\<close>

definition container_codec :: "'b Fields \<Rightarrow> ('a \<Rightarrow> 'b) \<Rightarrow> ('b \<Rightarrow> 'a) \<Rightarrow> 'a Codec" where
  "container_codec F out mk = \<lparr>
     codec_size = size_sum (declared_sizes F),
     encode = (\<lambda>x. series_encode (field_items F (out x))),
     decode = (\<lambda>v. rbind (decode_vector v (decode_sizes F)) (\<lambda>ps. rbind (field_decode F ps) (\<lambda>y. Ok (mk y))))\<rparr>"

section \<open>Series round trips\<close>

lemma slice_at: "drop a v = xs @ ys \<Longrightarrow> a \<le> length v \<Longrightarrow> slice v a (a + length xs) = Ok xs"
proof -
  assume d: "drop a v = xs @ ys" and a: "a \<le> length v"
  have "length v - a = length xs + length ys" using arg_cong [OF d, of length] by simp
  then show ?thesis using a by (simp add: slice_def d)
qed

lemma drop_past: "drop a v = xs @ ys \<Longrightarrow> n = length xs \<Longrightarrow> drop (a + n) v = ys"
  by (metis add.commute append_eq_conv_conj drop_drop)

lemma uint_codec_roundtrip: "LENGTH('a) mod 8 = 0 \<Longrightarrow> decode uint_codec (encode uint_codec (w :: 'a::len word)) = Ok w"
  by (simp add: uint_codec_def from_to_le_bytes)

lemma offset_roundtrip: "n < 2 ^ 32 \<Longrightarrow> decode uint_codec (encode uint_codec (of_nat n :: LengthOffset)) = Ok (of_nat n :: LengthOffset)"
  by (simp add: uint_codec_roundtrip)

lemma length_encode_offset [simp]: "length (encode uint_codec (w :: LengthOffset)) = offset_len"
  by (simp add: offset_len_4 uint_codec_def)

fun blank :: "SeriesItem \<Rightarrow> SeriesItem" where
  "blank (Fixed f) = Fixed f"
| "blank (Variable _) = Variable []"

fun item_size :: "SeriesItem \<Rightarrow> size" where
  "item_size (Fixed f) = Some (length f)"
| "item_size (Variable _) = None"

fun offsets :: "Series \<Rightarrow> nat \<Rightarrow> nat list" where
  "offsets [] off = []"
| "offsets (Fixed _ # ps) off = offsets ps off"
| "offsets (Variable v # ps) off = off # offsets ps (off + length v)"

lemma length_encode_heads: "length (encode_heads ps off) = sum_list (map fixed_part_size ps)"
  by (induction ps off rule: encode_heads.induct) simp_all

lemma foldl_fixed_part_size: "foldl (\<lambda>acc p. acc + fixed_part_size p) a ps = a + sum_list (map fixed_part_size ps)"
  by (induction ps arbitrary: a) simp_all

lemma series_encode_alt:
  "series_encode ps = encode_heads ps (sum_list (map fixed_part_size ps)) @ encode_tails ps"
  by (simp add: series_encode_def foldl_fixed_part_size)

lemma decode_heads_encode:
  assumes "drop pos v = encode_heads ps off @ rest" "pos \<le> length v" "off + length (encode_tails ps) < 2 ^ 32"
  shows "decode_heads v (map item_size ps) pos = Ok (map blank ps, offsets ps off)"
  using assms
proof (induction ps off arbitrary: pos rule: encode_heads.induct)
  case (2 f ps off)
  have s: "slice v pos (pos + length f) = Ok f"
    using slice_at [of pos v f "encode_heads ps off @ rest"] 2(2,3) by simp
  have "drop (pos + length f) v = encode_heads ps off @ rest"
    using 2(2) by (intro drop_past) simp_all
  moreover have "pos + length f \<le> length v" using s by (simp add: slice_def split: if_splits)
  ultimately have "decode_heads v (map item_size ps) (pos + length f) = Ok (map blank ps, offsets ps off)"
    using 2(1,4) by simp
  then show ?case using s by simp
next
  case (3 w ps off)
  let ?o = "encode uint_codec (of_nat off :: LengthOffset)"
  have s: "slice v pos (pos + offset_len) = Ok ?o"
    using slice_at [of pos v ?o "encode_heads ps (off + length w) @ rest"] 3(2,3) by simp
  have "drop (pos + offset_len) v = encode_heads ps (off + length w) @ rest"
    using 3(2) by (intro drop_past [OF _ length_encode_offset [symmetric]]) simp
  moreover have "pos + offset_len \<le> length v" using s by (simp add: slice_def split: if_splits)
  ultimately have "decode_heads v (map item_size ps) (pos + offset_len) = Ok (map blank ps, offsets ps (off + length w))"
    using 3(1,4) by (simp add: add.assoc)
  moreover have "unat (of_nat off :: LengthOffset) = off" using 3(4) by (simp add: unat_of_nat)
  ultimately show ?case using s offset_roundtrip [of off] 3(4) by simp
qed simp

lemma next_offset_offsets:
  "drop off v = encode_tails ps \<Longrightarrow> off \<le> length v \<Longrightarrow> next_offset v (offsets ps off) = off"
  by (induction ps off rule: offsets.induct) simp_all

lemma fill_parts_encode:
  "drop off v = encode_tails ps \<Longrightarrow> off \<le> length v \<Longrightarrow> fill_parts v (map blank ps) (offsets ps off) = Ok ps"
proof (induction ps off rule: offsets.induct)
  case (3 w ps off)
  have s: "slice v off (off + length w) = Ok w" using slice_at [of off v w "encode_tails ps"] 3(2,3) by simp
  have "drop (off + length w) v = encode_tails ps"
    using 3(2) by (intro drop_past) simp_all
  moreover have "off + length w \<le> length v" using s by (simp add: slice_def split: if_splits)
  ultimately show ?case using 3(1) s next_offset_offsets [of "off + length w" v ps] by simp
qed simp_all

text \<open>A series of parts of known kinds and lengths is read back as it was written.\<close>

lemma decode_vector_encode:
  assumes "length (series_encode ps) < 2 ^ 32"
  shows "decode_vector (series_encode ps) (map item_size ps) = Ok ps"
proof -
  let ?n = "sum_list (map fixed_part_size ps)"
  have heads: "decode_heads (series_encode ps) (map item_size ps) 0 = Ok (map blank ps, offsets ps ?n)"
    using assms by (intro decode_heads_encode [where rest = "encode_tails ps"])
      (simp_all add: series_encode_alt length_encode_heads)
  have "fill_parts (series_encode ps) (map blank ps) (offsets ps ?n) = Ok ps"
    by (intro fill_parts_encode) (simp_all add: series_encode_alt length_encode_heads)
  then show ?thesis using heads by (simp add: decode_vector_def)
qed

section \<open>Lists of parts\<close>

lemma list_fixed_loop_step:
  "pos + n \<le> length v \<Longrightarrow>
   list_fixed_loop v n pos ret = list_fixed_loop v n (pos + n) (ret @ [Fixed (take n (drop pos v))])"
  "\<not> pos + n \<le> length v \<Longrightarrow> list_fixed_loop v n pos ret = Some ret"
  by (simp_all add: list_fixed_loop.simps)

lemma list_fixed_loop_concat:
  assumes "0 < n" "drop pos v = concat xs" "\<forall>x\<in>set xs. length x = n" "pos \<le> length v"
  shows "list_fixed_loop v n pos ret = Some (ret @ map Fixed xs)"
  using assms(2-4)
proof (induction xs arbitrary: pos ret)
  case Nil
  then show ?case using assms(1) by (subst list_fixed_loop_step(2)) simp_all
next
  case (Cons x xs)
  have "slice v pos (pos + length x) = Ok x" using slice_at [of pos v x "concat xs"] Cons.prems by simp
  then have s: "pos + n \<le> length v" "take n (drop pos v) = x" using Cons.prems by (simp_all add: slice_def split: if_splits)
  have "drop (pos + n) v = concat xs" using Cons.prems by (intro drop_past [of pos v x]) simp_all
  then show ?case using Cons.IH [of "pos + n"] Cons.prems s by (subst list_fixed_loop_step(1)) simp_all
qed

lemma encode_heads_Fixed: "encode_heads (map Fixed xs) off = concat xs" "encode_tails (map Fixed xs) = []"
  by (induction xs) simp_all

lemma series_encode_Fixed: "series_encode (map Fixed xs) = concat xs"
  by (simp add: series_encode_alt encode_heads_Fixed)

lemma series_decode_list_Fixed:
  assumes "0 < n" "\<forall>x\<in>set xs. length x = n"
  shows "series_decode_list (series_encode (map Fixed xs)) (Some n) = Ok (map Fixed xs)"
  using list_fixed_loop_concat [OF assms(1), of 0 "concat xs" xs "[]"] assms(2)
  by (simp add: series_decode_list_def series_encode_Fixed)

lemma offsets_Variable_hd: "xs \<noteq> [] \<Longrightarrow> hd (offsets (map Variable xs) off) = off"
  by (cases xs) simp_all

lemma list_offsets_loop_encode:
  assumes "drop pos v = encode_heads (map Variable xs) off @ rest" "pos \<le> length v"
    and "off + length (encode_tails (map Variable xs)) < 2 ^ 32"
    and "first = hd (os @ offsets (map Variable xs) off)" "pos + offset_len * length xs = first" "os = [] \<longrightarrow> xs \<noteq> []"
  shows "list_offsets_loop v pos os = Ok (os @ offsets (map Variable xs) off)"
  using assms
proof (induction xs arbitrary: pos off os)
  case Nil
  then obtain f fs where "os = f # fs" by (cases os) auto
  then show ?case using Nil by (subst list_offsets_loop.simps) (simp add: offset_len_4)
next
  case (Cons w xs)
  let ?o = "encode uint_codec (of_nat off :: LengthOffset)"
  have s: "slice v pos (pos + offset_len) = Ok ?o"
    using slice_at [of pos v ?o "encode_heads (map Variable xs) (off + length w) @ rest"] Cons.prems(1,2) by simp
  then have le: "pos + offset_len \<le> length v" by (simp add: slice_def split: if_splits)
  have "drop (pos + offset_len) v = encode_heads (map Variable xs) (off + length w) @ rest"
    using Cons.prems(1) by (intro drop_past [OF _ length_encode_offset [symmetric]]) simp
  moreover have "unat (of_nat off :: LengthOffset) = off" using Cons.prems(3) by (simp add: unat_of_nat)
  moreover have "case os of [] \<Rightarrow> True | f # _ \<Rightarrow> pos + offset_len \<le> f"
    using Cons.prems(4,5) by (cases os) simp_all
  moreover have "list_offsets_loop v (pos + offset_len) (os @ [off]) = Ok ((os @ [off]) @ offsets (map Variable xs) (off + length w))"
    using Cons.prems calculation(1) le by (intro Cons.IH) (simp_all add: add.assoc)
  ultimately show ?case
    using s le offset_roundtrip [of off] Cons.prems(3) by (subst list_offsets_loop.simps) simp
qed

lemma list_parts_encode:
  "drop off v = encode_tails (map Variable xs) \<Longrightarrow> off \<le> length v \<Longrightarrow>
   list_parts v (offsets (map Variable xs) off) = Ok (map Variable xs)"
proof (induction xs arbitrary: off)
  case (Cons w xs)
  have s: "slice v off (off + length w) = Ok w"
    using slice_at [of off v w "encode_tails (map Variable xs)"] Cons.prems by simp
  have "drop (off + length w) v = encode_tails (map Variable xs)"
    using Cons.prems(1) by (intro drop_past) simp_all
  moreover have "off + length w \<le> length v" using s by (simp add: slice_def split: if_splits)
  ultimately show ?case using Cons.IH s next_offset_offsets [of "off + length w" v "map Variable xs"] by simp
qed simp

lemma series_decode_list_Variable:
  assumes "length (series_encode (map Variable xs)) < 2 ^ 32"
  shows "series_decode_list (series_encode (map Variable xs)) None = Ok (map Variable xs)"
proof (cases "xs = []")
  case True
  then show ?thesis
    by (simp add: series_decode_list_def series_encode_alt list_offsets_loop.simps offset_len_4)
next
  case False
  let ?v = "series_encode (map Variable xs)" and ?n = "sum_list (map fixed_part_size (map Variable xs))"
  have n: "?n = offset_len * length xs" by (induction xs) simp_all
  have "list_offsets_loop ?v 0 [] = Ok ([] @ offsets (map Variable xs) ?n)"
    using assms False
    by (intro list_offsets_loop_encode [where rest = "encode_tails (map Variable xs)" and first = ?n])
      (use n in \<open>simp_all add: series_encode_alt length_encode_heads offsets_Variable_hd\<close>)
  moreover have "list_parts ?v (offsets (map Variable xs) ?n) = Ok (map Variable xs)"
    by (intro list_parts_encode) (simp_all add: series_encode_alt length_encode_heads)
  ultimately show ?thesis by (simp add: series_decode_list_def)
qed

lemma sum_list_map_const: "\<forall>x\<in>set xs. f x = (n :: nat) \<Longrightarrow> sum_list (map f xs) = n * length xs"
  by (induction xs) simp_all

section \<open>The law of a codec\<close>

text \<open>
  On the values in \<open>P\<close>, decoding inverts encoding, and a fixed size is the length of every encoding.
\<close>

locale codec_law =
  fixes T :: "'a Codec" and P :: "'a \<Rightarrow> bool"
  assumes roundtrip: "P x \<Longrightarrow> decode T (encode T x) = Ok x"
    and encoded_length: "P x \<Longrightarrow> codec_size T = Some n \<Longrightarrow> length (encode T x) = n"
begin

lemma encode_inj: "P x \<Longrightarrow> P y \<Longrightarrow> encode T x = encode T y \<Longrightarrow> x = y"
  using roundtrip by (metis res.inject(1))

lemma decode_list_encode:
  assumes "\<forall>x\<in>set xs. P x" "codec_size T \<noteq> Some 0"
    and "codec_size T = None \<longrightarrow> length (encode_list T xs) < 2 ^ 32"
  shows "decode_list T (encode_list T xs) = Ok xs"
proof -
  have dec: "collect_res (decode_item T) (map (series_item T) xs) = Ok xs"
    unfolding collect_res_map
    by (subst collect_res_all_Ok [where g = id])
      (use assms(1) in \<open>auto simp: series_item_def is_fixed_def is_variable_def roundtrip\<close>)
  show ?thesis
  proof (cases "codec_size T")
    case (Some n)
    then have item: "map (series_item T) xs = map Fixed (map (encode T) xs)" by (simp add: series_item_def is_fixed_def)
    have "series_decode_list (encode_list T xs) (Some n) = Ok (map (series_item T) xs)"
      unfolding encode_list_def item using Some assms(1,2) encoded_length by (intro series_decode_list_Fixed) auto
    then show ?thesis using dec Some by (simp add: decode_list_def)
  next
    case None
    then have item: "map (series_item T) xs = map Variable (map (encode T) xs)" by (simp add: series_item_def is_fixed_def)
    have "series_decode_list (encode_list T xs) None = Ok (map (series_item T) xs)"
      using None assms(3) unfolding encode_list_def item by (intro series_decode_list_Variable) simp
    then show ?thesis using dec None by (simp add: decode_list_def)
  qed
qed

lemma encode_list_length:
  "\<forall>x\<in>set xs. P x \<Longrightarrow> codec_size T = Some n \<Longrightarrow> length (encode_list T xs) = n * length xs"
proof -
  assume P: "\<forall>x\<in>set xs. P x" and n: "codec_size T = Some n"
  have "map (series_item T) xs = map Fixed (map (encode T) xs)" using n by (simp add: series_item_def is_fixed_def)
  then have "encode_list T xs = concat (map (encode T) xs)" by (simp only: encode_list_def series_encode_Fixed)
  moreover have "\<forall>x\<in>set xs. length (encode T x) = n" using P encoded_length [OF _ n] by simp
  ultimately show ?thesis by (simp add: length_concat comp_def sum_list_map_const)
qed

end

section \<open>Bit fields\<close>

lemma test_bit_alt: "test_bit v i = bit (v ! (i div 8)) (i mod 8)"
  by (simp add: test_bit_def bit_iff_and_push_bit_not_eq_0)

lemma div_mod_8_eq: "(i :: nat) div 8 = n div 8 \<Longrightarrow> i mod 8 = n mod 8 \<Longrightarrow> i = n"
  by (metis div_mult_mod_eq)

lemma bit_push_of_bool: "j < 8 \<Longrightarrow> bit (push_bit k (of_bool b) :: u8) j \<longleftrightarrow> b \<and> j = k"
  by (cases b) (auto simp: bit_simps)

lemma test_set_bit_at:
  assumes "n div 8 < length bs" "i div 8 < length bs"
  shows "test_bit (set_bit_at bits bs n) i = (test_bit bs i \<or> bits ! n \<and> i = n)"
proof (cases "i div 8 = n div 8")
  case True
  have "i = n \<longleftrightarrow> i mod 8 = n mod 8" using div_mod_8_eq [OF True] by auto
  then show ?thesis
    using True assms bit_push_of_bool [of "i mod 8" "n mod 8" "bits ! n"]
    by (simp add: test_bit_alt set_bit_at_def bit_or_iff)
next
  case False
  then show ?thesis by (auto simp: test_bit_alt set_bit_at_def)
qed

lemma length_set_bit_at [simp]: "length (set_bit_at bits bs i) = length bs"
  by (simp add: set_bit_at_def)

lemma set_bits_upto:
  assumes "n \<le> length bits" "n \<le> 8 * m"
  shows "length (foldl (set_bit_at bits) (replicate m 0) [0..<n]) = m \<and>
    (\<forall>i. i div 8 < m \<longrightarrow> test_bit (foldl (set_bit_at bits) (replicate m 0) [0..<n]) i = (i < n \<and> bits ! i))"
  using assms
proof (induction n)
  case 0
  then show ?case by (simp add: test_bit_alt)
next
  case (Suc n)
  let ?bs = "foldl (set_bit_at bits) (replicate m 0) [0..<n]"
  have IH: "length ?bs = m" "\<And>i. i div 8 < m \<Longrightarrow> test_bit ?bs i = (i < n \<and> bits ! i)" using Suc by simp_all
  have n: "n div 8 < m" using Suc.prems by linarith
  have "test_bit (set_bit_at bits ?bs n) i = (i < Suc n \<and> bits ! i)" if i: "i div 8 < m" for i
    using test_set_bit_at [of n ?bs i bits] n i IH by (auto simp: less_Suc_eq)
  then show ?case using IH(1) by simp
qed

lemma set_bits_replicate:
  assumes "length bits \<le> 8 * m"
  shows "length (set_bits bits (replicate m 0)) = m"
    "i div 8 < m \<Longrightarrow> test_bit (set_bits bits (replicate m 0)) i = (i < length bits \<and> bits ! i)"
  using set_bits_upto [OF le_refl assms] by (simp_all add: set_bits_def)

lemma div_less_ceil: "i < n \<Longrightarrow> i div 8 < (n + 7) div (8 :: nat)"
  by linarith

lemma bits_roundtrip: "bits_decode (length bits) (bits_encode bits) = Ok bits"
proof -
  have len: "length bits \<le> 8 * ((length bits + 7) div 8)" by linarith
  have "bits_decode (length bits) (bits_encode bits) = Ok (map ((!) bits) [0..<length bits])"
    unfolding bits_decode_def
    by (intro collect_res_all_Ok)
      (auto simp: bits_encode_def set_bits_replicate [OF len] div_less_ceil not_le)
  then show ?thesis by (simp add: map_nth)
qed

lemma length_bits_encode: "length (bits_encode bits) = (length bits + 7) div 8"
proof -
  have "length bits \<le> 8 * ((length bits + 7) div 8)" by linarith
  then show ?thesis by (simp add: bits_encode_def set_bits_replicate)
qed

subsection \<open>Bit lists\<close>

lemma upt_8: "[0..<8] = [0, 1, 2, 3, 4, 5, 6, 7 :: nat]"
  by code_simp

lemma leading_zeros_top:
  assumes "k < 8" "bit b k" "\<And>j. k < j \<Longrightarrow> j < 8 \<Longrightarrow> \<not> bit b j"
  shows "leading_zeros b = 7 - k"
proof -
  have "k \<in> {0, 1, 2, 3, 4, 5, 6, 7}" using assms(1) by auto
  then show ?thesis
    using assms(2) assms(3) [of 1] assms(3) [of 2] assms(3) [of 3] assms(3) [of 4] assms(3) [of 5] assms(3) [of 6]
      assms(3) [of 7]
    by (elim insertE emptyE) (simp_all add: leading_zeros_def upt_8)
qed

lemma leading_zeros_0: "leading_zeros 0 = 8"
  by (simp add: leading_zeros_def upt_8)

lemma bitlist_loop_reads:
  assumes "unat n \<le> 8 * length v" "i \<le> unat n"
  shows "bitlist_loop v n i ret = Ok (ret @ map (test_bit v) [i..<unat n])"
  using assms
proof (induction v n i ret rule: bitlist_loop.induct)
  case (1 v n i ret)
  show ?case
  proof (cases "i < unat n")
    case True
    then have "i div 8 < length v" using 1(2) by linarith
    then show ?thesis
      using 1 True by (subst bitlist_loop.simps) (simp add: upt_conv_Cons)
  next
    case False
    then show ?thesis using 1(3) by (subst bitlist_loop.simps) simp
  qed
qed

text \<open>The length that the decoder reads off a last byte whose highest one bit is \<open>k\<close>.\<close>

lemma bitlist_decode_bits:
  assumes v: "v \<noteq> []" "length v < 2 ^ 60" and k: "k < 8" "bit (last v) k" "\<And>j. k < j \<Longrightarrow> j < 8 \<Longrightarrow> \<not> bit (last v) j"
  shows "bitlist_decode v = Ok (map (test_bit v) [0..<(length v - 1) * 8 + k])"
proof -
  have l: "unat (len64 v - 1) = length v - 1" "unat (len64 v) = length v"
    using v by (simp_all add: len64_def unat_sub_if_size unat_of_nat_u64 unat_of_nat Suc_le_eq)
  have "(7 :: u64) - of_nat (leading_zeros (last v)) = of_nat k"
    using k(1) by (simp add: leading_zeros_top [OF k] of_nat_diff)
  moreover have "unat (w * 8 + of_nat k) = (length v - 1) * 8 + k" if "unat w = length v - 1" for w :: u64
    using v k(1) that by (simp add: unat_word_ariths unat_of_nat)
  from this [OF l(1)] have "unat ((len64 v - 1) * 8 + of_nat k) = (length v - 1) * 8 + k" .
  moreover have "(length v - 1) * 8 + k \<le> 8 * length v" using v(1) k(1) by (cases v) simp_all
  moreover have "vec_index v (len64 v - 1) = (Ok (last v) :: u8 ssz)"
    using v(1) l by (simp add: vec_index_def last_conv_nth)
  ultimately have "bitlist_decode v = bitlist_loop v ((len64 v - 1) * 8 + of_nat k) 0 []"
    "unat ((len64 v - 1) * 8 + of_nat k) = (length v - 1) * 8 + k" "(length v - 1) * 8 + k \<le> 8 * length v"
    unfolding bitlist_decode_def Let_def by (simp_all only: rbind.simps)
  then show ?thesis using bitlist_loop_reads [of "(len64 v - 1) * 8 + of_nat k" v 0 "[]"] by (simp only: append_Nil)
qed

lemma bitlist_encode_props:
  fixes bits :: "bool list"
  defines "v \<equiv> bitlist_encode bits" and "n \<equiv> length bits"
  shows "length v = n div 8 + 1" "v \<noteq> []"
    "\<And>i. i div 8 \<le> n div 8 \<Longrightarrow> test_bit v i = (i < n \<and> bits ! i \<or> i = n)"
proof -
  have len: "length bits \<le> 8 * ((n + 1 + 7) div 8)" unfolding n_def by linarith
  note sb = set_bits_replicate [OF len]
  have m: "(n + 1 + 7) div 8 = n div 8 + 1" by simp
  have v: "v = (set_bits bits (replicate (n div 8 + 1) 0))[n div 8 :=
      set_bits bits (replicate (n div 8 + 1) 0) ! (n div 8) OR push_bit (n mod 8) 1]"
    by (simp only: v_def bitlist_encode_def Let_def n_def [symmetric] m)
  show l: "length v = n div 8 + 1" using sb(1) unfolding m v by simp
  then show "v \<noteq> []" by auto
  fix i assume i: "i div 8 \<le> n div 8"
  let ?bs = "set_bits bits (replicate (n div 8 + 1) 0)"
  have b: "bit (?bs ! (i div 8)) (i mod 8) = (i < n \<and> bits ! i)"
    using sb(2) [of i] i unfolding m by (simp add: test_bit_alt n_def)
  show "test_bit v i = (i < n \<and> bits ! i \<or> i = n)"
  proof (cases "i div 8 = n div 8")
    case True
    have "i = n \<longleftrightarrow> i mod 8 = n mod 8" using div_mod_8_eq [OF True] by auto
    then show ?thesis
      using b True sb(1) bit_push_of_bool [of "i mod 8" "n mod 8" True] unfolding m v
      by (simp add: test_bit_alt bit_or_iff)
  next
    case False
    then have "i \<noteq> n" by auto
    then show ?thesis using b False unfolding v by (simp add: test_bit_alt)
  qed
qed

lemma bitlist_roundtrip:
  assumes "length bits < 2 ^ 60"
  shows "bitlist_decode (bitlist_encode bits) = Ok bits"
proof -
  let ?v = "bitlist_encode bits" and ?n = "length bits"
  note p = bitlist_encode_props [where bits = bits]
  have last: "last ?v = ?v ! (?n div 8)" using p(1,2) by (simp add: last_conv_nth)
  have bit: "bit (last ?v) j = (?n div 8 * 8 + j < ?n \<and> bits ! (?n div 8 * 8 + j) \<or> ?n div 8 * 8 + j = ?n)"
    if "j < 8" for j
    using p(3) [of "?n div 8 * 8 + j"] that by (simp add: test_bit_alt last)
  have n: "?n div 8 * 8 + ?n mod 8 = ?n" by simp
  have "bitlist_decode ?v = Ok (map (test_bit ?v) [0..<(length ?v - 1) * 8 + ?n mod 8])"
  proof (rule bitlist_decode_bits)
    show "bit (last ?v) (?n mod 8)" using bit [of "?n mod 8"] by simp
    show "\<not> bit (last ?v) j" if "?n mod 8 < j" "j < 8" for j
      using bit [OF that(2)] that(1) n by linarith
  qed (use p(1,2) assms in simp_all)
  moreover have "map (test_bit ?v) [0..<?n] = bits"
    using p(3) by (intro nth_equalityI) (simp_all add: div_le_mono)
  ultimately show ?thesis using p(1) n by simp
qed

section \<open>The codecs satisfy the law\<close>

interpretation u8: codec_law "uint_codec :: u8 Codec" "\<lambda>_. True"
  by unfold_locales (simp_all add: uint_codec_roundtrip, simp_all add: uint_codec_def)

interpretation u16: codec_law "uint_codec :: 16 word Codec" "\<lambda>_. True"
  by unfold_locales (simp_all add: uint_codec_roundtrip, simp_all add: uint_codec_def)

interpretation u32: codec_law "uint_codec :: u32 Codec" "\<lambda>_. True"
  by unfold_locales (simp_all add: uint_codec_roundtrip, simp_all add: uint_codec_def offset_len_4)

interpretation u64: codec_law "uint_codec :: u64 Codec" "\<lambda>_. True"
  by unfold_locales (simp_all add: uint_codec_roundtrip, simp_all add: uint_codec_def)

interpretation u128: codec_law "uint_codec :: 128 word Codec" "\<lambda>_. True"
  by unfold_locales (simp_all add: uint_codec_roundtrip, simp_all add: uint_codec_def)

interpretation bool: codec_law bool_codec "\<lambda>_. True"
  by unfold_locales (simp_all add: bool_codec_def u8.roundtrip, simp_all add: uint_codec_def split: if_splits)

text \<open>A list fits: its elements are lawful, and with variable-sized elements its encoding is below 4 GiB.\<close>

definition list_ok :: "'a Codec \<Rightarrow> ('a \<Rightarrow> bool) \<Rightarrow> 'a list \<Rightarrow> bool" where
  "list_ok T P xs \<longleftrightarrow> (\<forall>x\<in>set xs. P x) \<and> codec_size T \<noteq> Some 0 \<and>
     (codec_size T = None \<longrightarrow> length (encode_list T xs) < 2 ^ 32)"

context codec_law
begin

lemma decode_list_ok: "list_ok T P xs \<Longrightarrow> decode_list T (encode_list T xs) = Ok xs"
  by (simp add: list_ok_def decode_list_encode)

lemma vec_law: "codec_law (vec_codec T) (list_ok T P)"
  by unfold_locales (simp_all add: vec_codec_def decode_list_ok VariableSize_def)

lemma maxvec_law: "codec_law (maxvec_codec T m) (\<lambda>xs. list_ok T P xs \<and> length xs \<le> m)"
  by unfold_locales (simp_all add: maxvec_codec_def decode_list_ok VariableSize_def at_most_def)

lemma array_length:
  "list_ok T P xs \<Longrightarrow> size_mul (codec_size T) (Some (length xs)) = Some n \<Longrightarrow> length (encode_list T xs) = n"
  by (cases "codec_size T") (auto simp: list_ok_def encode_list_length)

lemma array_law: "codec_law (array_codec T m) (\<lambda>xs. list_ok T P xs \<and> length xs = m)"
  by unfold_locales (auto simp: array_codec_def decode_list_ok exact_length_def array_length)

lemma vecarray_law: "codec_law (vecarray_codec T m) (\<lambda>xs. list_ok T P xs \<and> length xs = m)"
  by unfold_locales (auto simp: vecarray_codec_def decode_list_ok exact_length_def array_length)

end

lemma list_ok_uint [simp]: "list_ok (uint_codec :: u8 Codec) (\<lambda>_. True) xs" "list_ok (uint_codec :: u64 Codec) (\<lambda>_. True) ys"
  by (simp_all add: list_ok_def uint_codec_def)

text \<open>Compact arrays and lists of integers are the general ones at the codec of the integer.\<close>

lemma compact_uint_codecs:
  "uint_array_codec n = array_codec uint_codec n" "uint_vecarray_codec n = vecarray_codec uint_codec n"
  "uint_vec_codec = vec_codec uint_codec" "uint_maxvec_codec n = maxvec_codec uint_codec n"
  by (simp_all add: uint_array_codec_def array_codec_def uint_vecarray_codec_def vecarray_codec_def
      uint_vec_codec_def vec_codec_def uint_maxvec_codec_def maxvec_codec_def)

interpretation u8_array: codec_law "uint_array_codec m :: u8 list Codec" "\<lambda>xs. length xs = m" for m
  using u8.array_law [of m] by (simp add: compact_uint_codecs)

interpretation u64_vec: codec_law "uint_vec_codec :: u64 list Codec" "\<lambda>_. True"
proof -
  have "list_ok (uint_codec :: u64 Codec) (\<lambda>_. True) = (\<lambda>_. True)" by (simp add: fun_eq_iff)
  then show "codec_law (uint_vec_codec :: u64 list Codec) (\<lambda>_. True)" using u64.vec_law by (simp add: compact_uint_codecs)
qed

interpretation u64_maxvec: codec_law "uint_maxvec_codec m :: u64 list Codec" "\<lambda>xs. length xs \<le> m" for m
  using u64.maxvec_law [of m] by (simp add: compact_uint_codecs)

interpretation h256: codec_law h256_codec "\<lambda>xs. length xs = 32"
  by unfold_locales (simp_all add: h256_codec_def u8_array.roundtrip u8_array.encoded_length)

interpretation bits_array: codec_law "bits_array_codec m" "\<lambda>bits. length bits = m" for m
  using bits_roundtrip by unfold_locales (auto simp: bits_array_codec_def length_bits_encode)

interpretation bits_vecarray: codec_law "bits_vecarray_codec m" "\<lambda>bits. length bits = m" for m
  using bits_roundtrip by unfold_locales (auto simp: bits_vecarray_codec_def length_bits_encode)

interpretation bitlist: codec_law bitlist_codec "\<lambda>bits. length bits < 2 ^ 60"
  by unfold_locales (simp_all add: bitlist_codec_def bitlist_roundtrip VariableSize_def)

interpretation max_bitlist: codec_law "max_bitlist_codec m" "\<lambda>bits. length bits < 2 ^ 60 \<and> length bits \<le> m" for m
  by unfold_locales (simp_all add: max_bitlist_codec_def bitlist.roundtrip at_most_def VariableSize_def)

section \<open>Containers\<close>

text \<open>Fields that are read back from the parts they push, with the sizes the decoder asks for.\<close>

locale fields_law =
  fixes F :: "'a Fields" and Q :: "'a \<Rightarrow> bool"
  assumes items_decode: "Q y \<Longrightarrow> field_decode F (field_items F y) = Ok y"
    and items_sizes: "Q y \<Longrightarrow> map item_size (field_items F y) = decode_sizes F"
begin

lemma field_item_decode:
  assumes "codec_law T P" "P x" "is_fixed sz = is_fixed (codec_size T)"
  shows "decode_field sz T (field_item sz T x) = Ok x" "item_size (field_item sz T x) = codec_size T"
  using codec_law.roundtrip [OF assms(1,2)] codec_law.encoded_length [OF assms(1,2)] assms(3)
  by (auto simp: field_item_def is_fixed_def is_variable_def)

lemma add_field_law:
  assumes "codec_law T P" "is_fixed sz = is_fixed (codec_size T)"
  shows "fields_law (add_field sz T F) (\<lambda>(x, y). P x \<and> Q y)"
  by unfold_locales (auto simp: add_field_def items_decode items_sizes field_item_decode [OF assms(1) _ assms(2)])

lemma container_roundtrip:
  assumes "Q y" "length (series_encode (field_items F y)) < 2 ^ 32"
  shows "rbind (decode_vector (series_encode (field_items F y)) (decode_sizes F)) (field_decode F) = Ok y"
  using decode_vector_encode [OF assms(2)] items_sizes [OF assms(1)] items_decode [OF assms(1)] by simp

end

interpretation no_fields: fields_law no_fields "\<lambda>_. True"
  by unfold_locales (simp_all add: no_fields_def)


text \<open>A sum of sizes is a size only if all of them are, and then it is the length of the encoding.\<close>

lemma size_sum_length:
  "size_sum (map item_size ps) = Some n \<Longrightarrow> encode_tails ps = [] \<and> sum_list (map fixed_part_size ps) = n"
proof (induction "map item_size ps" arbitrary: ps n rule: size_sum.induct)
  case (1 s)
  then obtain p where "ps = [p]" by auto
  then show ?case using 1 by (cases p) auto
next
  case (2 s s' ss)
  then obtain p q qs where ps: "ps = p # q # qs" by auto
  obtain a b where ab: "item_size p = Some a" "size_sum (map item_size (q # qs)) = Some b" "n = a + b"
    using 2(3) unfolding ps by (cases "item_size p"; cases "size_sum (map item_size (q # qs))") auto
  have "encode_tails (q # qs) = [] \<and> sum_list (map fixed_part_size (q # qs)) = b"
    using 2(2) ab(2) by (intro 2(1)) (simp_all add: ps)
  then show ?case using ab unfolding ps by (cases p) auto
qed auto

lemma series_encode_size:
  "size_sum (map item_size ps) = Some n \<Longrightarrow> length (series_encode ps) = n"
  using size_sum_length by (simp add: series_encode_alt length_encode_heads)

lemma size_sum_None: "None \<in> set ss \<Longrightarrow> size_sum ss = None"
proof (induction ss rule: size_sum.induct)
  case (2 s s' ss)
  then show ?case by (cases s) auto
qed auto

context fields_law
begin

lemma container_law:
  assumes "\<And>x. P x \<Longrightarrow> Q (out x) \<and> mk (out x) = x \<and> length (series_encode (field_items F (out x))) < 2 ^ 32"
    and "declared_sizes F = decode_sizes F \<or> None \<in> set (declared_sizes F)"
  shows "codec_law (container_codec F out mk) P"
proof
  fix x assume x: "P x"
  then have r: "rbind (decode_vector (series_encode (field_items F (out x))) (decode_sizes F)) (field_decode F) = Ok (out x)"
    using container_roundtrip assms(1) by blast
  then show "decode (container_codec F out mk) (encode (container_codec F out mk) x) = Ok x"
    using assms(1) [OF x] by (auto simp: container_codec_def)
  fix n assume "codec_size (container_codec F out mk) = Some n"
  then have n: "size_sum (declared_sizes F) = Some n" by (simp add: container_codec_def)
  then have "declared_sizes F = decode_sizes F" using assms(2) size_sum_None by fastforce
  then show "length (encode (container_codec F out mk) x) = n"
    using n items_sizes assms(1) [OF x] series_encode_size [of "field_items F (out x)"] by (simp add: container_codec_def)
qed

end

section \<open>Properties of the encoding\<close>

text \<open>
  A series of fixed and variable parts is read back part by part from its encoding, given the
  sizes of the fixed ones, as long as the encoding is below 4 GiB.
\<close>

lemma series_roundtrip:
  assumes "length (series_encode ps) < 2 ^ 32"
  shows "decode_vector (series_encode ps) (map item_size ps) = Ok ps"
  using assms by (rule decode_vector_encode)

lemma top_bit:
  fixes b :: u8
  assumes "b \<noteq> 0"
  obtains k where "k < 8" "bit b k" "\<And>j. k < j \<Longrightarrow> j < 8 \<Longrightarrow> \<not> bit b j"
proof -
  let ?S = "{j. j < 8 \<and> bit b j}"
  have "finite ?S" by simp
  moreover have "?S \<noteq> {}" using assms by (auto simp: bit_eq_iff)
  ultimately have m: "Max ?S \<in> ?S" "\<forall>j\<in>?S. j \<le> Max ?S" using Max_in Max_ge by blast+
  show thesis
  proof (rule that)
    show "Max ?S < 8" "bit b (Max ?S)" using m(1) by blast+
    show "\<not> bit b j" if "Max ?S < j" "j < 8" for j using m(2) that leD by blast
  qed
qed

lemma bytes_eqI:
  assumes "length v = length w" "\<And>i. i div 8 < length v \<Longrightarrow> test_bit v i = test_bit w i"
  shows "v = w"
proof (rule nth_equalityI [OF assms(1)], rule bit_word_eqI)
  fix k j assume "k < length v" "j < LENGTH(8)"
  then show "bit (v ! k) j = bit (w ! k) j" using assms(2) [of "k * 8 + j"] by (simp add: test_bit_alt)
qed

text \<open>
  C30: Bit lists have exactly one encoding among the byte strings with a nonzero last byte: decoding
  inverts encoding, and whatever such a string decodes to is encoded as that string.
\<close>

theorem bitlist_canonical:
  assumes "length bits < 2 ^ 60" "v \<noteq> []" "last v \<noteq> 0" "length v < 2 ^ 60"
  shows "bitlist_decode (bitlist_encode bits) = Ok bits \<and>
    (\<exists>bs. bitlist_decode v = Ok bs \<and> bitlist_encode bs = v)"
proof -
  obtain k where k: "k < 8" "bit (last v) k" "\<And>j. k < j \<Longrightarrow> j < 8 \<Longrightarrow> \<not> bit (last v) j"
    using top_bit [OF assms(3)] by blast
  let ?n = "(length v - 1) * 8 + k"
  let ?bs = "map (test_bit v) [0..<?n]"
  have dec: "bitlist_decode v = Ok ?bs" by (rule bitlist_decode_bits [OF assms(2,4) k])
  have n: "length ?bs = ?n" "?n div 8 = length v - 1" using k(1) by simp_all
  note p = bitlist_encode_props [where bits = ?bs, unfolded n]
  have "bitlist_encode ?bs = v"
  proof (rule bytes_eqI)
    show len: "length (bitlist_encode ?bs) = length v" using p(1) assms(2) by (cases v) simp_all
    fix i assume i: "i div 8 < length (bitlist_encode ?bs)"
    then have "test_bit (bitlist_encode ?bs) i = (i < ?n \<and> test_bit v i \<or> i = ?n)"
      using p(3) [of i] len by auto
    moreover have "test_bit v i = (i < ?n \<and> test_bit v i \<or> i = ?n)"
    proof (cases "i < ?n")
      case False
      then have d: "i div 8 = length v - 1" using i len k(1) by linarith
      then have m: "i = (length v - 1) * 8 + i mod 8" by (metis div_mult_mod_eq)
      then have "k \<le> i mod 8" using False by linarith
      note d = d this
      then have "test_bit v i = bit (last v) (i mod 8)" using assms(2) by (simp add: test_bit_alt last_conv_nth)
      moreover have "i = ?n \<longleftrightarrow> i mod 8 = k" using m by linarith
      moreover have "bit (last v) (i mod 8) \<longleftrightarrow> i mod 8 = k"
        using k(2) k(3) [of "i mod 8"] d(2) by (cases "i mod 8 = k") simp_all
      ultimately show ?thesis using False by simp
    qed simp
    ultimately show "test_bit (bitlist_encode ?bs) i = test_bit v i" by blast
  qed
  then show ?thesis using dec bitlist_roundtrip [OF assms(1)] by blast
qed

theorem bitlist_canonical_witness:
  "bitlist_decode (bitlist_encode [True, False, True]) = Ok [True, False, True] \<and>
   (\<exists>bs. bitlist_decode [5, 3] = Ok bs \<and> bitlist_encode bs = [5, 3])"
  using bitlist_canonical [of "[True, False, True]" "[5, 3]"] by simp

text \<open>
  A bit list whose marker is missing, that is, a byte string that ends in a zero byte, is not refused:
  with at least two bytes it decodes to all its bits but the last nine, so two byte strings decode to the same
  list; an empty byte string panics.
\<close>

lemma bitlist_decode_no_marker:
  assumes "length v < 2 ^ 60" "1 \<le> length v"
  shows "bitlist_decode (v @ [0]) = Ok (map (test_bit v) [0..<8 * length v - 1]) \<and> bitlist_decode [] = Panic"
proof -
  let ?v = "v @ [0]"
  have l: "unat (len64 ?v - 1) = length v" "len64 ?v - 1 = of_nat (length v)"
    using assms by (simp_all add: len64_def unat_of_nat)
  have e: "vec_index ?v (len64 ?v - 1) = (Ok 0 :: u8 ssz)" using l by (simp add: vec_index_def)
  have d: "bitlist_decode ?v = bitlist_loop ?v (of_nat (8 * length v) - 1) 0 []"
    unfolding bitlist_decode_def e unfolding l(2) by (simp add: leading_zeros_0 algebra_simps)
  have u: "unat (of_nat (8 * length v) - 1 :: u64) = 8 * length v - 1"
  proof -
    have "(of_nat (8 * length v) :: u64) - 1 = of_nat (8 * length v - 1)" using assms(2) by (simp add: of_nat_diff)
    then show ?thesis using assms(1) by (simp only: unat_of_nat) simp
  qed
  have "map (test_bit ?v) [0..<8 * length v - 1] = map (test_bit v) [0..<8 * length v - 1]"
    by (auto simp: test_bit_def nth_append intro!: map_cong)
  moreover have "bitlist_decode [] = Panic" by (simp add: bitlist_decode_def vec_index_def len64_def)
  ultimately show ?thesis using d u bitlist_loop_reads [of "of_nat (8 * length v) - 1" ?v 0 "[]"] by simp
qed

end
