(* ===== verification/SSZ_Types.thy ===== *)
theory SSZ_Types
  imports SSZ Beacon_Utils
begin

text \<open>
  The SimpleSerialize codecs of the structs of the \<^verbatim>\<open>beacon\<close> crate, as the derive macros generate them from
  the declarations in \<^verbatim>\<open>types/misc.rs\<close>, \<^verbatim>\<open>types/operation.rs\<close>, \<^verbatim>\<open>types/block.rs\<close> and
  \<^verbatim>\<open>executive/mod.rs\<close>, and of the fixed hashes of \<^verbatim>\<open>primitives/src/macros.rs\<close>. A struct is a
  container of the tuple of its fields. The lengths that Rust keeps in the types
  (\<^verbatim>\<open>H256\<close>, \<^verbatim>\<open>VecArray\<close>, \<^verbatim>\<open>MaxVec\<close>) are the predicates \<open>.._ok\<close>; every value with these
  lengths whose encoding is below 4 GiB, the range of the 32-bit offsets, is decoded from its encoding.
\<close>

section \<open>Codecs\<close>

subsection \<open>Fixed hashes (primitives/src/macros.rs)\<close>

definition fixed_hash_codec :: "nat \<Rightarrow> bytes Codec" where
  "fixed_hash_codec n = \<lparr>
     codec_size = Some n,
     encode = encode (uint_array_codec n),
     decode = decode (uint_array_codec n)\<rparr>"

definition ValidatorId_codec :: "ValidatorId Codec" where
  "ValidatorId_codec = fixed_hash_codec 48"

definition Signature_codec :: "Signature Codec" where
  "Signature_codec = fixed_hash_codec 96"

definition Version_codec :: "Version Codec" where
  "Version_codec = fixed_hash_codec 4"

abbreviation Uint_codec :: "Uint Codec" where
  "Uint_codec \<equiv> uint_codec"

subsection \<open>types/misc.rs\<close>

definition Fork_codec :: "Fork Codec" where
  "Fork_codec = container_codec
     (field Version_codec (field Version_codec (field Uint_codec no_fields)))
     (\<lambda>f. (previous_version f, current_version f, fork_epoch f, ()))
     (\<lambda>(p, c, e, _). \<lparr>previous_version = p, current_version = c, fork_epoch = e\<rparr>)"

definition Checkpoint_codec :: "Checkpoint Codec" where
  "Checkpoint_codec = container_codec
     (field Uint_codec (field h256_codec no_fields))
     (\<lambda>c. (epoch c, root c, ()))
     (\<lambda>(e, r, _). \<lparr>epoch = e, root = r\<rparr>)"

definition Validator_codec :: "Validator Codec" where
  "Validator_codec = container_codec
     (field ValidatorId_codec (field h256_codec (field Uint_codec (field bool_codec
       (field Uint_codec (field Uint_codec (field Uint_codec (field Uint_codec no_fields))))))))
     (\<lambda>v. (pubkey v, withdrawal_credentials v, effective_balance v, slashed v,
       activation_eligibility_epoch v, activation_epoch v, exit_epoch v, withdrawable_epoch v, ()))
     (\<lambda>(p, c, b, s, el, a, x, w, _). \<lparr>pubkey = p, withdrawal_credentials = c, effective_balance = b, slashed = s,
       activation_eligibility_epoch = el, activation_epoch = a, exit_epoch = x, withdrawable_epoch = w\<rparr>)"

definition AttestationData_codec :: "AttestationData Codec" where
  "AttestationData_codec = container_codec
     (field Uint_codec (field Uint_codec (field h256_codec
       (field Checkpoint_codec (field Checkpoint_codec no_fields)))))
     (\<lambda>d. (ad_slot d, ad_index d, beacon_block_root d, source d, target d, ()))
     (\<lambda>(s, i, b, so, t, _). \<lparr>ad_slot = s, ad_index = i, beacon_block_root = b, source = so, target = t\<rparr>)"

definition IndexedAttestation_codec :: "Config \<Rightarrow> IndexedAttestation Codec" where
  "IndexedAttestation_codec C = container_codec
     (let indices = uint_maxvec_codec (unat (max_validators_per_committee C)) in
      add_field VariableSize indices (add_field VariableSize indices
       (field AttestationData_codec (field Signature_codec no_fields))))
     (\<lambda>a. (custody_bit_0_indices a, custody_bit_1_indices a, ia_data a, ia_signature a, ()))
     (\<lambda>(i, j, d, s, _). \<lparr>custody_bit_0_indices = i, custody_bit_1_indices = j, ia_data = d, ia_signature = s\<rparr>)"

definition PendingAttestation_codec :: "Config \<Rightarrow> PendingAttestation Codec" where
  "PendingAttestation_codec C = container_codec
     (add_field VariableSize (max_bitlist_codec (unat (max_validators_per_committee C)))
       (field AttestationData_codec (field Uint_codec (field Uint_codec no_fields))))
     (\<lambda>a. (pa_aggregation_bits a, pa_data a, inclusion_delay a, pa_proposer_index a, ()))
     (\<lambda>(b, d, i, p, _). \<lparr>pa_aggregation_bits = b, pa_data = d, inclusion_delay = i, pa_proposer_index = p\<rparr>)"

definition Eth1Data_codec :: "Eth1Data Codec" where
  "Eth1Data_codec = container_codec
     (field h256_codec (field Uint_codec (field h256_codec no_fields)))
     (\<lambda>d. (deposit_root d, deposit_count d, block_hash d, ()))
     (\<lambda>(r, n, h, _). \<lparr>deposit_root = r, deposit_count = n, block_hash = h\<rparr>)"

definition DepositData_codec :: "DepositData Codec" where
  "DepositData_codec = container_codec
     (field ValidatorId_codec (field h256_codec (field Uint_codec (field Signature_codec no_fields))))
     (\<lambda>d. (dd_pubkey d, dd_withdrawal_credentials d, dd_amount d, dd_signature d, ()))
     (\<lambda>(p, c, a, s, _). \<lparr>dd_pubkey = p, dd_withdrawal_credentials = c, dd_amount = a, dd_signature = s\<rparr>)"

definition BeaconBlockHeader_codec :: "BeaconBlockHeader Codec" where
  "BeaconBlockHeader_codec = container_codec
     (field Uint_codec (field h256_codec (field h256_codec (field h256_codec (field Signature_codec no_fields)))))
     (\<lambda>h. (bh_slot h, bh_parent_root h, bh_state_root h, bh_body_root h, bh_signature h, ()))
     (\<lambda>(s, p, t, b, g, _). \<lparr>bh_slot = s, bh_parent_root = p, bh_state_root = t, bh_body_root = b, bh_signature = g\<rparr>)"

subsection \<open>types/operation.rs\<close>

definition ProposerSlashing_codec :: "ProposerSlashing Codec" where
  "ProposerSlashing_codec = container_codec
     (field Uint_codec (field BeaconBlockHeader_codec (field BeaconBlockHeader_codec no_fields)))
     (\<lambda>s. (ps_proposer_index s, header_1 s, header_2 s, ()))
     (\<lambda>(i, h, k, _). \<lparr>ps_proposer_index = i, header_1 = h, header_2 = k\<rparr>)"

definition AttesterSlashing_codec :: "Config \<Rightarrow> AttesterSlashing Codec" where
  "AttesterSlashing_codec C = container_codec
     (field (IndexedAttestation_codec C) (field (IndexedAttestation_codec C) no_fields))
     (\<lambda>s. (attestation_1 s, attestation_2 s, ()))
     (\<lambda>(a, b, _). \<lparr>attestation_1 = a, attestation_2 = b\<rparr>)"

definition Attestation_codec :: "Config \<Rightarrow> Attestation Codec" where
  "Attestation_codec C = container_codec
     (let bits = max_bitlist_codec (unat (max_validators_per_committee C)) in
      add_field VariableSize bits (field AttestationData_codec
       (add_field VariableSize bits (field Signature_codec no_fields))))
     (\<lambda>a. (aggregation_bits a, at_data a, custody_bits a, at_signature a, ()))
     (\<lambda>(b, d, c, s, _). \<lparr>aggregation_bits = b, at_data = d, custody_bits = c, at_signature = s\<rparr>)"

definition Deposit_codec :: "Deposit Codec" where
  "Deposit_codec = container_codec
     (field (vecarray_codec h256_codec (unat DEPOSIT_CONTRACT_TREE_DEPTH + 1)) (field DepositData_codec no_fields))
     (\<lambda>d. (proof_branch d, dep_data d, ()))
     (\<lambda>(b, d, _). \<lparr>proof_branch = b, dep_data = d\<rparr>)"

definition VoluntaryExit_codec :: "VoluntaryExit Codec" where
  "VoluntaryExit_codec = container_codec
     (field Uint_codec (field Uint_codec (field Signature_codec no_fields)))
     (\<lambda>v. (ve_epoch v, ve_validator_index v, ve_signature v, ()))
     (\<lambda>(e, i, s, _). \<lparr>ve_epoch = e, ve_validator_index = i, ve_signature = s\<rparr>)"

subsection \<open>types/block.rs\<close>

definition BeaconBlockBody_codec :: "Config \<Rightarrow> BeaconBlockBody Codec" where
  "BeaconBlockBody_codec C = container_codec
     (field Signature_codec (field Eth1Data_codec (field h256_codec
       (field (maxvec_codec ProposerSlashing_codec (unat (max_proposer_slashings C)))
       (field (maxvec_codec (AttesterSlashing_codec C) (unat (max_attester_slashings C)))
       (field (maxvec_codec (Attestation_codec C) (unat (max_attestations C)))
       (field (maxvec_codec Deposit_codec (unat (max_deposits C)))
       (field (maxvec_codec VoluntaryExit_codec (unat (max_voluntary_exits C))) no_fields))))))))
     (\<lambda>b. (randao_reveal b, body_eth1_data b, graffiti b, proposer_slashings b, attester_slashings b,
       attestations b, deposits b, voluntary_exits b, ()))
     (\<lambda>(r, e, g, ps, ats, as, ds, vs, _). \<lparr>randao_reveal = r, body_eth1_data = e, graffiti = g,
       proposer_slashings = ps, attester_slashings = ats, attestations = as, deposits = ds, voluntary_exits = vs\<rparr>)"

definition BeaconBlock_codec :: "Config \<Rightarrow> BeaconBlock Codec" where
  "BeaconBlock_codec C = container_codec
     (field Uint_codec (field h256_codec (field h256_codec
       (field (BeaconBlockBody_codec C) (field Signature_codec no_fields)))))
     (\<lambda>b. (bb_slot b, bb_parent_root b, bb_state_root b, bb_body b, bb_signature b, ()))
     (\<lambda>(s, p, t, b, g, _). \<lparr>bb_slot = s, bb_parent_root = p, bb_state_root = t, bb_body = b, bb_signature = g\<rparr>)"

definition UnsealedBeaconBlock_codec :: "Config \<Rightarrow> UnsealedBeaconBlock Codec" where
  "UnsealedBeaconBlock_codec C = container_codec
     (field Uint_codec (field h256_codec (field h256_codec (field (BeaconBlockBody_codec C) no_fields))))
     (\<lambda>b. (ub_slot b, ub_parent_root b, ub_state_root b, ub_body b, ()))
     (\<lambda>(s, p, t, b, _). \<lparr>ub_slot = s, ub_parent_root = p, ub_state_root = t, ub_body = b\<rparr>)"

subsection \<open>executive/mod.rs\<close>

text \<open>
  The field \<^verbatim>\<open>justification_bits\<close> is compact: its declared size is the one of an array of four booleans, but it
  is encoded as a bit field of one byte.
\<close>

definition BeaconState_codec :: "Config \<Rightarrow> BeaconState Codec" where
  "BeaconState_codec C = container_codec
     (field Uint_codec (field Uint_codec (field Fork_codec (field BeaconBlockHeader_codec
       (field (vecarray_codec h256_codec (unat (slots_per_historical_root C)))
       (field (vecarray_codec h256_codec (unat (slots_per_historical_root C)))
       (field (maxvec_codec h256_codec (unat (historical_roots_limit C)))
       (field Eth1Data_codec
       (field (maxvec_codec Eth1Data_codec (unat (slots_per_eth1_voting_period C)))
       (field Uint_codec
       (field (maxvec_codec Validator_codec (unat (validator_registry_limit C)))
       (add_field VariableSize (uint_maxvec_codec (unat (validator_registry_limit C)))
       (field (vecarray_codec h256_codec (unat (epochs_per_historical_vector C)))
       (add_field (codec_size (vecarray_codec Uint_codec (unat (epochs_per_slashings_vector C))))
         (uint_vecarray_codec (unat (epochs_per_slashings_vector C)))
       (field (maxvec_codec (PendingAttestation_codec C) (unat (max_attestations_per_epoch C)))
       (field (maxvec_codec (PendingAttestation_codec C) (unat (max_attestations_per_epoch C)))
       (add_field (codec_size (vecarray_codec bool_codec JustificationBitsLength))
         (bits_vecarray_codec JustificationBitsLength)
       (field Checkpoint_codec (field Checkpoint_codec (field Checkpoint_codec no_fields))))))))))))))))))))
     (\<lambda>s. (genesis_time s, slot s, fork s, latest_block_header s, block_roots s, state_roots s, historical_roots s,
       eth1_data s, eth1_data_votes s, eth1_deposit_index s, validators s, balances s, randao_mixes s, slashings s,
       previous_epoch_attestations s, current_epoch_attestations s, justification_bits s,
       previous_justified_checkpoint s, current_justified_checkpoint s, finalized_checkpoint s, ()))
     (\<lambda>(t, sl, f, h, br, sr, hr, e, ev, ei, vs, bs, rm, ss, pa, ca, jb, pj, cj, fc, _).
       \<lparr>genesis_time = t, slot = sl, fork = f, latest_block_header = h, block_roots = br, state_roots = sr,
        historical_roots = hr, eth1_data = e, eth1_data_votes = ev, eth1_deposit_index = ei, validators = vs,
        balances = bs, randao_mixes = rm, slashings = ss, previous_epoch_attestations = pa,
        current_epoch_attestations = ca, justification_bits = jb, previous_justified_checkpoint = pj,
        current_justified_checkpoint = cj, finalized_checkpoint = fc\<rparr>)"

section \<open>Lawful codecs\<close>

text \<open>
  A codec is lawful at a predicate if it satisfies the law for the values of the predicate whose encoding the 32-bit
  offsets can address. In this form the law passes from the fields of a container to the container
  without a side condition on sizes.
\<close>

definition fits :: "'a Codec \<Rightarrow> ('a \<Rightarrow> bool) \<Rightarrow> 'a \<Rightarrow> bool" where
  "fits T P x \<longleftrightarrow> P x \<and> length (encode T x) < 2 ^ 32"

fun payload :: "SeriesItem \<Rightarrow> bytes" where
  "payload (Fixed f) = f"
| "payload (Variable v) = v"

definition fields_fit :: "'a Fields \<Rightarrow> ('a \<Rightarrow> bool) \<Rightarrow> 'a \<Rightarrow> bool" where
  "fields_fit F Q y \<longleftrightarrow> Q y \<and> (\<forall>p\<in>set (field_items F y). length (payload p) < 2 ^ 32)"

abbreviation lawful :: "'a Codec \<Rightarrow> ('a \<Rightarrow> bool) \<Rightarrow> bool" where
  "lawful T P \<equiv> codec_law T (fits T P)"

abbreviation lawful_fields :: "'a Fields \<Rightarrow> ('a \<Rightarrow> bool) \<Rightarrow> bool" where
  "lawful_fields F Q \<equiv> fields_law F (fields_fit F Q)"

named_theorems codec_laws \<open>codecs and fields that satisfy their law\<close>

lemma codec_law_mono: "codec_law T P \<Longrightarrow> (\<And>x. Q x \<Longrightarrow> P x) \<Longrightarrow> codec_law T Q"
  by (auto simp: codec_law_def)

lemma lawfulI: "codec_law T P \<Longrightarrow> lawful T P"
  by (erule codec_law_mono) (simp add: fits_def)

lemma fields_law_mono: "fields_law F P \<Longrightarrow> (\<And>x. Q x \<Longrightarrow> P x) \<Longrightarrow> fields_law F Q"
  by (auto simp: fields_law_def)

lemma payload_le: "p \<in> set ps \<Longrightarrow> length (payload p) \<le> length (series_encode ps)"
proof -
  have "length (payload p) \<le> sum_list (map fixed_part_size ps) + length (encode_tails ps)" if "p \<in> set ps"
    using that by (induction ps rule: encode_tails.induct) (auto simp: trans_le_add1 trans_le_add2)
  then show "p \<in> set ps \<Longrightarrow> ?thesis" by (simp add: series_encode_alt length_encode_heads)
qed

lemma no_fields_lawful [codec_laws]: "lawful_fields no_fields (\<lambda>_. True)"
  by (rule fields_law_mono [OF no_fields.fields_law_axioms]) simp

lemma payload_field_item [simp]: "payload (field_item sz T x) = encode T x"
  by (simp add: field_item_def)

lemma payload_series_item [simp]: "payload (series_item T x) = encode T x"
  by (simp add: series_item_def)

lemma add_field_lawful:
  assumes "lawful T P" "lawful_fields F Q" "is_fixed sz = is_fixed (codec_size T)"
  shows "lawful_fields (add_field sz T F) (\<lambda>(x, y). P x \<and> Q y)"
  by (rule fields_law_mono [OF fields_law.add_field_law [OF assms(2,1,3)]])
    (auto simp: fields_fit_def fits_def add_field_def)

lemma field_lawful [codec_laws]:
  "lawful T P \<Longrightarrow> lawful_fields F Q \<Longrightarrow> lawful_fields (field T F) (\<lambda>(x, y). P x \<and> Q y)"
  by (rule add_field_lawful) auto

lemma container_lawful:
  assumes F: "lawful_fields F Q"
    and P: "\<And>x. P x \<Longrightarrow> Q (out x) \<and> mk (out x) = x"
    and sz: "declared_sizes F = decode_sizes F \<or> None \<in> set (declared_sizes F)"
  shows "lawful (container_codec F out mk) P"
proof (rule fields_law.container_law [OF F _ sz])
  fix x assume "fits (container_codec F out mk) P x"
  then have x: "P x" "length (series_encode (field_items F (out x))) < 2 ^ 32"
    by (simp_all add: fits_def container_codec_def)
  then have "fields_fit F Q (out x)" using P payload_le by (fastforce simp: fields_fit_def)
  then show "fields_fit F Q (out x) \<and> mk (out x) = x \<and> length (series_encode (field_items F (out x))) < 2 ^ 32"
    using x P by blast
qed

lemma list_fits:
  assumes "\<forall>x\<in>set xs. P x" "codec_size T \<noteq> Some 0" "length (encode_list T xs) < 2 ^ 32"
  shows "list_ok T (fits T P) xs"
proof -
  have "length (encode T x) < 2 ^ 32" if "x \<in> set xs" for x
    using payload_le [of "series_item T x" "map (series_item T) xs"] that assms(3)
    by (simp add: encode_list_def order.strict_trans1)
  then show ?thesis using assms by (simp add: list_ok_def fits_def)
qed

lemma maxvec_lawful [codec_laws]:
  assumes "lawful T P" "codec_size T \<noteq> Some 0"
  shows "lawful (maxvec_codec T m) (\<lambda>xs. (\<forall>x\<in>set xs. P x) \<and> length xs \<le> m)"
  by (rule codec_law_mono [OF codec_law.maxvec_law [OF assms(1)]])
    (auto simp: fits_def maxvec_codec_def intro!: list_fits assms(2))

lemma vecarray_lawful [codec_laws]:
  assumes "lawful T P" "codec_size T \<noteq> Some 0"
  shows "lawful (vecarray_codec T m) (\<lambda>xs. (\<forall>x\<in>set xs. P x) \<and> length xs = m)"
  by (rule codec_law_mono [OF codec_law.vecarray_law [OF assms(1)]])
    (auto simp: fits_def vecarray_codec_def intro!: list_fits assms(2))

lemma fixed_hash_law: "codec_law (fixed_hash_codec n) (\<lambda>xs. length xs = n)"
  using u8_array.roundtrip u8_array.encoded_length
  by unfold_locales (auto simp: fixed_hash_codec_def compact_uint_codecs array_codec_def uint_codec_def)

lemma max_bitlist_lawful [codec_laws]: "lawful (max_bitlist_codec m) (\<lambda>bits. length bits \<le> m)"
proof (rule codec_law_mono [OF max_bitlist.codec_law_axioms])
  fix bits assume "fits (max_bitlist_codec m) (\<lambda>bits. length bits \<le> m) bits"
  then have "length bits div 8 + 1 < 2 ^ 32" "length bits \<le> m"
    using bitlist_encode_props(1) [of bits] by (simp_all add: fits_def max_bitlist_codec_def bitlist_codec_def)
  then show "length bits < 2 ^ 60 \<and> length bits \<le> m" by simp
qed

lemmas base_laws [codec_laws] =
  lawfulI [OF u64.codec_law_axioms] lawfulI [OF bool.codec_law_axioms] lawfulI [OF h256.codec_law_axioms]
  lawfulI [OF u64_maxvec.codec_law_axioms] lawfulI [OF bits_vecarray.codec_law_axioms]
  lawfulI [OF fixed_hash_law]

lemma add_field_sel [simp]:
  "declared_sizes (add_field sz T F) = sz # declared_sizes F" "decode_sizes (add_field sz T F) = codec_size T # decode_sizes F"
  "declared_sizes no_fields = []" "decode_sizes no_fields = []"
  by (simp_all add: add_field_def no_fields_def)

lemma codec_size_simps [simp]:
  "codec_size (container_codec F out mk) = size_sum (declared_sizes F)"
  "codec_size Uint_codec = Some 8" "codec_size bool_codec = Some 1" "codec_size h256_codec = Some 32"
  "codec_size (fixed_hash_codec n) = Some n" "codec_size (maxvec_codec T m) = None"
  "codec_size (vecarray_codec T m) = size_mul (codec_size T) (Some m)"
  "codec_size (uint_maxvec_codec m :: Uint list Codec) = None" "codec_size (max_bitlist_codec m) = None"
  "codec_size (bits_vecarray_codec m) = Some ((m + 7) div 8)"
  "codec_size (uint_vecarray_codec m :: Uint list Codec) = Some (8 * m)"
  by (simp_all add: container_codec_def uint_codec_def bool_codec_def h256_codec_def fixed_hash_codec_def
      maxvec_codec_def vecarray_codec_def uint_maxvec_codec_def max_bitlist_codec_def bits_vecarray_codec_def
      uint_vecarray_codec_def uint_array_codec_def VariableSize_def)

section \<open>The structs\<close>

lemmas hash_codecs = ValidatorId_codec_def Signature_codec_def Version_codec_def

lemma struct_sizes [simp]:
  "codec_size Fork_codec = Some 16" "codec_size Checkpoint_codec = Some 40" "codec_size Validator_codec = Some 121"
  "codec_size AttestationData_codec = Some 128" "codec_size Eth1Data_codec = Some 72"
  "codec_size DepositData_codec = Some 184" "codec_size BeaconBlockHeader_codec = Some 200"
  by (simp_all add: Fork_codec_def Checkpoint_codec_def Validator_codec_def AttestationData_codec_def
      Eth1Data_codec_def DepositData_codec_def BeaconBlockHeader_codec_def hash_codecs)

text \<open>The lengths that the types of the source fix.\<close>

definition Fork_ok :: "Fork \<Rightarrow> bool" where
  "Fork_ok f \<longleftrightarrow> length (previous_version f) = 4 \<and> length (current_version f) = 4"

definition Checkpoint_ok :: "Checkpoint \<Rightarrow> bool" where
  "Checkpoint_ok c \<longleftrightarrow> length (root c) = 32"

definition Validator_ok :: "Validator \<Rightarrow> bool" where
  "Validator_ok v \<longleftrightarrow> length (pubkey v) = 48 \<and> length (withdrawal_credentials v) = 32"

definition AttestationData_ok :: "AttestationData \<Rightarrow> bool" where
  "AttestationData_ok d \<longleftrightarrow> length (beacon_block_root d) = 32 \<and> Checkpoint_ok (source d) \<and> Checkpoint_ok (target d)"

definition IndexedAttestation_ok :: "Config \<Rightarrow> IndexedAttestation \<Rightarrow> bool" where
  "IndexedAttestation_ok C a \<longleftrightarrow>
     length (custody_bit_0_indices a) \<le> unat (max_validators_per_committee C) \<and>
     length (custody_bit_1_indices a) \<le> unat (max_validators_per_committee C) \<and>
     AttestationData_ok (ia_data a) \<and> length (ia_signature a) = 96"

definition PendingAttestation_ok :: "Config \<Rightarrow> PendingAttestation \<Rightarrow> bool" where
  "PendingAttestation_ok C a \<longleftrightarrow>
     length (pa_aggregation_bits a) \<le> unat (max_validators_per_committee C) \<and> AttestationData_ok (pa_data a)"

definition Eth1Data_ok :: "Eth1Data \<Rightarrow> bool" where
  "Eth1Data_ok d \<longleftrightarrow> length (deposit_root d) = 32 \<and> length (block_hash d) = 32"

definition DepositData_ok :: "DepositData \<Rightarrow> bool" where
  "DepositData_ok d \<longleftrightarrow>
     length (dd_pubkey d) = 48 \<and> length (dd_withdrawal_credentials d) = 32 \<and> length (dd_signature d) = 96"

definition BeaconBlockHeader_ok :: "BeaconBlockHeader \<Rightarrow> bool" where
  "BeaconBlockHeader_ok h \<longleftrightarrow> length (bh_parent_root h) = 32 \<and> length (bh_state_root h) = 32 \<and>
     length (bh_body_root h) = 32 \<and> length (bh_signature h) = 96"

definition ProposerSlashing_ok :: "ProposerSlashing \<Rightarrow> bool" where
  "ProposerSlashing_ok s \<longleftrightarrow> BeaconBlockHeader_ok (header_1 s) \<and> BeaconBlockHeader_ok (header_2 s)"

definition AttesterSlashing_ok :: "Config \<Rightarrow> AttesterSlashing \<Rightarrow> bool" where
  "AttesterSlashing_ok C s \<longleftrightarrow> IndexedAttestation_ok C (attestation_1 s) \<and> IndexedAttestation_ok C (attestation_2 s)"

definition Attestation_ok :: "Config \<Rightarrow> Attestation \<Rightarrow> bool" where
  "Attestation_ok C a \<longleftrightarrow>
     length (aggregation_bits a) \<le> unat (max_validators_per_committee C) \<and> AttestationData_ok (at_data a) \<and>
     length (custody_bits a) \<le> unat (max_validators_per_committee C) \<and> length (at_signature a) = 96"

definition Deposit_ok :: "Deposit \<Rightarrow> bool" where
  "Deposit_ok d \<longleftrightarrow> (\<forall>h\<in>set (proof_branch d). length h = 32) \<and>
     length (proof_branch d) = unat DEPOSIT_CONTRACT_TREE_DEPTH + 1 \<and> DepositData_ok (dep_data d)"

definition VoluntaryExit_ok :: "VoluntaryExit \<Rightarrow> bool" where
  "VoluntaryExit_ok v \<longleftrightarrow> length (ve_signature v) = 96"

definition BeaconBlockBody_ok :: "Config \<Rightarrow> BeaconBlockBody \<Rightarrow> bool" where
  "BeaconBlockBody_ok C b \<longleftrightarrow>
     length (randao_reveal b) = 96 \<and> Eth1Data_ok (body_eth1_data b) \<and> length (graffiti b) = 32 \<and>
     (\<forall>x\<in>set (proposer_slashings b). ProposerSlashing_ok x) \<and>
     length (proposer_slashings b) \<le> unat (max_proposer_slashings C) \<and>
     (\<forall>x\<in>set (attester_slashings b). AttesterSlashing_ok C x) \<and>
     length (attester_slashings b) \<le> unat (max_attester_slashings C) \<and>
     (\<forall>x\<in>set (attestations b). Attestation_ok C x) \<and> length (attestations b) \<le> unat (max_attestations C) \<and>
     (\<forall>x\<in>set (deposits b). Deposit_ok x) \<and> length (deposits b) \<le> unat (max_deposits C) \<and>
     (\<forall>x\<in>set (voluntary_exits b). VoluntaryExit_ok x) \<and>
     length (voluntary_exits b) \<le> unat (max_voluntary_exits C)"

definition BeaconBlock_ok :: "Config \<Rightarrow> BeaconBlock \<Rightarrow> bool" where
  "BeaconBlock_ok C b \<longleftrightarrow> length (bb_parent_root b) = 32 \<and> length (bb_state_root b) = 32 \<and>
     BeaconBlockBody_ok C (bb_body b) \<and> length (bb_signature b) = 96"

definition UnsealedBeaconBlock_ok :: "Config \<Rightarrow> UnsealedBeaconBlock \<Rightarrow> bool" where
  "UnsealedBeaconBlock_ok C b \<longleftrightarrow> length (ub_parent_root b) = 32 \<and> length (ub_state_root b) = 32 \<and>
     BeaconBlockBody_ok C (ub_body b)"

text \<open>Each law follows from the laws of the fields.\<close>

lemma Fork_lawful [codec_laws]: "lawful Fork_codec Fork_ok"
  unfolding Fork_codec_def hash_codecs
  by (rule container_lawful, (rule codec_laws)+) (simp_all add: Fork_ok_def)

lemma Checkpoint_lawful [codec_laws]: "lawful Checkpoint_codec Checkpoint_ok"
  unfolding Checkpoint_codec_def
  by (rule container_lawful, (rule codec_laws)+) (simp_all add: Checkpoint_ok_def)

lemma Validator_lawful [codec_laws]: "lawful Validator_codec Validator_ok"
  unfolding Validator_codec_def hash_codecs
  by (rule container_lawful, (rule codec_laws)+) (simp_all add: Validator_ok_def)

lemma AttestationData_lawful [codec_laws]: "lawful AttestationData_codec AttestationData_ok"
  unfolding AttestationData_codec_def
  by (rule container_lawful, (rule codec_laws)+) (simp_all add: AttestationData_ok_def)

lemma variable_field_lawful [codec_laws]:
  "lawful T P \<Longrightarrow> lawful_fields F Q \<Longrightarrow> codec_size T = None \<Longrightarrow>
   lawful_fields (add_field VariableSize T F) (\<lambda>(x, y). P x \<and> Q y)"
  by (rule add_field_lawful) (simp_all add: VariableSize_def)

lemma IndexedAttestation_lawful [codec_laws]: "lawful (IndexedAttestation_codec C) (IndexedAttestation_ok C)"
  unfolding IndexedAttestation_codec_def Let_def hash_codecs
  by (rule container_lawful, (rule codec_laws | simp add: IndexedAttestation_ok_def VariableSize_def)+)

lemma PendingAttestation_lawful [codec_laws]: "lawful (PendingAttestation_codec C) (PendingAttestation_ok C)"
  unfolding PendingAttestation_codec_def
  by (rule container_lawful, (rule codec_laws | simp add: PendingAttestation_ok_def VariableSize_def)+)

lemma Eth1Data_lawful [codec_laws]: "lawful Eth1Data_codec Eth1Data_ok"
  unfolding Eth1Data_codec_def
  by (rule container_lawful, (rule codec_laws | simp add: Eth1Data_ok_def)+)

lemma DepositData_lawful [codec_laws]: "lawful DepositData_codec DepositData_ok"
  unfolding DepositData_codec_def hash_codecs
  by (rule container_lawful, (rule codec_laws | simp add: DepositData_ok_def)+)

lemma BeaconBlockHeader_lawful [codec_laws]: "lawful BeaconBlockHeader_codec BeaconBlockHeader_ok"
  unfolding BeaconBlockHeader_codec_def hash_codecs
  by (rule container_lawful, (rule codec_laws | simp add: BeaconBlockHeader_ok_def)+)

lemma ProposerSlashing_lawful [codec_laws]: "lawful ProposerSlashing_codec ProposerSlashing_ok"
  unfolding ProposerSlashing_codec_def
  by (rule container_lawful, (rule codec_laws | simp add: ProposerSlashing_ok_def)+)

lemma AttesterSlashing_lawful [codec_laws]: "lawful (AttesterSlashing_codec C) (AttesterSlashing_ok C)"
  unfolding AttesterSlashing_codec_def
  by (rule container_lawful, (rule codec_laws | simp add: AttesterSlashing_ok_def)+)

lemma Attestation_lawful [codec_laws]: "lawful (Attestation_codec C) (Attestation_ok C)"
  unfolding Attestation_codec_def Let_def hash_codecs
  by (rule container_lawful, (rule codec_laws | simp add: Attestation_ok_def VariableSize_def)+)

lemma Deposit_lawful [codec_laws]: "lawful Deposit_codec Deposit_ok"
  unfolding Deposit_codec_def
  by (rule container_lawful, (rule codec_laws | simp add: Deposit_ok_def)+)

lemma VoluntaryExit_lawful [codec_laws]: "lawful VoluntaryExit_codec VoluntaryExit_ok"
  unfolding VoluntaryExit_codec_def hash_codecs
  by (rule container_lawful, (rule codec_laws | simp add: VoluntaryExit_ok_def)+)

lemma operation_sizes [simp]:
  "codec_size ProposerSlashing_codec = Some 408" "codec_size (AttesterSlashing_codec C) = None"
  "codec_size (Attestation_codec C) = None" "codec_size Deposit_codec = Some 1240"
  "codec_size VoluntaryExit_codec = Some 112" "codec_size (PendingAttestation_codec C) = None"
  by (simp_all add: ProposerSlashing_codec_def AttesterSlashing_codec_def IndexedAttestation_codec_def
      Attestation_codec_def Deposit_codec_def VoluntaryExit_codec_def PendingAttestation_codec_def hash_codecs
      DEPOSIT_CONTRACT_TREE_DEPTH_def VariableSize_def Let_def)

lemma BeaconBlockBody_lawful [codec_laws]: "lawful (BeaconBlockBody_codec C) (BeaconBlockBody_ok C)"
  unfolding BeaconBlockBody_codec_def hash_codecs
  by (rule container_lawful, (rule codec_laws | simp add: BeaconBlockBody_ok_def)+)

lemma BeaconBlock_lawful [codec_laws]: "lawful (BeaconBlock_codec C) (BeaconBlock_ok C)"
  unfolding BeaconBlock_codec_def hash_codecs
  by (rule container_lawful, (rule codec_laws | simp add: BeaconBlock_ok_def)+)

lemma UnsealedBeaconBlock_lawful [codec_laws]: "lawful (UnsealedBeaconBlock_codec C) (UnsealedBeaconBlock_ok C)"
  unfolding UnsealedBeaconBlock_codec_def
  by (rule container_lawful, (rule codec_laws | simp add: UnsealedBeaconBlock_ok_def)+)

definition BeaconState_ok :: "Config \<Rightarrow> BeaconState \<Rightarrow> bool" where
  "BeaconState_ok C s \<longleftrightarrow>
     Fork_ok (fork s) \<and> BeaconBlockHeader_ok (latest_block_header s) \<and>
     (\<forall>h\<in>set (block_roots s). length h = 32) \<and> length (block_roots s) = unat (slots_per_historical_root C) \<and>
     (\<forall>h\<in>set (state_roots s). length h = 32) \<and> length (state_roots s) = unat (slots_per_historical_root C) \<and>
     (\<forall>h\<in>set (historical_roots s). length h = 32) \<and> length (historical_roots s) \<le> unat (historical_roots_limit C) \<and>
     Eth1Data_ok (eth1_data s) \<and> (\<forall>d\<in>set (eth1_data_votes s). Eth1Data_ok d) \<and>
     length (eth1_data_votes s) \<le> unat (slots_per_eth1_voting_period C) \<and>
     (\<forall>v\<in>set (validators s). Validator_ok v) \<and> length (validators s) \<le> unat (validator_registry_limit C) \<and>
     length (balances s) \<le> unat (validator_registry_limit C) \<and>
     (\<forall>h\<in>set (randao_mixes s). length h = 32) \<and> length (randao_mixes s) = unat (epochs_per_historical_vector C) \<and>
     length (slashings s) = unat (epochs_per_slashings_vector C) \<and>
     (\<forall>a\<in>set (previous_epoch_attestations s). PendingAttestation_ok C a) \<and>
     length (previous_epoch_attestations s) \<le> unat (max_attestations_per_epoch C) \<and>
     (\<forall>a\<in>set (current_epoch_attestations s). PendingAttestation_ok C a) \<and>
     length (current_epoch_attestations s) \<le> unat (max_attestations_per_epoch C) \<and>
     length (justification_bits s) = JustificationBitsLength \<and>
     Checkpoint_ok (previous_justified_checkpoint s) \<and> Checkpoint_ok (current_justified_checkpoint s) \<and>
     Checkpoint_ok (finalized_checkpoint s)"

lemma slashings_field_lawful [codec_laws]:
  assumes "lawful_fields F Q"
  shows "lawful_fields (add_field (codec_size (vecarray_codec Uint_codec m)) (uint_vecarray_codec m :: Uint list Codec) F)
     (\<lambda>(x, y). length x = m \<and> Q y)"
proof (rule add_field_lawful [OF _ assms])
  show "lawful (uint_vecarray_codec m :: Uint list Codec) (\<lambda>xs. length xs = m)"
    using lawfulI [OF u64.vecarray_law [of m]] by (simp add: compact_uint_codecs)
qed (simp add: is_fixed_def)

lemma bits_field_lawful [codec_laws]:
  "lawful_fields F Q \<Longrightarrow>
   lawful_fields (add_field (codec_size (vecarray_codec bool_codec m)) (bits_vecarray_codec m) F)
     (\<lambda>(x, y). length x = m \<and> Q y)"
  by (rule add_field_lawful [OF lawfulI [OF bits_vecarray.codec_law_axioms]]) (simp_all add: is_fixed_def)

lemma BeaconState_lawful: "lawful (BeaconState_codec C) (BeaconState_ok C)"
  unfolding BeaconState_codec_def
  by (rule container_lawful, (rule codec_laws | simp add: BeaconState_ok_def)+)

section \<open>Properties\<close>

text \<open>
  C7: A block is decoded from its encoding: every block with the lengths of its Rust types, and an encoding that the
  32-bit offsets can address, with all its slashings, attestations, deposits and exits.
\<close>

theorem block_roundtrip:
  assumes "BeaconBlock_ok C b" "length (encode (BeaconBlock_codec C) b) < 2 ^ 32"
  shows "decode (BeaconBlock_codec C) (encode (BeaconBlock_codec C) b) = Ok b"
  by (rule codec_law.roundtrip [OF BeaconBlock_lawful]) (use assms in \<open>simp add: fits_def\<close>)

definition sample_attestation :: Attestation where
  "sample_attestation = \<lparr>aggregation_bits = [True, False, True],
     at_data = \<lparr>ad_slot = 9, ad_index = 1, beacon_block_root = H256_default,
       source = Checkpoint_default, target = Checkpoint_default\<rparr>,
     custody_bits = [False, False, False], at_signature = Signature_default\<rparr>"

definition attested_block :: BeaconBlock where
  "attested_block = BeaconBlock_default\<lparr>
     bb_body := BeaconBlockBody_default\<lparr>attestations := [sample_attestation, sample_attestation]\<rparr>\<rparr>"

text \<open>Lengths of encodings, by the structure of the value.\<close>

lemma length_encode_u8_list: "length (encode_list uint_codec (xs :: u8 list)) = length xs"
  using u8.encode_list_length [of xs 1] by (simp add: uint_codec_def)

lemma length_encode_simps:
  "length (series_encode ps) = sum_list (map fixed_part_size ps) + length (encode_tails ps)"
  "encode (container_codec F out mk) x = series_encode (field_items F (out x))"
  "field_items (add_field sz T R) (y, z) = field_item sz T y # field_items R z" "field_items no_fields u = []"
  "encode_tails (replicate n (Fixed f)) = []" "sum_list (replicate n k) = n * (k :: nat)"
  "length (encode Uint_codec w) = 8" "length (encode (bits_vecarray_codec m) bits) = (length bits + 7) div 8"
  "length (encode (max_bitlist_codec m) bits) = length bits div 8 + 1"
  by (simp_all add: series_encode_alt length_encode_heads container_codec_def add_field_def no_fields_def uint_codec_def
      max_bitlist_codec_def bitlist_codec_def bits_vecarray_codec_def length_bits_encode bitlist_encode_props(1)
      sum_list_replicate)
    (induction n, simp_all)

lemma length_encode_hashes:
  "length (encode h256_codec h) = length h" "length (encode (fixed_hash_codec n) h) = length h"
  by (simp_all add: h256_codec_def fixed_hash_codec_def uint_array_codec_def length_encode_u8_list)

lemma encode_list_simps:
  "encode (maxvec_codec T m) xs = series_encode (map (series_item T) xs)"
  "encode (vecarray_codec T m) xs = series_encode (map (series_item T) xs)"
  "encode (uint_maxvec_codec m) ws = series_encode (map (series_item uint_codec) ws)"
  "encode (uint_vecarray_codec m) ws = series_encode (map (series_item uint_codec) ws)"
  by (simp_all add: maxvec_codec_def vecarray_codec_def encode_list_def uint_maxvec_codec_def uint_vecarray_codec_def)

lemmas measure_encoding =
  length_encode_simps length_encode_hashes encode_list_simps field_item_def series_item_def is_fixed_def
  hash_codecs offset_len_4 VariableSize_def Let_def
  BeaconBlock_codec_def BeaconBlockBody_codec_def Eth1Data_codec_def Attestation_codec_def AttestationData_codec_def
  Checkpoint_codec_def BeaconState_codec_def Fork_codec_def BeaconBlockHeader_codec_def
  BeaconBlock_default_def BeaconBlockBody_default_def Signature_default_def H256_default_def Eth1Data_default_def
  Checkpoint_default_def Fork_default_def Version_default_def BeaconBlockHeader_default_def BeaconState_default_def

theorem block_roundtrip_witness:
  "decode (BeaconBlock_codec (MinimalConfig toy_hashing))
     (encode (BeaconBlock_codec (MinimalConfig toy_hashing)) attested_block) = Ok attested_block"
proof (rule block_roundtrip)
  show "BeaconBlock_ok (MinimalConfig toy_hashing) attested_block"
    by code_simp
  show "length (encode (BeaconBlock_codec (MinimalConfig toy_hashing)) attested_block) < 2 ^ 32"
    by (simp add: attested_block_def sample_attestation_def measure_encoding)
qed

text \<open>
  C11: A beacon state is decoded from its encoding, although its compact justification bits have a declared size
  other than the size they are encoded in.
\<close>

theorem state_roundtrip:
  assumes "BeaconState_ok C s" "length (encode (BeaconState_codec C) s) < 2 ^ 32"
  shows "decode (BeaconState_codec C) (encode (BeaconState_codec C) s) = Ok s"
  by (rule codec_law.roundtrip [OF BeaconState_lawful]) (use assms in \<open>simp add: fits_def\<close>)

theorem state_roundtrip_witness:
  "decode (BeaconState_codec (MinimalConfig toy_hashing))
     (encode (BeaconState_codec (MinimalConfig toy_hashing)) (BeaconState_default (MinimalConfig toy_hashing))) =
   Ok (BeaconState_default (MinimalConfig toy_hashing))"
proof (rule state_roundtrip)
  show "BeaconState_ok (MinimalConfig toy_hashing) (BeaconState_default (MinimalConfig toy_hashing))"
    by (simp add: BeaconState_ok_def BeaconState_default_def MinimalConfig_def JustificationBitsLength_def Fork_ok_def
      BeaconBlockHeader_ok_def Eth1Data_ok_def Checkpoint_ok_def Signature_default_def H256_default_def
      Eth1Data_default_def Checkpoint_default_def Fork_default_def Version_default_def BeaconBlockHeader_default_def)
  show "length (encode (BeaconState_codec (MinimalConfig toy_hashing)) (BeaconState_default (MinimalConfig toy_hashing))) < 2 ^ 32"
    by (simp add: measure_encoding MinimalConfig_def JustificationBitsLength_def)
qed

end
