(* ===== verification/Network_Messages.thy ===== *)
theory Network_Messages
  imports SSZ_Types
begin

text \<open>
  The messages between nodes, crate \<^verbatim>\<open>blockchain/network/messages\<close>: the items (\<^verbatim>\<open>items.rs\<close>), requests, responses and
  gossip (\<^verbatim>\<open>lib.rs\<close>), and the codecs of a substream (\<^verbatim>\<open>codec.rs\<close>). The frames with a variable-length prefix
  come from the library \<^verbatim>\<open>unsigned_varint\<close>, which is the parameter \<open>Uvi\<close>. Requests and gossip are shown to be
  decoded to what was sent. For the responses that carry blocks the two ends of a substream disagree on the format.
\<close>

section \<open>Items\<close>

record HelloMessage =
  hello_fork_version :: Version
  hello_finalized_root :: H256
  hello_finalized_epoch :: Epoch
  hello_head_root :: H256
  hello_head_slot :: Slot

definition hello_cmp :: "HelloMessage \<Rightarrow> HelloMessage \<Rightarrow> Ordering" where
  "hello_cmp a b =
     (if hello_head_slot a < hello_head_slot b then Less
      else if hello_head_slot a = hello_head_slot b then Equal else Greater)"

definition HelloMessage_codec :: "HelloMessage Codec" where
  "HelloMessage_codec = container_codec
     (field Version_codec (field h256_codec (field Uint_codec (field h256_codec (field Uint_codec no_fields)))))
     (\<lambda>h. (hello_fork_version h, hello_finalized_root h, hello_finalized_epoch h, hello_head_root h, hello_head_slot h, ()))
     (\<lambda>(v, r, e, hr, s, _). \<lparr>hello_fork_version = v, hello_finalized_root = r, hello_finalized_epoch = e,
        hello_head_root = hr, hello_head_slot = s\<rparr>)"

datatype GoodbyeReason = ClientShutdown | IrrelevantNetwork | Fault | UnknownReason

definition goodbye_from :: "u64 \<Rightarrow> GoodbyeReason" where
  "goodbye_from n =
     (if n = 1 then ClientShutdown else if n = 2 then IrrelevantNetwork else if n = 3 then Fault else UnknownReason)"

fun goodbye_into :: "GoodbyeReason \<Rightarrow> u64" where
  "goodbye_into ClientShutdown = 1"
| "goodbye_into IrrelevantNetwork = 2"
| "goodbye_into Fault = 3"
| "goodbye_into UnknownReason = 0"

definition GoodbyeReason_codec :: "GoodbyeReason Codec" where
  "GoodbyeReason_codec = \<lparr>
     codec_size = codec_size Uint_codec,
     encode = (\<lambda>r. encode Uint_codec (goodbye_into r)),
     decode = (\<lambda>v. rbind (decode Uint_codec v) (\<lambda>n. Ok (goodbye_from n)))\<rparr>"

record BeaconBlocksRequest =
  req_head_block_root :: H256
  req_start_slot :: Slot
  req_count :: u64
  req_step :: u64

definition BeaconBlocksRequest_codec :: "BeaconBlocksRequest Codec" where
  "BeaconBlocksRequest_codec = container_codec
     (field h256_codec (field Uint_codec (field Uint_codec (field Uint_codec no_fields))))
     (\<lambda>r. (req_head_block_root r, req_start_slot r, req_count r, req_step r, ()))
     (\<lambda>(h, s, c, t, _). \<lparr>req_head_block_root = h, req_start_slot = s, req_count = c, req_step = t\<rparr>)"

record RecentBeaconBlocksRequest =
  req_block_roots :: "H256 list"

definition RecentBeaconBlocksRequest_codec :: "RecentBeaconBlocksRequest Codec" where
  "RecentBeaconBlocksRequest_codec = container_codec
     (field (vec_codec h256_codec) no_fields)
     (\<lambda>r. (req_block_roots r, ())) (\<lambda>(rs, _). \<lparr>req_block_roots = rs\<rparr>)"

section \<open>Requests and responses\<close>

datatype RPCType = HelloType | GoodbyeType | BeaconBlocksType | RecentBeaconBlocksType

definition all_types :: "RPCType list" where
  "all_types = [HelloType, GoodbyeType, BeaconBlocksType, RecentBeaconBlocksType]"

fun protocol_name :: "RPCType \<Rightarrow> string" where
  "protocol_name HelloType = ''/eth2/beacon_chain/req/status/1/ssz''"
| "protocol_name GoodbyeType = ''/eth2/beacon_chain/req/goodbye/1/ssz''"
| "protocol_name BeaconBlocksType = ''/eth2/beacon_chain/req/beacon_blocks_by_range/1/ssz''"
| "protocol_name RecentBeaconBlocksType = ''/eth2/beacon_chain/req/beacon_blocks_by_root/1/ssz''"

datatype RPCRequest =
    HelloRequest HelloMessage
  | GoodbyeRequest GoodbyeReason
  | BlocksRequest BeaconBlocksRequest
  | RecentBlocksRequest RecentBeaconBlocksRequest

fun is_goodbye :: "RPCRequest \<Rightarrow> bool" where
  "is_goodbye (GoodbyeRequest _) = True"
| "is_goodbye _ = False"

fun expect_response :: "RPCRequest \<Rightarrow> bool" where
  "expect_response (GoodbyeRequest _) = False"
| "expect_response _ = True"

fun request_type :: "RPCRequest \<Rightarrow> RPCType" where
  "request_type (HelloRequest _) = HelloType"
| "request_type (GoodbyeRequest _) = GoodbyeType"
| "request_type (BlocksRequest _) = BeaconBlocksType"
| "request_type (RecentBlocksRequest _) = RecentBeaconBlocksType"

datatype RPCResponse =
    HelloResponse HelloMessage
  | BlocksResponse "BeaconBlock list"
  | RecentBlocksResponse "BeaconBlock list"
  | UnknownResponse u8 bytes

section \<open>Gossip\<close>

datatype PubsubType = BlockTopic | AttestationTopic | VoluntaryExitTopic | ProposerSlashingTopic | AttesterSlashingTopic

text \<open>A topic hash is its raw string.\<close>

definition from_gossipsub_topic_hash :: "string \<Rightarrow> PubsubType option" where
  "from_gossipsub_topic_hash t =
     (if t = ''/eth2/beacon_block/ssz'' then Some BlockTopic
      else if t = ''/eth2/beacon_attestation/ssz'' then Some AttestationTopic
      else if t = ''/eth2/voluntary_exit/ssz'' then Some VoluntaryExitTopic
      else if t = ''/eth2/proposer_slashing/ssz'' then Some ProposerSlashingTopic
      else if t = ''/eth2/attester_slashing/ssz'' then Some AttesterSlashingTopic
      else None)"

fun gossipsub_topic_hash :: "PubsubType \<Rightarrow> string" where
  "gossipsub_topic_hash BlockTopic = ''/eth2/beacon_block/ssz''"
| "gossipsub_topic_hash AttestationTopic = ''/eth2/beacon_attestation/ssz''"
| "gossipsub_topic_hash VoluntaryExitTopic = ''/eth2/voluntary_exit/ssz''"
| "gossipsub_topic_hash ProposerSlashingTopic = ''/eth2/proposer_slashing/ssz''"
| "gossipsub_topic_hash AttesterSlashingTopic = ''/eth2/attester_slashing/ssz''"

datatype PubsubMessage =
    BlockMessage BeaconBlock
  | AttestationMessage Attestation
  | VoluntaryExitMessage VoluntaryExit
  | ProposerSlashingMessage ProposerSlashing
  | AttesterSlashingMessage AttesterSlashing

fun pubsub_type :: "PubsubMessage \<Rightarrow> PubsubType" where
  "pubsub_type (BlockMessage _) = BlockTopic"
| "pubsub_type (AttestationMessage _) = AttestationTopic"
| "pubsub_type (VoluntaryExitMessage _) = VoluntaryExitTopic"
| "pubsub_type (ProposerSlashingMessage _) = ProposerSlashingTopic"
| "pubsub_type (AttesterSlashingMessage _) = AttesterSlashingTopic"

fun ssz_data :: "Config \<Rightarrow> PubsubMessage \<Rightarrow> bytes" where
  "ssz_data C (BlockMessage x) = encode (BeaconBlock_codec C) x"
| "ssz_data C (AttestationMessage x) = encode (Attestation_codec C) x"
| "ssz_data C (VoluntaryExitMessage x) = encode VoluntaryExit_codec x"
| "ssz_data C (ProposerSlashingMessage x) = encode ProposerSlashing_codec x"
| "ssz_data C (AttesterSlashingMessage x) = encode (AttesterSlashing_codec C) x"

fun from_ssz_data :: "Config \<Rightarrow> PubsubType \<Rightarrow> bytes \<Rightarrow> PubsubMessage ssz" where
  "from_ssz_data C BlockTopic v = rbind (decode (BeaconBlock_codec C) v) (\<lambda>x. Ok (BlockMessage x))"
| "from_ssz_data C AttestationTopic v = rbind (decode (Attestation_codec C) v) (\<lambda>x. Ok (AttestationMessage x))"
| "from_ssz_data C VoluntaryExitTopic v = rbind (decode VoluntaryExit_codec v) (\<lambda>x. Ok (VoluntaryExitMessage x))"
| "from_ssz_data C ProposerSlashingTopic v = rbind (decode ProposerSlashing_codec v) (\<lambda>x. Ok (ProposerSlashingMessage x))"
| "from_ssz_data C AttesterSlashingTopic v = rbind (decode (AttesterSlashing_codec C) v) (\<lambda>x. Ok (AttesterSlashingMessage x))"

section \<open>Substreams\<close>

text \<open>
  \<^verbatim>\<open>UviBytes\<close>: a frame for some bytes, or an I/O error; and from the codec's state and the buffer the next frame if it
  is complete, with the new state and buffer.
\<close>

record 'u Uvi =
  uvi_default :: 'u
  uvi_encode :: "bytes \<Rightarrow> bytes option"
  uvi_decode :: "'u \<Rightarrow> bytes \<Rightarrow> (unit + bytes option) \<times> 'u \<times> bytes"

definition io_error :: ssz_error where
  "io_error = OtherError ''io error''"

definition put_frame :: "'u Uvi \<Rightarrow> bytes \<Rightarrow> (bytes, ssz_error, unit) exec" where
  "put_frame U bs = (case uvi_encode U bs of None \<Rightarrow> efail io_error | Some f \<Rightarrow> emod (\<lambda>dst. dst @ f))"

definition get_frame :: "'u Uvi \<Rightarrow> ('u \<times> bytes, ssz_error, bytes option) exec" where
  "get_frame U st =
     (case uvi_decode U (fst st) (snd st) of
        (Inl _, st') \<Rightarrow> (Err io_error, st')
      | (Inr r, st') \<Rightarrow> (Ok r, st'))"

text \<open>\<^verbatim>\<open>InboundCodec\<close>: responses are encoded, requests decoded.\<close>

fun response_code :: "RPCResponse \<Rightarrow> u8" where
  "response_code (UnknownResponse i _) = i"
| "response_code _ = 0"

fun response_bytes :: "Config \<Rightarrow> RPCResponse \<Rightarrow> bytes" where
  "response_bytes C (HelloResponse h) = encode HelloMessage_codec h"
| "response_bytes C (BlocksResponse bs) = encode (vec_codec (BeaconBlock_codec C)) bs"
| "response_bytes C (RecentBlocksResponse bs) = encode (vec_codec (BeaconBlock_codec C)) bs"
| "response_bytes C (UnknownResponse _ v) = v"

definition inbound_encode :: "'u Uvi \<Rightarrow> Config \<Rightarrow> RPCResponse \<Rightarrow> (bytes, ssz_error, unit) exec" where
  "inbound_encode U C item =
     eseq (emod (\<lambda>dst. dst @ [response_code item])) (put_frame U (response_bytes C item))"

fun decode_request :: "RPCType \<Rightarrow> bytes \<Rightarrow> RPCRequest ssz" where
  "decode_request HelloType v = rbind (decode HelloMessage_codec v) (\<lambda>x. Ok (HelloRequest x))"
| "decode_request GoodbyeType v = rbind (decode GoodbyeReason_codec v) (\<lambda>x. Ok (GoodbyeRequest x))"
| "decode_request BeaconBlocksType v = rbind (decode BeaconBlocksRequest_codec v) (\<lambda>x. Ok (BlocksRequest x))"
| "decode_request RecentBeaconBlocksType v =
     rbind (decode RecentBeaconBlocksRequest_codec v) (\<lambda>x. Ok (RecentBlocksRequest x))"

definition inbound_decode :: "'u Uvi \<Rightarrow> RPCType \<Rightarrow> ('u \<times> bytes, ssz_error, RPCRequest option) exec" where
  "inbound_decode U typ =
     ebind (get_frame U) (\<lambda>frame.
     case frame of
       Some bs \<Rightarrow> eget (\<lambda>_. rbind (decode_request typ bs) (\<lambda>q. Ok (Some q)))
     | None \<Rightarrow> eret None)"

text \<open>\<^verbatim>\<open>OutboundCodec\<close>: requests are encoded, responses decoded.\<close>

fun request_bytes :: "RPCType \<Rightarrow> RPCRequest \<Rightarrow> bytes ssz" where
  "request_bytes HelloType (HelloRequest x) = Ok (encode HelloMessage_codec x)"
| "request_bytes GoodbyeType (GoodbyeRequest x) = Ok (encode GoodbyeReason_codec x)"
| "request_bytes BeaconBlocksType (BlocksRequest x) = Ok (encode BeaconBlocksRequest_codec x)"
| "request_bytes RecentBeaconBlocksType (RecentBlocksRequest x) = Ok (encode RecentBeaconBlocksRequest_codec x)"
| "request_bytes _ _ = Err (OtherError ''outbound codec invalid type'')"

definition outbound_encode :: "'u Uvi \<Rightarrow> RPCType \<Rightarrow> RPCRequest \<Rightarrow> (bytes, ssz_error, unit) exec" where
  "outbound_encode U typ item = ebind (eget (\<lambda>_. request_bytes typ item)) (put_frame U)"

text \<open>\<^verbatim>\<open>src.split_to(1)[0]\<close> on a buffer that is not empty.\<close>

definition get_code :: "('u \<times> bytes, ssz_error, u8) exec" where
  "get_code st = (Ok (snd st ! 0), (fst st, drop 1 (snd st)))"

text \<open>The loop over the blocks of a response.\<close>

partial_function (option) blocks_loop ::
  "'u Uvi \<Rightarrow> Config \<Rightarrow> BeaconBlock list \<Rightarrow> 'u \<times> bytes \<Rightarrow> ((ssz_error, BeaconBlock list) res \<times> 'u \<times> bytes) option" where
  "blocks_loop U C acc st =
     (if snd st = [] then Some (Ok acc, st)
      else if snd st ! 0 \<noteq> 0 then Some (Ok acc, (fst st, drop 1 (snd st)))
      else (case get_frame U (fst st, drop 1 (snd st)) of
          (Ok (Some bs), st') \<Rightarrow>
            (case decode (BeaconBlock_codec C) bs of
               Ok b \<Rightarrow> blocks_loop U C (acc @ [b]) st'
             | Err e \<Rightarrow> Some (Err e, st') | Panic \<Rightarrow> Some (Panic, st') | Diverge \<Rightarrow> Some (Diverge, st'))
        | (Ok None, st') \<Rightarrow> Some (Ok acc, st')
        | (Err e, st') \<Rightarrow> Some (Err e, st') | (Panic, st') \<Rightarrow> Some (Panic, st') | (Diverge, st') \<Rightarrow> Some (Diverge, st')))"

definition decode_blocks :: "'u Uvi \<Rightarrow> Config \<Rightarrow> ('u \<times> bytes, ssz_error, BeaconBlock list) exec" where
  "decode_blocks U C st = (case blocks_loop U C [] st of Some r \<Rightarrow> r | None \<Rightarrow> (Diverge, st))"

fun decode_response :: "'u Uvi \<Rightarrow> Config \<Rightarrow> RPCType \<Rightarrow> ('u \<times> bytes, ssz_error, RPCResponse option) exec" where
  "decode_response U C HelloType =
     ebind get_code (\<lambda>code.
     ebind (get_frame U) (\<lambda>frame.
     case frame of
       None \<Rightarrow> eret None
     | Some bs \<Rightarrow>
         if code = 0 then eget (\<lambda>_. rbind (decode HelloMessage_codec bs) (\<lambda>h. Ok (Some (HelloResponse h))))
         else eret (Some (UnknownResponse code bs))))"
| "decode_response U C GoodbyeType =
     ebind get_code (\<lambda>code.
     ebind (get_frame U) (\<lambda>frame.
     case frame of
       None \<Rightarrow> eret None
     | Some bs \<Rightarrow> eret (Some (UnknownResponse code bs))))"
| "decode_response U C BeaconBlocksType = ebind (decode_blocks U C) (\<lambda>bs. eret (Some (BlocksResponse bs)))"
| "decode_response U C RecentBeaconBlocksType = ebind (decode_blocks U C) (\<lambda>bs. eret (Some (RecentBlocksResponse bs)))"

definition outbound_decode :: "'u Uvi \<Rightarrow> Config \<Rightarrow> RPCType \<Rightarrow> ('u \<times> bytes, ssz_error, RPCResponse option) exec" where
  "outbound_decode U C typ st = (if snd st = [] then (Ok None, st) else decode_response U C typ st)"

section \<open>Lawful messages\<close>

definition HelloMessage_ok :: "HelloMessage \<Rightarrow> bool" where
  "HelloMessage_ok h \<longleftrightarrow> length (hello_fork_version h) = 4 \<and> length (hello_finalized_root h) = 32 \<and> length (hello_head_root h) = 32"

definition BeaconBlocksRequest_ok :: "BeaconBlocksRequest \<Rightarrow> bool" where
  "BeaconBlocksRequest_ok r \<longleftrightarrow> length (req_head_block_root r) = 32"

definition RecentBeaconBlocksRequest_ok :: "RecentBeaconBlocksRequest \<Rightarrow> bool" where
  "RecentBeaconBlocksRequest_ok r \<longleftrightarrow> (\<forall>h\<in>set (req_block_roots r). length h = 32)"

lemma vec_lawful [codec_laws]:
  assumes "lawful T P" "codec_size T \<noteq> Some 0"
  shows "lawful (vec_codec T) (\<lambda>xs. \<forall>x\<in>set xs. P x)"
  by (rule codec_law_mono [OF codec_law.vec_law [OF assms(1)]])
    (auto simp: fits_def vec_codec_def intro!: list_fits assms(2))

lemma HelloMessage_lawful: "lawful HelloMessage_codec HelloMessage_ok"
  unfolding HelloMessage_codec_def hash_codecs
  by (rule container_lawful, (rule codec_laws)+) (simp_all add: HelloMessage_ok_def)

lemma GoodbyeReason_lawful: "lawful GoodbyeReason_codec (\<lambda>_. True)"
proof (rule lawfulI, unfold_locales)
  show "decode GoodbyeReason_codec (encode GoodbyeReason_codec r) = Ok r" for r
    by (cases r) (simp_all add: GoodbyeReason_codec_def goodbye_from_def uint_codec_roundtrip)
  show "length (encode GoodbyeReason_codec r) = n" if "codec_size GoodbyeReason_codec = Some n" for r n
    using that by (simp add: GoodbyeReason_codec_def uint_codec_def)
qed

lemma BeaconBlocksRequest_lawful: "lawful BeaconBlocksRequest_codec BeaconBlocksRequest_ok"
  unfolding BeaconBlocksRequest_codec_def
  by (rule container_lawful, (rule codec_laws)+) (simp_all add: BeaconBlocksRequest_ok_def)

lemma RecentBeaconBlocksRequest_lawful: "lawful RecentBeaconBlocksRequest_codec RecentBeaconBlocksRequest_ok"
  unfolding RecentBeaconBlocksRequest_codec_def
  by (rule container_lawful, (rule codec_laws | simp add: RecentBeaconBlocksRequest_ok_def)+)

text \<open>Messages with the lengths of their Rust types and an encoding that 32-bit offsets can address.\<close>

fun request_ok :: "RPCRequest \<Rightarrow> bool" where
  "request_ok (HelloRequest x) = fits HelloMessage_codec HelloMessage_ok x"
| "request_ok (GoodbyeRequest x) = fits GoodbyeReason_codec (\<lambda>_. True) x"
| "request_ok (BlocksRequest x) = fits BeaconBlocksRequest_codec BeaconBlocksRequest_ok x"
| "request_ok (RecentBlocksRequest x) = fits RecentBeaconBlocksRequest_codec RecentBeaconBlocksRequest_ok x"

fun pubsub_ok :: "Config \<Rightarrow> PubsubMessage \<Rightarrow> bool" where
  "pubsub_ok C (BlockMessage x) = fits (BeaconBlock_codec C) (BeaconBlock_ok C) x"
| "pubsub_ok C (AttestationMessage x) = fits (Attestation_codec C) (Attestation_ok C) x"
| "pubsub_ok C (VoluntaryExitMessage x) = fits VoluntaryExit_codec VoluntaryExit_ok x"
| "pubsub_ok C (ProposerSlashingMessage x) = fits ProposerSlashing_codec ProposerSlashing_ok x"
| "pubsub_ok C (AttesterSlashingMessage x) = fits (AttesterSlashing_codec C) (AttesterSlashing_ok C) x"

text \<open>What is relied on of the frames: a complete frame is read back, and the rest of the buffer is left.\<close>

definition uvi_law :: "'u Uvi \<Rightarrow> bool" where
  "uvi_law U \<longleftrightarrow> (\<forall>bs f rest. uvi_encode U bs = Some f \<longrightarrow>
     uvi_decode U (uvi_default U) (f @ rest) = (Inr (Some bs), uvi_default U, rest))"

lemma put_frame_Ok: "put_frame U bs dst = (Ok (), dst') \<longleftrightarrow> (\<exists>f. uvi_encode U bs = Some f \<and> dst' = dst @ f)"
  by (auto simp: put_frame_def exec_simps efail_eq split: option.splits)

lemma get_frame_put:
  assumes "uvi_law U" "uvi_encode U bs = Some f"
  shows "get_frame U (uvi_default U, f @ rest) = (Ok (Some bs), (uvi_default U, rest))"
  using assms by (simp add: get_frame_def uvi_law_def)

lemma decode_request_bytes:
  assumes "request_ok q" "request_bytes (request_type q) q = Ok bs"
  shows "decode_request (request_type q) bs = Ok q"
  using assms
  by (cases q) (auto simp: codec_law.roundtrip [OF HelloMessage_lawful] codec_law.roundtrip [OF GoodbyeReason_lawful]
      codec_law.roundtrip [OF BeaconBlocksRequest_lawful] codec_law.roundtrip [OF RecentBeaconBlocksRequest_lawful])

text \<open>The response the decoder understands: every block in a frame of its own, after a zero byte.\<close>

fun block_chunks :: "'u Uvi \<Rightarrow> Config \<Rightarrow> BeaconBlock list \<Rightarrow> bytes option" where
  "block_chunks U C [] = Some []"
| "block_chunks U C (b # bs) =
     (case (uvi_encode U (encode (BeaconBlock_codec C) b), block_chunks U C bs) of
        (Some f, Some r) \<Rightarrow> Some (0 # f @ r)
      | _ \<Rightarrow> None)"

lemma blocks_loop_chunks:
  assumes "uvi_law U" "\<forall>b\<in>set bs. fits (BeaconBlock_codec C) (BeaconBlock_ok C) b" "block_chunks U C bs = Some v"
  shows "blocks_loop U C acc (uvi_default U, v) = Some (Ok (acc @ bs), (uvi_default U, []))"
  using assms(2,3)
proof (induction bs arbitrary: acc v)
  case Nil
  then show ?case by (subst blocks_loop.simps) simp
next
  case (Cons b bs)
  then obtain f r where f: "uvi_encode U (encode (BeaconBlock_codec C) b) = Some f" and r: "block_chunks U C bs = Some r"
    and v: "v = 0 # f @ r" by (auto split: option.splits)
  have "decode (BeaconBlock_codec C) (encode (BeaconBlock_codec C) b) = Ok b"
    using Cons.prems(1) codec_law.roundtrip [OF BeaconBlock_lawful] by simp
  then show ?case
    using Cons.IH [OF _ r, of "acc @ [b]"] Cons.prems(1)
    by (subst blocks_loop.simps) (simp add: v get_frame_put [OF assms(1) f])
qed

lemma gossip_roundtrip:
  assumes "pubsub_ok C m"
  shows "from_ssz_data C (pubsub_type m) (ssz_data C m) = Ok m"
  using assms
  by (cases m) (simp_all add: codec_law.roundtrip [OF BeaconBlock_lawful]
      codec_law.roundtrip [OF Attestation_lawful] codec_law.roundtrip [OF VoluntaryExit_lawful]
      codec_law.roundtrip [OF ProposerSlashing_lawful] codec_law.roundtrip [OF AttesterSlashing_lawful])

section \<open>Properties\<close>

text \<open>
  C19: Requests and greetings arrive as they were sent: a request of the type of its substream is decoded by the other
  end, which leaves the rest of the buffer, and is refused on a substream of another type; the answer to a
  greeting is decoded by the node that asked.
\<close>

theorem messages_roundtrip:
  assumes "uvi_law U" "request_ok q" "outbound_encode U (request_type q) q dst = (Ok (), dst @ f)"
    and "fits HelloMessage_codec HelloMessage_ok m" "inbound_encode U C (HelloResponse m) [] = (Ok (), w)"
  shows "inbound_decode U (request_type q) (uvi_default U, f @ rest) = (Ok (Some q), (uvi_default U, rest)) \<and>
    (typ = request_type q \<or> outbound_encode U typ q dst = (Err (OtherError ''outbound codec invalid type''), dst)) \<and>
    outbound_decode U C HelloType (uvi_default U, w @ rest) = (Ok (Some (HelloResponse m)), (uvi_default U, rest))"
proof (intro conjI)
  obtain bs where bs: "request_bytes (request_type q) q = Ok bs" "uvi_encode U bs = Some f"
    using assms(3) by (auto simp: outbound_encode_def exec_ok put_frame_Ok)
  show "inbound_decode U (request_type q) (uvi_default U, f @ rest) = (Ok (Some q), (uvi_default U, rest))"
    by (simp add: inbound_decode_def ebind_def get_frame_put [OF assms(1) bs(2)] eget_def decode_request_bytes [OF assms(2) bs(1)])
  show "typ = request_type q \<or> outbound_encode U typ q dst = (Err (OtherError ''outbound codec invalid type''), dst)"
    by (cases "typ"; cases q) (simp_all add: outbound_encode_def ebind_def eget_def)
  obtain g where g: "uvi_encode U (encode HelloMessage_codec m) = Some g" "w = 0 # g"
    using assms(5) by (auto simp: inbound_encode_def exec_ok put_frame_Ok)
  show "outbound_decode U C HelloType (uvi_default U, w @ rest) = (Ok (Some (HelloResponse m)), (uvi_default U, rest))"
    using codec_law.roundtrip [OF HelloMessage_lawful assms(4)]
    by (simp add: g(2) outbound_decode_def ebind_def get_code_def get_frame_put [OF assms(1) g(1)] eget_def)
qed

text \<open>Frames of less than 64 KiB, with their length in two bytes.\<close>

definition short_uvi :: "unit Uvi" where
  "short_uvi = \<lparr>
     uvi_default = (),
     uvi_encode = (\<lambda>bs. if length bs < 2 ^ 16 then Some (to_le_bytes (of_nat (length bs) :: 16 word) @ bs) else None),
     uvi_decode = (\<lambda>u src.
       let n = unat (from_le_bytes (take 2 src) :: 16 word) in
       if 2 + n \<le> length src then (Inr (Some (take n (drop 2 src))), u, drop (2 + n) src) else (Inr None, u, src))\<rparr>"

lemma short_uvi_law: "uvi_law short_uvi"
proof -
  have "unat (of_nat n :: 16 word) = n" if "n < 65536" for n using that by (simp add: unat_of_nat)
  then show ?thesis by (simp add: uvi_law_def short_uvi_def from_to_le_bytes Let_def)
qed

lemma short_uvi_encode: "length bs < 2 ^ 16 \<Longrightarrow> \<exists>f. uvi_encode short_uvi bs = Some f"
  by (simp add: short_uvi_def)

definition sample_request :: RPCRequest where
  "sample_request = BlocksRequest \<lparr>req_head_block_root = H256_default, req_start_slot = 9, req_count = 50, req_step = 1\<rparr>"

definition sample_hello :: HelloMessage where
  "sample_hello = \<lparr>hello_fork_version = Version_default, hello_finalized_root = H256_default, hello_finalized_epoch = 0,
     hello_head_root = H256_default, hello_head_slot = 8\<rparr>"

theorem messages_roundtrip_witness:
  "\<exists>f w. outbound_encode short_uvi BeaconBlocksType sample_request [] = (Ok (), f) \<and>
     inbound_decode short_uvi BeaconBlocksType ((), f @ [7]) = (Ok (Some sample_request), ((), [7])) \<and>
     inbound_encode short_uvi (MinimalConfig toy_hashing) (HelloResponse sample_hello) [] = (Ok (), w) \<and>
     outbound_decode short_uvi (MinimalConfig toy_hashing) HelloType ((), w @ [7]) =
       (Ok (Some (HelloResponse sample_hello)), ((), [7]))"
proof -
  have q: "request_ok sample_request" "request_type sample_request = BeaconBlocksType"
    by (simp_all add: sample_request_def fits_def BeaconBlocksRequest_ok_def BeaconBlocksRequest_codec_def measure_encoding)
  have m: "fits HelloMessage_codec HelloMessage_ok sample_hello"
    by (simp add: sample_hello_def fits_def HelloMessage_ok_def HelloMessage_codec_def measure_encoding)
  have "\<exists>f. uvi_encode short_uvi (encode BeaconBlocksRequest_codec
      \<lparr>req_head_block_root = H256_default, req_start_slot = 9, req_count = 50, req_step = 1\<rparr>) = Some f"
    by (rule short_uvi_encode) (simp add: BeaconBlocksRequest_codec_def measure_encoding)
  then obtain f where f: "outbound_encode short_uvi (request_type sample_request) sample_request [] = (Ok (), [] @ f)"
    by (auto simp: sample_request_def outbound_encode_def exec_ok put_frame_Ok)
  have "\<exists>g. uvi_encode short_uvi (encode HelloMessage_codec sample_hello) = Some g"
    by (rule short_uvi_encode) (simp add: sample_hello_def HelloMessage_codec_def measure_encoding)
  then obtain w where w: "inbound_encode short_uvi (MinimalConfig toy_hashing) (HelloResponse sample_hello) [] = (Ok (), w)"
    by (auto simp: inbound_encode_def exec_ok put_frame_Ok)
  show ?thesis
    using f w messages_roundtrip [OF short_uvi_law q(1) f m w, of "[7]" HelloType] q(2) by auto
qed

lemma inbound_encode_blocks:
  "inbound_encode U C (BlocksResponse bs) [] =
     (case uvi_encode U (encode (vec_codec (BeaconBlock_codec C)) bs) of
        None \<Rightarrow> (Err io_error, [0])
      | Some f \<Rightarrow> (Ok (), 0 # f))"
  by (simp add: inbound_encode_def eseq_def ebind_def put_frame_def efail_def emod_def split: option.split)

text \<open>One frame is read as one block.\<close>

lemma decode_one_frame:
  assumes "uvi_law U" "uvi_encode U v = Some f"
  shows "outbound_decode U C BeaconBlocksType (uvi_default U, 0 # f) =
    (rbind (decode (BeaconBlock_codec C) v) (\<lambda>b. Ok (Some (BlocksResponse [b]))), (uvi_default U, []))"
proof -
  have frame: "get_frame U (uvi_default U, f) = (Ok (Some v), (uvi_default U, []))"
    using get_frame_put [OF assms, of "[]"] by simp
  have "blocks_loop U C acc (uvi_default U, []) = Some (Ok acc, (uvi_default U, []))" for acc
    by (subst blocks_loop.simps) simp
  then have "blocks_loop U C [] (uvi_default U, 0 # f) =
      Some (rbind (decode (BeaconBlock_codec C) v) (\<lambda>b. Ok [b]), (uvi_default U, []))"
    by (subst blocks_loop.simps) (simp add: frame split: res.split)
  then show ?thesis
    by (cases "decode (BeaconBlock_codec C) v") (simp_all add: outbound_decode_def decode_blocks_def ebind_def eret_def)
qed

lemma decode_no_block: "decode (BeaconBlock_codec C) [] = Panic"
  by (simp add: BeaconBlock_codec_def container_codec_def decode_vector_def slice_def uint_codec_def)

text \<open>
  C40: The two ends of a substream disagree on responses with blocks. The decoder reads one frame per block, each after a
  zero byte, and returns all of them. The encoder writes one zero byte and one frame with the list of all blocks.
  So a response with more than one block, or with none, is never decoded as it was sent, and the response without
  blocks, which a node without later blocks gives, makes the decoder of the node that asked panic.
\<close>

theorem blocks_response_formats:
  assumes "uvi_law U" "\<forall>b\<in>set bs. fits (BeaconBlock_codec C) (BeaconBlock_ok C) b" "block_chunks U C bs = Some v" "bs \<noteq> []"
  shows "outbound_decode U C BeaconBlocksType (uvi_default U, v) = (Ok (Some (BlocksResponse bs)), (uvi_default U, [])) \<and>
    (\<forall>cs. inbound_encode U C (BlocksResponse cs) [] =
      (case uvi_encode U (encode (vec_codec (BeaconBlock_codec C)) cs) of
         None \<Rightarrow> (Err io_error, [0])
       | Some f \<Rightarrow> (Ok (), 0 # f))) \<and>
    (\<forall>cs w. inbound_encode U C (BlocksResponse cs) [] = (Ok (), w) \<and> length cs \<noteq> 1 \<longrightarrow>
      fst (outbound_decode U C BeaconBlocksType (uvi_default U, w)) \<noteq> Ok (Some (BlocksResponse cs))) \<and>
    (\<forall>w. inbound_encode U C (BlocksResponse []) [] = (Ok (), w) \<longrightarrow>
      fst (outbound_decode U C BeaconBlocksType (uvi_default U, w)) = Panic)"
proof (intro conjI allI impI)
  have "v \<noteq> []" using assms(3,4) by (cases bs) (auto split: option.splits)
  then show "outbound_decode U C BeaconBlocksType (uvi_default U, v) = (Ok (Some (BlocksResponse bs)), (uvi_default U, []))"
    using blocks_loop_chunks [OF assms(1-3), of "[]"] by (simp add: outbound_decode_def decode_blocks_def ebind_def eret_def)
next
  fix cs w assume "inbound_encode U C (BlocksResponse cs) [] = (Ok (), w) \<and> length cs \<noteq> 1"
  then show "fst (outbound_decode U C BeaconBlocksType (uvi_default U, w)) \<noteq> Ok (Some (BlocksResponse cs))"
    by (auto simp: inbound_encode_blocks decode_one_frame [OF assms(1)] rbind_eq_Ok split: option.splits)
next
  fix w assume "inbound_encode U C (BlocksResponse []) [] = (Ok (), w)"
  then show "fst (outbound_decode U C BeaconBlocksType (uvi_default U, w)) = Panic"
    by (auto simp: inbound_encode_blocks decode_one_frame [OF assms(1)] vec_codec_def encode_list_def series_encode_def
        decode_no_block split: option.splits)
qed (rule inbound_encode_blocks)

theorem blocks_response_formats_witness:
  "\<exists>v w. block_chunks short_uvi (MinimalConfig toy_hashing) [BeaconBlock_default] = Some v \<and>
     outbound_decode short_uvi (MinimalConfig toy_hashing) BeaconBlocksType ((), v) =
       (Ok (Some (BlocksResponse [BeaconBlock_default])), ((), [])) \<and>
     inbound_encode short_uvi (MinimalConfig toy_hashing) (BlocksResponse []) [] = (Ok (), w) \<and>
     fst (outbound_decode short_uvi (MinimalConfig toy_hashing) BeaconBlocksType ((), w)) = Panic"
proof -
  let ?C = "MinimalConfig toy_hashing" and ?b = BeaconBlock_default
  have l: "length (encode (BeaconBlock_codec ?C) ?b) < 2 ^ 16" by (simp add: measure_encoding)
  have "BeaconBlock_ok ?C ?b" by code_simp
  with l have ok: "\<forall>b\<in>set [?b]. fits (BeaconBlock_codec ?C) (BeaconBlock_ok ?C) b" by (simp add: fits_def)
  obtain v where v: "block_chunks short_uvi ?C [?b] = Some v" using short_uvi_encode [OF l] by auto
  obtain f where "uvi_encode short_uvi [] = Some f" using short_uvi_encode [of "[]"] by auto
  then obtain w where w: "inbound_encode short_uvi ?C (BlocksResponse []) [] = (Ok (), w)"
    by (simp add: inbound_encode_def exec_ok put_frame_Ok vec_codec_def encode_list_def series_encode_def)
  show ?thesis
    using v w blocks_response_formats [OF short_uvi_law ok v] by simp
qed

end
