(* ===== verification/RPC_Handler.thy ===== *)
theory RPC_Handler
  imports Network_Messages "HOL-Library.AList" "HOL-Library.Multiset"
begin

text \<open>
  Requests and responses between two connected nodes, crate \<^verbatim>\<open>common/libp2p-rpc\<close>: the behaviour \<^verbatim>\<open>RPC\<close> of the swarm
  (\<^verbatim>\<open>lib.rs\<close>) and the state machine of a connection (\<^verbatim>\<open>handler.rs\<close>), at the message types of the node. Substreams
  are values of type variables. What polling them gives, and what the clock shows, differs from call to call
  and is an argument of \<open>poll\<close>. The runs of a connection under a swarm that keeps to its contract are an inductive
  relation; it also records which requests were received, answered, dialed and failed.
\<close>

section \<open>Events\<close>

type_synonym RequestId = u64

type_synonym Instant = nat

datatype RPCError = CodecError string | StreamTimeout | CustomError string

datatype RPCEvent =
    RequestEvent RequestId RPCRequest
  | ResponseEvent RequestId RPCResponse
  | ErrorEvent RequestId RPCError

fun event_id :: "RPCEvent \<Rightarrow> RequestId" where
  "event_id (RequestEvent i _) = i"
| "event_id (ResponseEvent i _) = i"
| "event_id (ErrorEvent i _) = i"

datatype 'p RPCMessage = RPCMessageEvent 'p RPCEvent | RPCPeerDialed 'p | RPCPeerDisconnected 'p

section \<open>The behaviour of the swarm\<close>

datatype 'p RPCAction = SendEvent 'p RPCEvent | GenerateEvent "'p RPCMessage"

record 'p RPC =
  rpc_events :: "'p RPCAction list"

definition rpc_new :: "'p RPC" where
  "rpc_new = \<lparr>rpc_events = []\<rparr>"

definition rpc_send :: "'p \<Rightarrow> RPCEvent \<Rightarrow> 'p RPC \<Rightarrow> 'p RPC" where
  "rpc_send peer ev b = b\<lparr>rpc_events := rpc_events b @ [SendEvent peer ev]\<rparr>"

definition rpc_inject_connected :: "'p \<Rightarrow> 'p RPC \<Rightarrow> 'p RPC" where
  "rpc_inject_connected peer b = b\<lparr>rpc_events := rpc_events b @ [GenerateEvent (RPCPeerDialed peer)]\<rparr>"

definition rpc_inject_disconnected :: "'p \<Rightarrow> 'p RPC \<Rightarrow> 'p RPC" where
  "rpc_inject_disconnected peer b = b\<lparr>rpc_events := rpc_events b @ [GenerateEvent (RPCPeerDisconnected peer)]\<rparr>"

definition rpc_inject_node_event :: "'p \<Rightarrow> RPCEvent \<Rightarrow> 'p RPC \<Rightarrow> 'p RPC" where
  "rpc_inject_node_event peer ev b = b\<lparr>rpc_events := rpc_events b @ [GenerateEvent (RPCMessageEvent peer ev)]\<rparr>"

definition rpc_poll :: "'p RPC \<Rightarrow> 'p RPCAction option \<times> 'p RPC" where
  "rpc_poll b =
     (case rpc_events b of
        e # es \<Rightarrow> (Some e, b\<lparr>rpc_events := es\<rparr>)
      | [] \<Rightarrow> (None, b))"

section \<open>The handler of a connection\<close>

text \<open>Seconds.\<close>

definition RESPONSE_TIMEOUT :: nat where
  "RESPONSE_TIMEOUT = 10"

datatype KeepAlive = KeepAliveYes | KeepAliveUntil Instant

record 'i WaitingResponse =
  wr_substream :: 'i
  wr_timeout :: Instant

datatype ('f, 'o) SubstreamState =
    ResponsePendingSend 'f
  | RequestPendingResponse 'o RPCEvent Instant

record ('i, 'f, 'o, 'x) RPCHandler =
  pending_error :: "'x option"
  events_out :: "RPCEvent list"
  dial_queue :: "RPCEvent list"
  dial_negotiated :: u32
  waiting_substreams :: "(RequestId \<times> 'i WaitingResponse) list"
  substreams :: "('f, 'o) SubstreamState list"
  current_substream_id :: RequestId
  max_dial_negotiated :: u32
  keep_alive :: KeepAlive
  inactive_timeout :: nat

definition rpc_handler_new :: "nat \<Rightarrow> ('i, 'f, 'o, 'x) RPCHandler" where
  "rpc_handler_new t = \<lparr>
     pending_error = None,
     events_out = [],
     dial_queue = [],
     dial_negotiated = 0,
     waiting_substreams = [],
     substreams = [],
     current_substream_id = 1,
     max_dial_negotiated = 8,
     keep_alive = KeepAliveYes,
     inactive_timeout = t\<rparr>"

definition rpc_handler_default :: "('i, 'f, 'o, 'x) RPCHandler" where
  "rpc_handler_default = rpc_handler_new 30"

definition pending_requests :: "('i, 'f, 'o, 'x) RPCHandler \<Rightarrow> u32" where
  "pending_requests h = dial_negotiated h + of_nat (length (dial_queue h))"

definition send_request :: "RPCEvent \<Rightarrow> ('i, 'f, 'o, 'x) RPCHandler \<Rightarrow> ('i, 'f, 'o, 'x) RPCHandler" where
  "send_request ev h = h\<lparr>keep_alive := KeepAliveYes, dial_queue := dial_queue h @ [ev]\<rparr>"

definition inject_fully_negotiated_inbound ::
  "Instant \<Rightarrow> RPCRequest \<Rightarrow> 'i \<Rightarrow> ('i, 'f, 'o, 'x) RPCHandler \<Rightarrow> ('i, 'f, 'o, 'x) RPCHandler" where
  "inject_fully_negotiated_inbound now req substream h =
     (if is_goodbye req then h\<lparr>events_out := events_out h @ [RequestEvent 0 req]\<rparr>
      else
        let awaiting_stream = \<lparr>wr_substream = substream, wr_timeout = now + RESPONSE_TIMEOUT\<rparr>
        in h\<lparr>waiting_substreams := AList.update (current_substream_id h) awaiting_stream (waiting_substreams h),
             events_out := events_out h @ [RequestEvent (current_substream_id h) req],
             current_substream_id := current_substream_id h + 1\<rparr>)"

definition inject_fully_negotiated_outbound ::
  "Instant \<Rightarrow> 'o \<Rightarrow> RPCEvent \<Rightarrow> ('i, 'f, 'o, 'x) RPCHandler \<Rightarrow> ('i, 'f, 'o, 'x) RPCHandler" where
  "inject_fully_negotiated_outbound now out ev h =
     (let h = h\<lparr>dial_negotiated := dial_negotiated h - 1\<rparr>;
          h = (if dial_negotiated h = 0 \<and> dial_queue h = [] \<and> waiting_substreams h = []
               then h\<lparr>keep_alive := KeepAliveUntil (now + inactive_timeout h)\<rparr>
               else h\<lparr>keep_alive := KeepAliveYes\<rparr>)
      in case ev of
           RequestEvent i req \<Rightarrow>
             if expect_response req
             then h\<lparr>substreams := substreams h @ [RequestPendingResponse out (RequestEvent i req) (now + RESPONSE_TIMEOUT)]\<rparr>
             else h
         | _ \<Rightarrow> h)"

text \<open>\<open>send\<close> is the method \<^verbatim>\<open>send\<close> of a framed substream.\<close>

fun inject_event ::
  "('i \<Rightarrow> RPCResponse \<Rightarrow> 'f) \<Rightarrow> RPCEvent \<Rightarrow> ('i, 'f, 'o, 'x) RPCHandler \<Rightarrow> ('i, 'f, 'o, 'x) RPCHandler" where
  "inject_event send (RequestEvent i q) h = send_request (RequestEvent i q) h"
| "inject_event send (ResponseEvent i res) h =
     (case map_of (waiting_substreams h) i of
        Some waiting_stream \<Rightarrow>
          h\<lparr>waiting_substreams := AList.delete i (waiting_substreams h),
            substreams := substreams h @ [ResponsePendingSend (send (wr_substream waiting_stream) res)]\<rparr>
      | None \<Rightarrow> h)"
| "inject_event send (ErrorEvent _ _) h = h"

definition inject_dial_upgrade_error :: "'x \<Rightarrow> ('i, 'f, 'o, 'x) RPCHandler \<Rightarrow> ('i, 'f, 'o, 'x) RPCHandler" where
  "inject_dial_upgrade_error e h = (if pending_error h = None then h\<lparr>pending_error := Some e\<rparr> else h)"

subsection \<open>Polling\<close>

text \<open>
  What one call of \<open>poll\<close> meets: the clock at each of its readings (by the identifier or the index of the
  substream it is read for) and the results of polling the substreams. Polling a substream runs the codecs of the
  messages, and the decoder of responses can panic; a panic of the substream is a panic of \<open>poll\<close>.
\<close>

datatype 'f send_poll = Sent | SendPending 'f | SendError | SendPanic

datatype 'o recv_poll = Received "RPCResponse option" | RecvPending 'o | RecvError | RecvPanic

record ('f, 'o) Readiness =
  waiting_clock :: "RequestId \<Rightarrow> Instant"
  stream_clock :: "nat \<Rightarrow> Instant"
  poll_send :: "'f \<Rightarrow> 'f send_poll"
  poll_recv :: "'o \<Rightarrow> 'o recv_poll"

datatype HandlerEvent = Custom RPCEvent | OutboundSubstreamRequest RPCRequest RPCEvent

text \<open>\<^verbatim>\<open>Vec::swap_remove\<close>; the result \<open>None\<close> is a panic.\<close>

definition swap_remove :: "nat \<Rightarrow> 'a list \<Rightarrow> ('a \<times> 'a list) option" where
  "swap_remove n xs =
     (if n < length xs then Some (xs ! n, butlast (xs[n := last xs])) else None)"

text \<open>
  The body of the loop: an event to return at once, or the substream to keep, if any. The result \<open>None\<close> is a panic.
\<close>

fun drive_stream ::
  "('f, 'o) Readiness \<Rightarrow> nat \<Rightarrow> ('f, 'o) SubstreamState \<Rightarrow> (RPCEvent + ('f, 'o) SubstreamState option) option" where
  "drive_stream E n (ResponsePendingSend f) =
     (case poll_send E f of
        Sent \<Rightarrow> Some (Inr None)
      | SendPending f' \<Rightarrow> Some (Inr (Some (ResponsePendingSend f')))
      | SendError \<Rightarrow> Some (Inl (ErrorEvent 0 (CodecError ''send codec error'')))
      | SendPanic \<Rightarrow> None)"
| "drive_stream E n (RequestPendingResponse q ev timeout) =
     (case poll_recv E q of
        Received (Some response) \<Rightarrow> Some (Inl (ResponseEvent (event_id ev) response))
      | Received None \<Rightarrow> Some (Inl (ErrorEvent (event_id ev) (CustomError ''Stream closed early. Empty response'')))
      | RecvPending q' \<Rightarrow>
          Some (Inr (if stream_clock E n < timeout then Some (RequestPendingResponse q' ev timeout) else None))
      | RecvError \<Rightarrow> Some (Inl (ErrorEvent (event_id ev) (CodecError ''response codec error'')))
      | RecvPanic \<Rightarrow> None)"

fun drive_streams ::
  "('f, 'o) Readiness \<Rightarrow> nat \<Rightarrow> ('f, 'o) SubstreamState list \<Rightarrow> (RPCEvent option \<times> ('f, 'o) SubstreamState list) option" where
  "drive_streams E 0 ss = Some (None, ss)"
| "drive_streams E (Suc n) ss =
     (case swap_remove n ss of
        None \<Rightarrow> None
      | Some (stream, rest) \<Rightarrow>
          (case drive_stream E n stream of
             None \<Rightarrow> None
           | Some (Inl ev) \<Rightarrow> Some (Some ev, rest)
           | Some (Inr None) \<Rightarrow> drive_streams E n rest
           | Some (Inr (Some stream')) \<Rightarrow> drive_streams E n (rest @ [stream'])))"

definition poll_dial :: "('i, 'f, 'o, 'x) RPCHandler \<Rightarrow> HandlerEvent option \<times> ('i, 'f, 'o, 'x) RPCHandler" where
  "poll_dial h =
     (case dial_queue h of
        ev # evs \<Rightarrow>
          if dial_negotiated h < max_dial_negotiated h then
            let h = h\<lparr>dial_negotiated := dial_negotiated h + 1, dial_queue := evs\<rparr>
            in case ev of
                 RequestEvent i req \<Rightarrow> (Some (OutboundSubstreamRequest req (RequestEvent i req)), h)
               | _ \<Rightarrow> (None, h)
          else (None, h)
      | [] \<Rightarrow> (None, h))"

definition poll ::
  "('f, 'o) Readiness \<Rightarrow> ('i, 'f, 'o, 'x) RPCHandler \<Rightarrow> (HandlerEvent option \<times> ('i, 'f, 'o, 'x) RPCHandler) option" where
  "poll E h =
     (let h = h\<lparr>pending_error := None\<rparr> in
      case events_out h of
        e # es \<Rightarrow> Some (Some (Custom e), h\<lparr>events_out := es\<rparr>)
      | [] \<Rightarrow>
          let h = h\<lparr>waiting_substreams := filter (\<lambda>(k, w). waiting_clock E k \<le> wr_timeout w) (waiting_substreams h)\<rparr>
          in (case drive_streams E (length (substreams h)) (substreams h) of
                None \<Rightarrow> None
              | Some (Some ev, ss) \<Rightarrow> Some (Some (Custom ev), h\<lparr>substreams := ss\<rparr>)
              | Some (None, ss) \<Rightarrow> Some (poll_dial (h\<lparr>substreams := ss\<rparr>))))"

section \<open>Runs of a connection\<close>

text \<open>
  What happened so far, beside the state: the requests to open a substream that the swarm has not resolved, the
  number of those it failed to open, and the identifiers of the requests received and of those answered. The
  contract of the swarm is that every request to open a substream is resolved once, with a substream or with
  an error. Fewer than \<open>2\<^sup>6\<^sup>4\<close> requests are received.
\<close>

record History =
  dialing :: "RPCEvent list"
  failed :: nat
  received :: "RequestId list"
  answered :: "RequestId list"

fun note_answer :: "('i, 'f, 'o, 'x) RPCHandler \<Rightarrow> RPCEvent \<Rightarrow> History \<Rightarrow> History" where
  "note_answer h (ResponseEvent i _) g =
     (if i \<in> fst ` set (waiting_substreams h) then g\<lparr>answered := answered g @ [i]\<rparr> else g)"
| "note_answer h _ g = g"

fun note_dial :: "HandlerEvent option \<Rightarrow> History \<Rightarrow> History" where
  "note_dial (Some (OutboundSubstreamRequest _ ev)) g = g\<lparr>dialing := dialing g @ [ev]\<rparr>"
| "note_dial _ g = g"

inductive rpc_run :: "('i \<Rightarrow> RPCResponse \<Rightarrow> 'f) \<Rightarrow> ('i, 'f, 'o, 'x) RPCHandler \<Rightarrow> History \<Rightarrow> bool" for send where
  run_new: "rpc_run send (rpc_handler_new t) \<lparr>dialing = [], failed = 0, received = [], answered = []\<rparr>"
| run_goodbye: "\<lbrakk>rpc_run send h g; is_goodbye q\<rbrakk> \<Longrightarrow> rpc_run send (inject_fully_negotiated_inbound now q s h) g"
| run_inbound: "\<lbrakk>rpc_run send h g; \<not> is_goodbye q; current_substream_id h \<noteq> - 1\<rbrakk> \<Longrightarrow>
    rpc_run send (inject_fully_negotiated_inbound now q s h) (g\<lparr>received := received g @ [current_substream_id h]\<rparr>)"
| run_outbound: "\<lbrakk>rpc_run send h g; ev \<in> set (dialing g)\<rbrakk> \<Longrightarrow>
    rpc_run send (inject_fully_negotiated_outbound now out ev h) (g\<lparr>dialing := remove1 ev (dialing g)\<rparr>)"
| run_dial_error: "\<lbrakk>rpc_run send h g; ev \<in> set (dialing g)\<rbrakk> \<Longrightarrow>
    rpc_run send (inject_dial_upgrade_error e h) (g\<lparr>dialing := remove1 ev (dialing g), failed := Suc (failed g)\<rparr>)"
| run_event: "rpc_run send h g \<Longrightarrow> rpc_run send (inject_event send ev h) (note_answer h ev g)"
| run_poll: "\<lbrakk>rpc_run send h g; poll E h = Some (r, h')\<rbrakk> \<Longrightarrow> rpc_run send h' (note_dial r g)"

section \<open>The loop over the substreams\<close>

text \<open>The loop, without the exchange of elements: over the substreams with their indices, the last one first.\<close>

fun drive_reference ::
  "('f, 'o) Readiness \<Rightarrow> (nat \<times> ('f, 'o) SubstreamState) list \<Rightarrow> (RPCEvent option \<times> ('f, 'o) SubstreamState list) option" where
  "drive_reference E [] = Some (None, [])"
| "drive_reference E ((n, s) # r) =
     (case drive_stream E n s of
        None \<Rightarrow> None
      | Some (Inl ev) \<Rightarrow> Some (Some ev, map snd r)
      | Some (Inr None) \<Rightarrow> drive_reference E r
      | Some (Inr (Some s')) \<Rightarrow> map_option (\<lambda>(ev, ss). (ev, s' # ss)) (drive_reference E r))"

lemma swap_remove_middle:
  "\<exists>rest'. swap_remove (length xs) (xs @ x # rest) = Some (x, xs @ rest') \<and> mset rest' = mset rest"
proof (cases rest rule: rev_cases)
  case Nil
  then show ?thesis by (simp add: swap_remove_def list_update_append)
next
  case (snoc ys y)
  then show ?thesis by (simp add: swap_remove_def list_update_append butlast_append)
qed

lemma drive_streams_reference:
  "case drive_reference E (rev (enumerate 0 xs)) of
     None \<Rightarrow> drive_streams E (length xs) (xs @ rest) = None
   | Some (ev, ss) \<Rightarrow> \<exists>ss'. drive_streams E (length xs) (xs @ rest) = Some (ev, ss') \<and> mset ss' = mset ss + mset rest"
proof (induction xs arbitrary: rest rule: rev_induct)
  case Nil
  then show ?case by simp
next
  case (snoc x xs)
  obtain rest' where s: "swap_remove (length xs) (xs @ x # rest) = Some (x, xs @ rest')" and m: "mset rest' = mset rest"
    using swap_remove_middle [of xs x rest] by blast
  have e: "rev (enumerate 0 (xs @ [x])) = (length xs, x) # rev (enumerate 0 xs)" by (simp add: enumerate_append_eq)
  consider (panic) "drive_stream E (length xs) x = None" | (event) ev where "drive_stream E (length xs) x = Some (Inl ev)"
    | (kept) k where "drive_stream E (length xs) x = Some (Inr k)"
    by (cases "drive_stream E (length xs) x") (auto elim: sumE)
  then show ?case
  proof cases
    case event
    then show ?thesis by (simp add: e s m flip: map_append) (simp add: rev_map flip: mset_map)
  next
    case kept
    then show ?thesis using snoc.IH [of "rest' @ (case k of None \<Rightarrow> [] | Some x' \<Rightarrow> [x'])"]
      by (auto simp: e s m split: option.splits prod.splits)
  qed (simp add: e s)
qed

lemma drive_reference_panic:
  "drive_reference E (rev (enumerate 0 xs)) = None \<longleftrightarrow>
   (\<exists>n<length xs. drive_stream E n (xs ! n) = None \<and>
      (\<forall>m<length xs. n < m \<longrightarrow> (\<exists>k. drive_stream E m (xs ! m) = Some (Inr k))))" (is "?L xs \<longleftrightarrow> ?R xs")
proof (induction xs rule: rev_induct)
  case Nil
  then show ?case by simp
next
  case (snoc x xs)
  let ?d = "drive_stream E (length xs) x"
  have "?R (xs @ [x]) \<longleftrightarrow> ?d = None \<or> (\<exists>k. ?d = Some (Inr k)) \<and> ?R xs"
    by (simp add: Ex_less_Suc All_less_Suc nth_append cong: conj_cong) blast
  moreover have "?L (xs @ [x]) \<longleftrightarrow> ?d = None \<or> (\<exists>k. ?d = Some (Inr k)) \<and> ?L xs"
    by (cases ?d) (auto simp: enumerate_append_eq split: option.split sum.split)
  ultimately show ?case using snoc by simp
qed

section \<open>Invariants of a connection\<close>

fun is_request :: "RPCEvent \<Rightarrow> bool" where
  "is_request (RequestEvent _ _) = True"
| "is_request _ = False"

definition waiting_ids :: "('i, 'f, 'o, 'x) RPCHandler \<Rightarrow> RequestId set" where
  "waiting_ids h = fst ` set (waiting_substreams h)"

definition dials_ok :: "('i, 'f, 'o, 'x) RPCHandler \<Rightarrow> History \<Rightarrow> bool" where
  "dials_ok h g \<longleftrightarrow> unat (dial_negotiated h) = length (dialing g) + failed g \<and>
     max_dial_negotiated h = 8 \<and> dial_negotiated h \<le> 8 \<and> list_all is_request (dial_queue h)"

definition answers_ok :: "('i, 'f, 'o, 'x) RPCHandler \<Rightarrow> History \<Rightarrow> bool" where
  "answers_ok h g \<longleftrightarrow> distinct (answered g) \<and> set (answered g) \<subseteq> set (received g) \<and> distinct (received g) \<and>
     waiting_ids h \<subseteq> set (received g) - set (answered g) \<and> (\<forall>i\<in>set (received g). i < current_substream_id h)"

lemma poll_panic:
  "poll E h = None \<longleftrightarrow> events_out h = [] \<and> drive_reference E (rev (enumerate 0 (substreams h))) = None"
proof (cases "drive_reference E (rev (enumerate 0 (substreams h)))")
  case None
  then have "drive_streams E (length (substreams h)) (substreams h) = None"
    using drive_streams_reference [of E "substreams h" "[]"] by simp
  then show ?thesis using None by (cases "events_out h") (simp_all add: poll_def Let_def)
next
  case (Some p)
  obtain ev ss where p: "p = (ev, ss)" by force
  then obtain ss' where "drive_streams E (length (substreams h)) (substreams h) = Some (ev, ss')"
    using drive_streams_reference [of E "substreams h" "[]"] Some by auto
  then show ?thesis using Some by (cases "events_out h"; cases ev) (simp_all add: poll_def Let_def)
qed

lemma poll_dial_cases:
  assumes "poll_dial h = (r, h')" "dials_ok h g"
  shows "dials_ok h' (note_dial r g) \<and> waiting_substreams h' = waiting_substreams h \<and>
    current_substream_id h' = current_substream_id h"
proof -
  have "unat (n + 1) = Suc (unat n)" if "n < 8" for n :: u32
    using that by (simp add: unat_word_ariths word_less_nat_alt)
  moreover have "n + 1 \<le> 8" if "n < 8" for n :: u32 using that by (rule inc_le)
  ultimately show ?thesis
    using assms by (auto simp: poll_dial_def dials_ok_def Let_def split: list.splits if_splits RPCEvent.splits)
qed

lemma dials_ok_frame:
  assumes "dials_ok h g" "dial_negotiated h' = dial_negotiated h" "max_dial_negotiated h' = max_dial_negotiated h"
    "dial_queue h' = dial_queue h" "dialing g' = dialing g" "failed g' = failed g"
  shows "dials_ok h' g'"
  using assms by (simp add: dials_ok_def)

lemma poll_keeps:
  assumes "poll E h = Some (r, h')" "dials_ok h g"
  shows "dials_ok h' (note_dial r g) \<and> waiting_ids h' \<subseteq> waiting_ids h \<and> current_substream_id h' = current_substream_id h"
proof (cases "events_out h")
  case (Cons e es)
  then show ?thesis using assms by (auto simp: poll_def Let_def waiting_ids_def intro: dials_ok_frame)
next
  case Nil
  let ?h = "\<lambda>ss. h\<lparr>pending_error := None, waiting_substreams :=
    filter (\<lambda>(k, w). waiting_clock E k \<le> wr_timeout w) (waiting_substreams h), substreams := ss\<rparr>"
  obtain ev ss where d: "drive_streams E (length (substreams h)) (substreams h) = Some (ev, ss)"
    using assms(1) Nil by (auto simp: poll_def Let_def split: option.splits prod.splits)
  have w: "waiting_ids (?h ss) \<subseteq> waiting_ids h" by (auto simp: waiting_ids_def)
  have ok: "dials_ok (?h ss) g" by (rule dials_ok_frame [OF assms(2)]) simp_all
  show ?thesis
  proof (cases ev)
    case None
    then have "poll_dial (?h ss) = (r, h')" using assms(1) Nil d by (simp add: poll_def Let_def)
    from poll_dial_cases [OF this ok] w show ?thesis by (auto simp: waiting_ids_def)
  next
    case (Some e)
    then have "r = Some (Custom e)" "h' = ?h ss" using assms(1) Nil d by (simp_all add: poll_def Let_def)
    then show ?thesis using ok w by simp
  qed
qed

lemma answers_ok_frame:
  assumes "answers_ok h g" "waiting_ids h' \<subseteq> waiting_ids h" "current_substream_id h' = current_substream_id h"
    "received g' = received g" "answered g' = answered g"
  shows "answers_ok h' g'"
  using assms by (auto simp: answers_ok_def)

lemma note_dial_frame [simp]:
  "received (note_dial r g) = received g" "answered (note_dial r g) = answered g" "failed (note_dial r g) = failed g"
  by (induction r g rule: note_dial.induct) simp_all

lemma inbound_answers:
  assumes "answers_ok h g" "\<not> is_goodbye q" "current_substream_id h \<noteq> - 1"
  shows "answers_ok (inject_fully_negotiated_inbound now q s h) (g\<lparr>received := received g @ [current_substream_id h]\<rparr>)"
proof -
  let ?i = "current_substream_id h"
  have "1 + ?i \<noteq> 0" using assms(3) by (metis add.commute max_word_wrap)
  then have lt: "?i < ?i + 1" using unatSuc [of ?i] by (simp add: word_less_nat_alt add.commute)
  have "?i \<notin> set (received g)" "\<forall>i\<in>set (received g). i < ?i + 1"
    using assms(1) lt by (auto simp: answers_ok_def intro: less_trans)
  then show ?thesis
    using assms(1,2) lt
    by (auto simp: answers_ok_def waiting_ids_def inject_fully_negotiated_inbound_def Let_def dom_update)
qed

lemma event_answers:
  assumes "answers_ok h g"
  shows "answers_ok (inject_event send ev h) (note_answer h ev g)"
proof (cases ev)
  case (ResponseEvent i res)
  show ?thesis
  proof (cases "map_of (waiting_substreams h) i")
    case None
    then have "i \<notin> waiting_ids h" by (simp add: waiting_ids_def map_of_eq_None_iff)
    then show ?thesis using assms None ResponseEvent by (simp add: waiting_ids_def)
  next
    case (Some w)
    then have i: "i \<in> waiting_ids h" using map_of_SomeD [OF Some] by (force simp: waiting_ids_def)
    have "waiting_ids (inject_event send ev h) = waiting_ids h - {i}"
      using Some ResponseEvent by (simp add: waiting_ids_def delete_keys flip: set_map)
    moreover have "current_substream_id (inject_event send ev h) = current_substream_id h"
      using Some ResponseEvent by simp
    moreover have "note_answer h ev g = g\<lparr>answered := answered g @ [i]\<rparr>"
      using i ResponseEvent by (simp add: waiting_ids_def)
    ultimately show ?thesis using assms i by (auto simp: answers_ok_def)
  qed
qed (use assms in \<open>auto simp: send_request_def waiting_ids_def intro: answers_ok_frame\<close>)

lemma event_dials:
  assumes "dials_ok h g"
  shows "dials_ok (inject_event send ev h) (note_answer h ev g)"
  using assms by (cases ev) (auto simp: dials_ok_def send_request_def split: option.splits)

lemma outbound_dials:
  assumes "dials_ok h g" "ev \<in> set (dialing g)"
  shows "dials_ok (inject_fully_negotiated_outbound now out ev h) (g\<lparr>dialing := remove1 ev (dialing g)\<rparr>)"
proof -
  let ?h = "inject_fully_negotiated_outbound now out ev h"
  have frame: "dial_negotiated ?h = dial_negotiated h - 1" "max_dial_negotiated ?h = max_dial_negotiated h"
    "dial_queue ?h = dial_queue h"
    by (simp_all add: inject_fully_negotiated_outbound_def Let_def split: RPCEvent.splits)
  have l: "0 < length (dialing g)" using assms(2) by auto
  then have "dial_negotiated h \<noteq> 0" using assms(1) by (auto simp: dials_ok_def unat_eq_0)
  then have "unat (dial_negotiated h - 1) = unat (dial_negotiated h) - 1" by (rule unat_minus_one)
  then show ?thesis
    using assms Suc_pred [OF l] by (auto simp: dials_ok_def frame length_remove1 word_le_nat_alt)
qed

lemma outbound_answers:
  assumes "answers_ok h g"
  shows "answers_ok (inject_fully_negotiated_outbound now out ev h) (g\<lparr>dialing := d\<rparr>)"
  by (rule answers_ok_frame [OF assms])
    (auto simp: inject_fully_negotiated_outbound_def Let_def waiting_ids_def split: RPCEvent.splits)

lemma dial_error_ok:
  assumes "dials_ok h g" "answers_ok h g" "ev \<in> set (dialing g)"
  shows "dials_ok (inject_dial_upgrade_error e h) (g\<lparr>dialing := remove1 ev (dialing g), failed := Suc (failed g)\<rparr>) \<and>
    answers_ok (inject_dial_upgrade_error e h) (g\<lparr>dialing := remove1 ev (dialing g), failed := Suc (failed g)\<rparr>)"
proof -
  have "0 < length (dialing g)" using assms(3) by auto
  then show ?thesis
    using assms by (auto simp: inject_dial_upgrade_error_def dials_ok_def answers_ok_def waiting_ids_def length_remove1)
qed

lemma goodbye_ok:
  assumes "dials_ok h g" "answers_ok h g" "is_goodbye q"
  shows "dials_ok (inject_fully_negotiated_inbound now q s h) g \<and> answers_ok (inject_fully_negotiated_inbound now q s h) g"
  using assms by (simp add: inject_fully_negotiated_inbound_def dials_ok_def answers_ok_def waiting_ids_def)

lemma inbound_dials:
  assumes "dials_ok h g"
  shows "dials_ok (inject_fully_negotiated_inbound now q s h) (g\<lparr>received := r\<rparr>)"
  by (rule dials_ok_frame [OF assms]) (simp_all add: inject_fully_negotiated_inbound_def Let_def)

lemma rpc_run_ok:
  assumes "rpc_run send h g"
  shows "dials_ok h g \<and> answers_ok h g"
  using assms
proof induction
  case (run_poll h g E r h')
  then have "dials_ok h' (note_dial r g) \<and> waiting_ids h' \<subseteq> waiting_ids h \<and> current_substream_id h' = current_substream_id h"
    using poll_keeps [of E h r h' g] by blast
  then show ?case using run_poll.IH answers_ok_frame [of h g h' "note_dial r g"] by simp
next
  case (run_new t)
  show ?case by (simp add: rpc_handler_new_def dials_ok_def answers_ok_def waiting_ids_def)
qed (simp_all add: goodbye_ok inbound_dials inbound_answers outbound_dials outbound_answers dial_error_ok
    event_dials event_answers)

lemma poll_dial_full:
  assumes "poll E h = Some (r, h')" "max_dial_negotiated h \<le> dial_negotiated h"
  shows "dial_queue h' = dial_queue h \<and> (\<forall>q ev. r \<noteq> Some (OutboundSubstreamRequest q ev))"
proof -
  have "(dial_negotiated h < max_dial_negotiated h) = False" using assms(2) by simp
  then show ?thesis
    using assms(1) by (auto simp: poll_def poll_dial_def Let_def split: list.splits option.splits prod.splits)
qed

section \<open>Properties\<close>

text \<open>
  C18: However calls interleave, the handler of a connection gives every request it receives its own identifier,
  answers no request twice and none that it has not received; and at most eight substreams are being opened at a
  time, which the counter of the handler reflects. Polling panics exactly if there is no event to report and the codec of
  a substream panics, with nothing to report from the substreams behind it.
\<close>

theorem rpc_answers_once:
  assumes "rpc_run send h g"
  shows "distinct (received g) \<and> distinct (answered g) \<and> set (answered g) \<subseteq> set (received g) \<and>
    unat (dial_negotiated h) = length (dialing g) + failed g \<and> length (dialing g) + failed g \<le> 8 \<and>
    (poll E h = None \<longleftrightarrow> events_out h = [] \<and>
       (\<exists>n<length (substreams h). drive_stream E n (substreams h ! n) = None \<and>
          (\<forall>m<length (substreams h). n < m \<longrightarrow> (\<exists>k. drive_stream E m (substreams h ! m) = Some (Inr k)))))"
proof -
  have "dial_negotiated h \<le> 8 \<Longrightarrow> unat (dial_negotiated h) \<le> 8" by (simp add: word_le_nat_alt)
  then show ?thesis
    using rpc_run_ok [OF assms] unfolding poll_panic drive_reference_panic by (auto simp: dials_ok_def answers_ok_def)
qed

text \<open>A connection on which nothing can be read or written, and a request.\<close>

definition idle :: "(unit, unit) Readiness" where
  "idle = \<lparr>waiting_clock = (\<lambda>_. 0), stream_clock = (\<lambda>_. 0), poll_send = SendPending, poll_recv = RecvPending\<rparr>"

lemma idle_panic: "drive_stream idle n s \<noteq> None"
  by (cases s) (simp_all add: idle_def)

definition ask :: RPCRequest where
  "ask = BlocksRequest \<lparr>req_head_block_root = H256_default, req_start_slot = 9, req_count = 50, req_step = 1\<rparr>"

definition no_history :: History where
  "no_history = \<lparr>dialing = [], failed = 0, received = [], answered = []\<rparr>"

definition answered_once :: "(unit, unit, unit, unit) RPCHandler" where
  "answered_once =
     inject_event (\<lambda>_ _. ()) (ResponseEvent 1 (BlocksResponse []))
       (inject_fully_negotiated_inbound 0 ask () (rpc_handler_new 30))"

theorem rpc_answers_once_witness:
  "rpc_run (\<lambda>_ _. ()) answered_once (no_history\<lparr>received := [1], answered := [1]\<rparr>) \<and> substreams answered_once \<noteq> [] \<and>
   poll idle answered_once \<noteq> None"
proof -
  let ?h = "inject_fully_negotiated_inbound 0 ask () (rpc_handler_new 30) :: (unit, unit, unit, unit) RPCHandler"
  have "rpc_run (\<lambda>_ _. ()) ?h (no_history\<lparr>received := received no_history @ [current_substream_id (rpc_handler_new 30
      :: (unit, unit, unit, unit) RPCHandler)]\<rparr>)"
    unfolding no_history_def by (intro run_inbound run_new) (simp_all add: ask_def rpc_handler_new_def)
  then have "rpc_run (\<lambda>_ _. ()) ?h (no_history\<lparr>received := [1]\<rparr>)" by (simp add: no_history_def rpc_handler_new_def)
  from run_event [OF this, of "ResponseEvent 1 (BlocksResponse [])"]
  have run: "rpc_run (\<lambda>_ _. ()) answered_once (no_history\<lparr>received := [1], answered := [1]\<rparr>)"
    by (simp add: answered_once_def no_history_def inject_fully_negotiated_inbound_def rpc_handler_new_def ask_def Let_def)
  moreover have "substreams answered_once \<noteq> []"
    by (simp add: answered_once_def inject_fully_negotiated_inbound_def rpc_handler_new_def ask_def Let_def)
  ultimately show ?thesis using rpc_answers_once [OF run, of idle] by (simp add: idle_panic)
qed

text \<open>
  The loop of \<open>poll\<close> over the substreams, which takes each of them out by \<^verbatim>\<open>swap_remove\<close> and puts it back at the end,
  drives every substream exactly once, from the last to the first, up to the first one that panics or has an event; it
  returns that event and keeps the substreams not driven and those still pending.
\<close>

lemma drive_streams_correct:
  "case drive_reference E (rev (enumerate 0 ss)) of
     None \<Rightarrow> drive_streams E (length ss) ss = None
   | Some (ev, kept) \<Rightarrow> \<exists>ss'. drive_streams E (length ss) ss = Some (ev, ss') \<and> mset ss' = mset kept"
  using drive_streams_reference [of E ss "[]"] by (simp only: append_Nil2 mset.simps add_0_right)

text \<open>
  C38: A substream that could not be opened is never taken off the counter of substreams being opened: after eight such
  errors the connection stays open and queues requests, but never sends one of them.
\<close>

theorem rpc_dial_errors_exhaust:
  assumes "rpc_run send h g" "failed g = 8" "poll E h = Some (r, h')"
  shows "dial_queue h' = dial_queue h \<and> (\<forall>q ev. r \<noteq> Some (OutboundSubstreamRequest q ev)) \<and> failed (note_dial r g) = 8"
proof -
  have "dials_ok h g" using rpc_run_ok [OF assms(1)] ..
  then have "max_dial_negotiated h \<le> dial_negotiated h" using assms(2) by (simp add: dials_ok_def word_le_nat_alt)
  then show ?thesis using poll_dial_full [OF assms(3)] assms(2) by simp
qed

lemma failed_dial:
  fixes h :: "(unit, unit, unit, unit) RPCHandler"
  assumes "rpc_run (\<lambda>_ _. ()) h g" "dialing g = []" "events_out h = []" "substreams h = []" "dial_queue h = []" "failed g < 8"
  shows "\<exists>h'. rpc_run (\<lambda>_ _. ()) (h' :: (unit, unit, unit, unit) RPCHandler) (g\<lparr>failed := Suc (failed g)\<rparr>) \<and>
    events_out h' = [] \<and> substreams h' = [] \<and> dial_queue h' = []"
proof -
  let ?ev = "RequestEvent 0 ask"
  have 1: "rpc_run (\<lambda>_ _. ()) (inject_event (\<lambda>_ _. ()) ?ev h) g" using run_event [OF assms(1), of ?ev] by simp
  have "dials_ok h g" using rpc_run_ok [OF assms(1)] ..
  then have "dial_negotiated h < max_dial_negotiated h" using assms(2,6) by (simp add: dials_ok_def word_less_nat_alt)
  then obtain h' where p: "poll idle (inject_event (\<lambda>_ _. ()) ?ev h) = Some (Some (OutboundSubstreamRequest ask ?ev), h')"
    and h': "events_out h' = []" "substreams h' = []" "dial_queue h' = []"
    using assms(3-5) by (simp add: poll_def poll_dial_def send_request_def Let_def)
  have 2: "rpc_run (\<lambda>_ _. ()) h' (g\<lparr>dialing := [?ev]\<rparr>)" using run_poll [OF 1 p] assms(2) by simp
  have "rpc_run (\<lambda>_ _. ()) (inject_dial_upgrade_error () h') (g\<lparr>failed := Suc (failed g)\<rparr>)"
    using run_dial_error [OF 2, of ?ev] assms(2) by (cases g) simp
  then show ?thesis using h' by (intro exI) (auto simp: inject_dial_upgrade_error_def)
qed

lemma failed_dials:
  "n \<le> 8 \<Longrightarrow> \<exists>h. rpc_run (\<lambda>_ _. ()) (h :: (unit, unit, unit, unit) RPCHandler) (no_history\<lparr>failed := n\<rparr>) \<and>
    events_out h = [] \<and> substreams h = [] \<and> dial_queue h = []"
proof (induction n)
  case 0
  show ?case unfolding no_history_def
    by (rule exI [of _ "rpc_handler_new 30"]) (use run_new in \<open>auto simp: rpc_handler_new_def\<close>)
next
  case (Suc n)
  then obtain h where "rpc_run (\<lambda>_ _. ()) (h :: (unit, unit, unit, unit) RPCHandler) (no_history\<lparr>failed := n\<rparr>)"
    "events_out h = []" "substreams h = []" "dial_queue h = []" by auto
  from failed_dial [OF this(1) _ this(2-4)] Suc.prems show ?case by (simp add: no_history_def)
qed

theorem rpc_dial_errors_exhaust_witness:
  "\<exists>h g r h'. rpc_run (\<lambda>_ _. ()) (h :: (unit, unit, unit, unit) RPCHandler) g \<and> failed g = 8 \<and>
     dial_queue h = [RequestEvent 0 ask] \<and> poll idle h = Some (r, h') \<and> dial_queue h' = [RequestEvent 0 ask]"
proof -
  obtain h :: "(unit, unit, unit, unit) RPCHandler"
    where h: "rpc_run (\<lambda>_ _. ()) h (no_history\<lparr>failed := 8\<rparr>)" "dial_queue h = []" using failed_dials [of 8] by auto
  let ?h = "inject_event (\<lambda>_ _. ()) (RequestEvent 0 ask) h"
  have run: "rpc_run (\<lambda>_ _. ()) ?h (no_history\<lparr>failed := 8\<rparr>)" using run_event [OF h(1), of "RequestEvent 0 ask"] by simp
  have q: "dial_queue ?h = [RequestEvent 0 ask]" using h(2) by (simp add: send_request_def)
  have "poll idle ?h \<noteq> None" unfolding poll_panic drive_reference_panic by (simp add: idle_panic)
  then obtain r h' where p: "poll idle ?h = Some (r, h')" by auto
  have "dial_queue h' = [RequestEvent 0 ask]" using rpc_dial_errors_exhaust [OF run _ p] q by simp
  then show ?thesis
    using run q p by (intro exI [of _ ?h] exI [of _ "no_history\<lparr>failed := 8\<rparr>"] exI [of _ r] exI [of _ h']) simp
qed

end
