(* ===== verification/Discovery.thy ===== *)
theory Discovery
  imports Prelude
begin

text \<open>
  The search for peers, \<^verbatim>\<open>blockchain/network/src/discovery.rs\<close>. The timer and the discovery protocol \<^verbatim>\<open>discv5\<close> are
  libraries: a timer is a value of type \<open>'d\<close> and the protocol one of type \<open>'v\<close>, with the operations of the parameter
  \<open>Libp2p\<close>. As the two loops of \<open>poll\<close> read the outside world again in every iteration, the readings take the
  number of the reading as an argument.
\<close>

section \<open>Libraries\<close>

datatype timer_poll = TimerReady | TimerNotReady | TimerError

datatype ('p, 'n) Discv5Event =
    Discovered
  | SocketUpdated 'n
  | FindNodeResult "'p list"
  | OtherDiscv5Event

datatype ('p, 'n) Discv5Action = Discv5Generate "('p, 'n) Discv5Event" | Discv5OtherAction

text \<open>
  \<open>clock\<close> is \<^verbatim>\<open>Instant::now\<close> at a reading, in seconds; \<open>delay_poll\<close> and \<open>delay_reset\<close> are methods of \<^verbatim>\<open>tokio_timer::Delay\<close>,
  \<open>find_node\<close> and \<open>discv5_poll\<close> of \<^verbatim>\<open>Discv5\<close>.
\<close>

record ('d, 'v, 'p, 'n) Libp2p =
  clock :: "nat \<Rightarrow> nat"
  delay_new :: "nat \<Rightarrow> 'd"
  delay_poll :: "nat \<Rightarrow> 'd \<Rightarrow> timer_poll \<times> 'd"
  delay_reset :: "nat \<Rightarrow> 'd \<Rightarrow> 'd"
  find_node :: "nat \<Rightarrow> 'v \<Rightarrow> 'v"
  discv5_poll :: "nat \<Rightarrow> 'v \<Rightarrow> ('p, 'n) Discv5Action option \<times> 'v"

section \<open>The behaviour\<close>

definition MAX_TIME_BETWEEN_PEER_SEARCHES :: u64 where
  "MAX_TIME_BETWEEN_PEER_SEARCHES = 60"

definition INITIAL_SEARCH_DELAY :: u64 where
  "INITIAL_SEARCH_DELAY = 5"

record ('d, 'v, 'p) Discovery =
  disc_connected :: "'p set"
  disc_max_peers :: nat
  peer_discovery_delay :: 'd
  past_discovery_delay :: u64
  tcp_port :: "16 word"
  discv5 :: 'v

definition discovery_new :: "('d, 'v, 'p, 'n) Libp2p \<Rightarrow> nat \<Rightarrow> nat \<Rightarrow> 16 word \<Rightarrow> 'v \<Rightarrow> ('d, 'v, 'p) Discovery" where
  "discovery_new L i peers port v = \<lparr>
     disc_connected = {},
     disc_max_peers = peers,
     peer_discovery_delay = delay_new L (clock L i),
     past_discovery_delay = INITIAL_SEARCH_DELAY,
     tcp_port = port,
     discv5 = v\<rparr>"

text \<open>The state and the delay after the update of the time until the next search.\<close>

definition next_delay :: "('d, 'v, 'p) Discovery \<Rightarrow> u64 \<times> ('d, 'v, 'p) Discovery" where
  "next_delay s =
     (if past_discovery_delay s < MAX_TIME_BETWEEN_PEER_SEARCHES
      then (past_discovery_delay s * 2, s\<lparr>past_discovery_delay := past_discovery_delay s * 2\<rparr>)
      else (MAX_TIME_BETWEEN_PEER_SEARCHES, s))"

definition find_peers :: "('d, 'v, 'p, 'n) Libp2p \<Rightarrow> nat \<Rightarrow> ('d, 'v, 'p) Discovery \<Rightarrow> ('d, 'v, 'p) Discovery" where
  "find_peers L i s =
     (let s = s\<lparr>discv5 := find_node L i (discv5 s)\<rparr>;
          (delay, s) = next_delay s
      in s\<lparr>peer_discovery_delay := delay_reset L (clock L i + unat delay) (peer_discovery_delay s)\<rparr>)"

definition discover_peers :: "('d, 'v, 'p, 'n) Libp2p \<Rightarrow> nat \<Rightarrow> ('d, 'v, 'p) Discovery \<Rightarrow> ('d, 'v, 'p) Discovery" where
  "discover_peers L i s = find_peers L i (s\<lparr>past_discovery_delay := INITIAL_SEARCH_DELAY\<rparr>)"

definition connected_peers :: "('d, 'v, 'p) Discovery \<Rightarrow> nat" where
  "connected_peers s = card (disc_connected s)"

definition discovery_inject_connected :: "'p \<Rightarrow> ('d, 'v, 'p) Discovery \<Rightarrow> ('d, 'v, 'p) Discovery" where
  "discovery_inject_connected p s = s\<lparr>disc_connected := insert p (disc_connected s)\<rparr>"

definition discovery_inject_disconnected :: "'p \<Rightarrow> ('d, 'v, 'p) Discovery \<Rightarrow> ('d, 'v, 'p) Discovery" where
  "discovery_inject_disconnected p s = s\<lparr>disc_connected := disc_connected s - {p}\<rparr>"

subsection \<open>Polling\<close>

text \<open>The loops of \<^verbatim>\<open>poll\<close>; the result \<open>None\<close> is that a loop does not end.\<close>

partial_function (option) search_loop ::
  "('d, 'v, 'p, 'n) Libp2p \<Rightarrow> nat \<Rightarrow> ('d, 'v, 'p) Discovery \<Rightarrow> (nat \<times> ('d, 'v, 'p) Discovery) option" where
  "search_loop L i s =
     (case delay_poll L i (peer_discovery_delay s) of
        (TimerReady, d) \<Rightarrow>
          let s = s\<lparr>peer_discovery_delay := d\<rparr>
          in search_loop L (Suc i) (if card (disc_connected s) < disc_max_peers s then find_peers L i s else s)
      | (TimerNotReady, d) \<Rightarrow> Some (Suc i, s\<lparr>peer_discovery_delay := d\<rparr>)
      | (TimerError, d) \<Rightarrow> search_loop L (Suc i) (s\<lparr>peer_discovery_delay := d\<rparr>))"

datatype ('p, 'n) DiscoveryAction = ReportObservedAddr 'n "16 word" | DialPeer 'p

definition peer_to_dial :: "('d, 'v, 'p) Discovery \<Rightarrow> 'p list \<Rightarrow> 'p option" where
  "peer_to_dial s ps = find (\<lambda>p. card (disc_connected s) < disc_max_peers s \<and> p \<notin> disc_connected s) ps"

fun discovery_event :: "('d, 'v, 'p) Discovery \<Rightarrow> ('p, 'n) Discv5Action \<Rightarrow> ('p, 'n) DiscoveryAction option" where
  "discovery_event s (Discv5Generate (SocketUpdated ip)) = Some (ReportObservedAddr ip (tcp_port s))"
| "discovery_event s (Discv5Generate (FindNodeResult ps)) = map_option DialPeer (peer_to_dial s ps)"
| "discovery_event s _ = None"

partial_function (option) discv5_loop ::
  "('d, 'v, 'p, 'n) Libp2p \<Rightarrow> nat \<Rightarrow> ('d, 'v, 'p) Discovery \<Rightarrow>
   (('p, 'n) DiscoveryAction option \<times> nat \<times> ('d, 'v, 'p) Discovery) option" where
  "discv5_loop L i s =
     (case discv5_poll L i (discv5 s) of
        (None, v) \<Rightarrow> Some (None, Suc i, s\<lparr>discv5 := v\<rparr>)
      | (Some a, v) \<Rightarrow>
          let s = s\<lparr>discv5 := v\<rparr>
          in (case discovery_event s a of
                Some r \<Rightarrow> Some (Some r, Suc i, s)
              | None \<Rightarrow> discv5_loop L (Suc i) s))"

definition discovery_poll ::
  "('d, 'v, 'p, 'n) Libp2p \<Rightarrow> nat \<Rightarrow> ('d, 'v, 'p) Discovery \<Rightarrow>
   (('p, 'n) DiscoveryAction option \<times> nat \<times> ('d, 'v, 'p) Discovery) option" where
  "discovery_poll L i s =
     (case search_loop L i s of
        None \<Rightarrow> None
      | Some (j, s') \<Rightarrow> discv5_loop L j s')"

section \<open>What is relied on of timers\<close>

text \<open>A timer that is due stays due until it is reset, and after a reset to a later time it is not due yet.\<close>

definition timer_law :: "('d, 'v, 'p, 'n) Libp2p \<Rightarrow> bool" where
  "timer_law L \<longleftrightarrow>
     (\<forall>i d d'. delay_poll L i d = (TimerReady, d') \<longrightarrow> fst (delay_poll L (Suc i) d') = TimerReady) \<and>
     (\<forall>i d t. clock L (Suc i) < t \<longrightarrow> fst (delay_poll L (Suc i) (delay_reset L t d)) = TimerNotReady)"

section \<open>Delays\<close>

definition delay_ok :: "('d, 'v, 'p) Discovery \<Rightarrow> bool" where
  "delay_ok s \<longleftrightarrow> past_discovery_delay s \<in> {5, 10, 20, 40, 80}"

lemma delay_ok_frame [simp]:
  "delay_ok (s\<lparr>peer_discovery_delay := d\<rparr>) = delay_ok s"
  "delay_ok (s\<lparr>discv5 := v\<rparr>) = delay_ok s"
  by (simp_all add: delay_ok_def)

lemma next_delay_ok:
  assumes "delay_ok s"
  shows "delay_ok (snd (next_delay s)) \<and> fst (next_delay s) \<in> {10, 20, 40, 80, 60}"
  using assms by (auto simp: next_delay_def delay_ok_def MAX_TIME_BETWEEN_PEER_SEARCHES_def)

lemma find_peers_delay:
  assumes "delay_ok s"
  shows "delay_ok (find_peers L i s) \<and>
    (\<exists>t\<in>{10, 20, 40, 80, 60}. peer_discovery_delay (find_peers L i s) = delay_reset L (clock L i + t) (peer_discovery_delay s))"
proof -
  let ?s = "s\<lparr>discv5 := find_node L i (discv5 s)\<rparr>"
  have 0: "delay_ok ?s" using assms by simp
  obtain d s' where n: "next_delay ?s = (d, s')" by fastforce
  then have p: "peer_discovery_delay s' = peer_discovery_delay s"
    by (auto simp: next_delay_def split: if_splits)
  have "find_peers L i s = s'\<lparr>peer_discovery_delay := delay_reset L (clock L i + unat d) (peer_discovery_delay s)\<rparr>"
    by (simp add: find_peers_def n p)
  moreover have "unat d \<in> {10, 20, 40, 80, 60}" "delay_ok s'" using next_delay_ok [OF 0] n by auto
  ultimately show ?thesis by (intro conjI bexI [of _ "unat d"]) simp_all
qed

lemma find_peers_frame [simp]:
  "disc_connected (find_peers L i s) = disc_connected s"
  "disc_max_peers (find_peers L i s) = disc_max_peers s"
  "tcp_port (find_peers L i s) = tcp_port s"
  by (simp_all add: find_peers_def next_delay_def Let_def)

lemma search_loop_stuck:
  assumes "timer_law L" "fst (delay_poll L i (peer_discovery_delay s)) = TimerReady" "disc_max_peers s \<le> card (disc_connected s)"
  shows "search_loop L i s = None"
proof -
  have "timer_law L \<longrightarrow>
    \<not> (fst (delay_poll L i (peer_discovery_delay s)) = TimerReady \<and> disc_max_peers s \<le> card (disc_connected s))"
    if "search_loop L i s = Some r" for r
    using that
  proof (induction L i s r rule: search_loop.raw_induct [rotated, consumes 1, case_names step])
    case (step search_loop L i s r)
    show ?case
    proof (intro impI notI)
      assume law: "timer_law L" and a: "fst (delay_poll L i (peer_discovery_delay s)) = TimerReady \<and> disc_max_peers s \<le> card (disc_connected s)"
      then obtain d where d: "delay_poll L i (peer_discovery_delay s) = (TimerReady, d)" by (metis prod.collapse)
      then have "search_loop L (Suc i) (s\<lparr>peer_discovery_delay := d\<rparr>) = Some r"
        using step(2) a by (simp add: Let_def)
      moreover have "fst (delay_poll L (Suc i) d) = TimerReady" using law d unfolding timer_law_def by blast
      ultimately show False using step(1) law a by fastforce
    qed
  qed
  then show ?thesis using assms by (cases "search_loop L i s") auto
qed

lemma next_delay_value:
  assumes "delay_ok s"
  shows "unat (fst (next_delay s)) = (if past_discovery_delay s = 80 then 60 else 2 * unat (past_discovery_delay s))"
  using assms by (auto simp: next_delay_def delay_ok_def MAX_TIME_BETWEEN_PEER_SEARCHES_def)

lemma search_loop_frame:
  "search_loop L i s = Some (j, s') \<Longrightarrow>
     disc_connected s' = disc_connected s \<and> disc_max_peers s' = disc_max_peers s \<and> (delay_ok s \<longrightarrow> delay_ok s')"
proof (induction L i s "(j, s')" arbitrary: j s' rule: search_loop.raw_induct [rotated, consumes 1, case_names step])
  case (step search_loop L i s)
  obtain r d where d: "delay_poll L i (peer_discovery_delay s) = (r, d)" by fastforce
  show ?case
  proof (cases r)
    case TimerReady
    then show ?thesis
      using step(2) d step(1) [of L "Suc i" "if card (disc_connected s) < disc_max_peers s
        then find_peers L i (s\<lparr>peer_discovery_delay := d\<rparr>) else s\<lparr>peer_discovery_delay := d\<rparr>" j s']
        find_peers_delay [of "s\<lparr>peer_discovery_delay := d\<rparr>" L i]
      by (auto simp: Let_def split: if_splits)
  next
    case TimerNotReady
    then show ?thesis using step(2) d by auto
  next
    case TimerError
    then show ?thesis using step(2) d step(1) [of L "Suc i" "s\<lparr>peer_discovery_delay := d\<rparr>" j s'] by simp
  qed
qed

lemma discv5_loop_frame:
  "discv5_loop L i s = Some (r, j, s') \<Longrightarrow>
     disc_connected s' = disc_connected s \<and> disc_max_peers s' = disc_max_peers s \<and> (delay_ok s \<longrightarrow> delay_ok s') \<and>
     (\<forall>p. r = Some (DialPeer p) \<longrightarrow> p \<notin> disc_connected s \<and> card (disc_connected s) < disc_max_peers s)"
proof (induction L i s "(r, j, s')" arbitrary: r j s' rule: discv5_loop.raw_induct [rotated, consumes 1, case_names step])
  case (step discv5_loop L i s)
  obtain a v where v: "discv5_poll L i (discv5 s) = (a, v)" by fastforce
  have dial: "p \<notin> disc_connected s \<and> card (disc_connected s) < disc_max_peers s"
    if "discovery_event (s\<lparr>discv5 := v\<rparr>) b = Some (DialPeer p)" for b p
    using that by (induction "s\<lparr>discv5 := v\<rparr>" b rule: discovery_event.induct) (auto simp: peer_to_dial_def find_Some_iff)
  show ?case
  proof (cases a)
    case None
    then show ?thesis using step(2) v by auto
  next
    case (Some b)
    then show ?thesis
      using step(2) v dial [of b] step(1) [of L "Suc i" "s\<lparr>discv5 := v\<rparr>" r j s']
      by (auto simp: Let_def split: option.splits)
  qed
qed

section \<open>Properties\<close>

text \<open>The calls the swarm makes on the behaviour, in any order and at any times.\<close>

inductive discovery_run :: "('d, 'v, 'p, 'n) Libp2p \<Rightarrow> ('d, 'v, 'p) Discovery \<Rightarrow> bool" for L where
  disc_new: "discovery_run L (discovery_new L i peers port v)"
| disc_connect: "discovery_run L s \<Longrightarrow> discovery_run L (discovery_inject_connected p s)"
| disc_disconnect: "discovery_run L s \<Longrightarrow> discovery_run L (discovery_inject_disconnected p s)"
| disc_discover: "discovery_run L s \<Longrightarrow> discovery_run L (discover_peers L i s)"
| disc_poll: "\<lbrakk>discovery_run L s; discovery_poll L i s = Some (r, j, s')\<rbrakk> \<Longrightarrow> discovery_run L s'"

lemma discovery_poll_frame:
  assumes "discovery_poll L i s = Some (r, j, s')"
  shows "disc_connected s' = disc_connected s \<and> disc_max_peers s' = disc_max_peers s \<and> (delay_ok s \<longrightarrow> delay_ok s') \<and>
    (\<forall>p. r = Some (DialPeer p) \<longrightarrow> p \<notin> disc_connected s \<and> card (disc_connected s) < disc_max_peers s)"
proof -
  obtain k t where t: "search_loop L i s = Some (k, t)" "discv5_loop L k t = Some (r, j, s')"
    using assms by (auto simp: discovery_poll_def split: option.splits prod.splits)
  show ?thesis using search_loop_frame [OF t(1)] discv5_loop_frame [OF t(2)] by auto
qed

lemma discovery_run_delay: "discovery_run L s \<Longrightarrow> delay_ok s"
proof (induction rule: discovery_run.induct)
  case (disc_discover s i)
  have "delay_ok (s\<lparr>past_discovery_delay := INITIAL_SEARCH_DELAY\<rparr>)" by (simp add: delay_ok_def INITIAL_SEARCH_DELAY_def)
  then show ?case unfolding discover_peers_def using find_peers_delay by blast
next
  case (disc_poll s i r j s')
  then show ?case using discovery_poll_frame by blast
qed (simp_all add: discovery_new_def discovery_inject_connected_def discovery_inject_disconnected_def delay_ok_def
    INITIAL_SEARCH_DELAY_def)

text \<open>
  Whatever happened before, a search for peers sets the timer to twice the previous delay, or to 60 seconds once
  the delay has reached its last value, which is 80 seconds and so above the declared maximum of 60; and a
  poll asks to dial only a peer that is not connected, and only below the maximal number of peers.
\<close>

lemma discovery_searches:
  assumes "discovery_run L s"
  shows "past_discovery_delay s \<in> {5, 10, 20, 40, 80} \<and>
    peer_discovery_delay (find_peers L i s) =
      delay_reset L (clock L i + (if past_discovery_delay s = 80 then 60 else 2 * unat (past_discovery_delay s)))
        (peer_discovery_delay s) \<and>
    (\<forall>p j s'. discovery_poll L i s = Some (Some (DialPeer p), j, s') \<longrightarrow>
      p \<notin> disc_connected s' \<and> card (disc_connected s') < disc_max_peers s')"
proof (intro conjI allI impI)
  note ok = discovery_run_delay [OF assms]
  then show "past_discovery_delay s \<in> {5, 10, 20, 40, 80}" by (simp add: delay_ok_def)
  let ?s = "s\<lparr>discv5 := find_node L i (discv5 s)\<rparr>"
  have "peer_discovery_delay (find_peers L i s) =
      delay_reset L (clock L i + unat (fst (next_delay ?s))) (peer_discovery_delay s)"
    by (simp add: find_peers_def next_delay_def)
  moreover have "unat (fst (next_delay ?s)) =
      (if past_discovery_delay s = 80 then 60 else 2 * unat (past_discovery_delay s))"
    using next_delay_value [of ?s] ok by simp
  ultimately show "peer_discovery_delay (find_peers L i s) =
      delay_reset L (clock L i + (if past_discovery_delay s = 80 then 60 else 2 * unat (past_discovery_delay s)))
        (peer_discovery_delay s)" by (simp only:)
qed (use discovery_poll_frame in fastforce)+

text \<open>Timers that are their deadline, a clock of one second per reading, and a protocol that finds peer 7 after a search.\<close>

definition toy_libp2p :: "(nat, bool, nat, unit) Libp2p" where
  "toy_libp2p = \<lparr>
     clock = (\<lambda>i. i),
     delay_new = (\<lambda>t. t),
     delay_poll = (\<lambda>i d. (if d \<le> i then TimerReady else TimerNotReady, d)),
     delay_reset = (\<lambda>t _. t),
     find_node = (\<lambda>_ _. True),
     discv5_poll = (\<lambda>_ v. (if v then Some (Discv5Generate (FindNodeResult [7])) else None, False))\<rparr>"

definition toy_discovery :: "nat \<Rightarrow> (nat, bool, nat) Discovery" where
  "toy_discovery peers = discovery_inject_connected 3 (discovery_new toy_libp2p 0 peers 9000 False)"

lemma toy_timer_law: "timer_law toy_libp2p"
  by (simp add: timer_law_def toy_libp2p_def)

lemma toy_discovery_run: "discovery_run toy_libp2p (toy_discovery n)"
  unfolding toy_discovery_def by (intro disc_connect disc_new)

text \<open>
  C37: What a poll does with the search timer. If the timer is not due, the state stays. If it is due below the maximal
  number of peers, exactly one search is started. If it is due with all peers connected, the timer is never
  reset and the poll does not return.
\<close>

theorem discovery_poll_search:
  assumes "timer_law L" "discovery_run L s" "clock L (Suc i) < clock L i + 10"
  shows "case delay_poll L i (peer_discovery_delay s) of
      (TimerNotReady, d) \<Rightarrow> search_loop L i s = Some (Suc i, s\<lparr>peer_discovery_delay := d\<rparr>)
    | (TimerReady, d) \<Rightarrow>
        if connected_peers s < disc_max_peers s then
          \<exists>d'. search_loop L i s = Some (i + 2, (find_peers L i (s\<lparr>peer_discovery_delay := d\<rparr>))\<lparr>peer_discovery_delay := d'\<rparr>)
        else discovery_poll L i s = None
    | (TimerError, d) \<Rightarrow> search_loop L i s = search_loop L (Suc i) (s\<lparr>peer_discovery_delay := d\<rparr>)"
proof -
  obtain r d where d: "delay_poll L i (peer_discovery_delay s) = (r, d)" by fastforce
  let ?s = "s\<lparr>peer_discovery_delay := d\<rparr>" and ?f = "find_peers L i (s\<lparr>peer_discovery_delay := d\<rparr>)"
  have ok: "delay_ok ?s" using discovery_run_delay [OF assms(2)] by simp
  obtain t where t: "t \<in> {10, 20, 40, 80, 60 :: nat}" "peer_discovery_delay ?f = delay_reset L (clock L i + t) d"
    using find_peers_delay [OF ok, of L i] by auto
  then have "clock L (Suc i) < clock L i + t" using assms(3) by auto
  then have "fst (delay_poll L (Suc i) (peer_discovery_delay ?f)) = TimerNotReady"
    using assms(1) t(2) by (simp add: timer_law_def)
  then obtain d' where d': "delay_poll L (Suc i) (peer_discovery_delay ?f) = (TimerNotReady, d')" by (metis prod.collapse)
  show ?thesis
  proof (cases r)
    case TimerReady
    have "search_loop L i s = Some (i + 2, ?f\<lparr>peer_discovery_delay := d'\<rparr>)" if "connected_peers s < disc_max_peers s"
      using that TimerReady d d' by (subst search_loop.simps, subst search_loop.simps) (simp add: connected_peers_def)
    moreover have "discovery_poll L i s = None" if "\<not> connected_peers s < disc_max_peers s"
      using search_loop_stuck [OF assms(1)] that TimerReady d by (simp add: discovery_poll_def connected_peers_def)
    ultimately show ?thesis using TimerReady d by auto
  qed (use d in \<open>simp_all add: search_loop.simps [of L i s]\<close>)
qed

theorem discovery_poll_search_witness:
  "discovery_poll toy_libp2p 0 (toy_discovery 1) = None \<and> connected_peers (toy_discovery 1) = 1 \<and>
   (\<exists>d. search_loop toy_libp2p 0 (toy_discovery 2) =
      Some (2, (find_peers toy_libp2p 0 (toy_discovery 2))\<lparr>peer_discovery_delay := d\<rparr>))"
proof -
  have c: "clock toy_libp2p (Suc 0) < clock toy_libp2p 0 + 10" by (simp add: toy_libp2p_def)
  have p: "delay_poll toy_libp2p 0 (peer_discovery_delay (toy_discovery n)) = (TimerReady, 0)"
    "connected_peers (toy_discovery n) = 1" "disc_max_peers (toy_discovery n) = n"
    "(toy_discovery n)\<lparr>peer_discovery_delay := 0\<rparr> = toy_discovery n" for n
    by (simp_all add: toy_discovery_def toy_libp2p_def discovery_new_def discovery_inject_connected_def connected_peers_def)
  show ?thesis
    using discovery_poll_search [OF toy_timer_law toy_discovery_run c, of 1]
      discovery_poll_search [OF toy_timer_law toy_discovery_run c, of 2] by (simp add: p numeral_2_eq_2)
qed

end
