(* ===== verification/Network_Sync.thy ===== *)
theory Network_Sync
  imports Node RPC_Handler Discovery
begin

text \<open>
  The node on the network, crate \<^verbatim>\<open>blockchain/network\<close>: what it answers from its store (\<^verbatim>\<open>handler.rs\<close>), the events of
  its protocols (\<^verbatim>\<open>behaviour.rs\<close>), and what it does for each event (\<^verbatim>\<open>start_network_simple_sync\<close> in \<^verbatim>\<open>lib.rs\<close>). The
  synchronisation strategy \<^verbatim>\<open>NetworkSync\<close> is a library: its events are inputs, and calls of it are outputs.
  The function \<open>ext\<close> is the method \<^verbatim>\<open>state\<close> of the stored states.
\<close>

section \<open>Answers from the store\<close>

definition handler_status :: "('s \<Rightarrow> BeaconState) \<Rightarrow> (H256, 'b, 's, 'k, 'a, 'e) ChainQuery \<Rightarrow> HelloMessage result" where
  "handler_status ext Q =
     (let head_hash = query_head Q in
      rbind (unwrap (state_at Q head_hash)) (\<lambda>head_state.
      Ok \<lparr>hello_fork_version = current_version (fork (ext head_state)),
        hello_finalized_root = root (finalized_checkpoint (ext head_state)),
        hello_finalized_epoch = epoch (finalized_checkpoint (ext head_state)),
        hello_head_root = head_hash,
        hello_head_slot = slot (ext head_state)\<rparr>))"

definition head_request :: "('s \<Rightarrow> BeaconState) \<Rightarrow> (H256, 'b, 's, 'k, 'a, 'e) ChainQuery \<Rightarrow> nat \<Rightarrow> BeaconBlocksRequest result" where
  "head_request ext Q n =
     (let head_hash = query_head Q in
      rbind (unwrap (state_at Q head_hash)) (\<lambda>head_state.
      Ok \<lparr>req_head_block_root = head_hash,
        req_start_slot = slot (ext head_state) + 1,
        req_count = of_nat n,
        req_step = 1\<rparr>))"

fun blocks_by_depth_no_lock :: "('id, 'b, 's, 'k, 'a, 'e) ChainQuery \<Rightarrow> nat \<Rightarrow> nat \<Rightarrow> 'b list result" where
  "blocks_by_depth_no_lock Q d 0 = Ok []"
| "blocks_by_depth_no_lock Q d (Suc n) =
     (case lookup_canon_depth Q d of
        Ok (Some h) \<Rightarrow>
          rbind (unwrap (block_at Q h)) (\<lambda>block.
          rbind (blocks_by_depth_no_lock Q (Suc d) n) (\<lambda>blocks.
          Ok (block # blocks)))
      | Ok None \<Rightarrow> Ok []
      | Err _ \<Rightarrow> Ok []
      | Panic \<Rightarrow> Panic
      | Diverge \<Rightarrow> Diverge)"

text \<open>\<^verbatim>\<open>let _ = self.import_lock.lock()\<close> drops the guard at once, so nothing is locked.\<close>

definition blocks_by_depth :: "('id, 'b, 's, 'k, 'a, 'e) ChainQuery \<Rightarrow> nat \<Rightarrow> nat \<Rightarrow> 'b list result" where
  "blocks_by_depth Q start_depth n = blocks_by_depth_no_lock Q start_depth n"

text \<open>The loop back to the start slot; the result \<open>Ok None\<close> is the early return of no blocks.\<close>

partial_function (option) start_loop ::
  "('b \<Rightarrow> 'id option) \<Rightarrow> ('s \<Rightarrow> BeaconState) \<Rightarrow> ('id, 'b, 's, 'k, 'a, 'e) ChainQuery \<Rightarrow> Slot \<Rightarrow> 'id \<Rightarrow> 's \<Rightarrow>
   'id option result option" where
  "start_loop parent_id ext Q start_slot start_hash start_state =
     (if slot (ext start_state) > start_slot then
        (case block_at Q start_hash of
           Ok b \<Rightarrow>
             (case parent_id b of
                None \<Rightarrow> Some (Ok (Some start_hash))
              | Some i \<Rightarrow>
                  (case state_at Q i of
                     Ok s \<Rightarrow> start_loop parent_id ext Q start_slot i s
                   | Err _ \<Rightarrow> Some (Ok None) | Panic \<Rightarrow> Some Panic | Diverge \<Rightarrow> Some Diverge))
         | Err _ \<Rightarrow> Some Panic | Panic \<Rightarrow> Some Panic | Diverge \<Rightarrow> Some Diverge)
      else Some (Ok (Some start_hash)))"

definition blocks_by_slot ::
  "('b \<Rightarrow> H256 option) \<Rightarrow> ('s \<Rightarrow> BeaconState) \<Rightarrow> (H256, 'b, 's, 'k, 'a, 'e) ChainQuery \<Rightarrow> H256 \<Rightarrow> Slot \<Rightarrow> nat \<Rightarrow> 'b list result" where
  "blocks_by_slot parent_id ext Q start_hash start_slot n =
     rbind (unwrap (contains Q start_hash)) (\<lambda>c.
     if \<not> c \<or> start_hash = H256_default then blocks_by_depth_no_lock Q 1 n
     else
       rbind (unwrap (is_canon Q start_hash)) (\<lambda>canon.
       if \<not> canon then Ok []
       else (case state_at Q start_hash of
           Err _ \<Rightarrow> Ok []
         | Panic \<Rightarrow> Panic
         | Diverge \<Rightarrow> Diverge
         | Ok start_state \<Rightarrow>
             rbind (or_diverge (start_loop parent_id ext Q start_slot start_hash start_state)) (\<lambda>found.
             case found of
               None \<Rightarrow> Ok []
             | Some start_hash \<Rightarrow>
                 rbind (unwrap (depth_at Q start_hash)) (\<lambda>start_depth.
                 blocks_by_depth_no_lock Q start_depth n)))))"

section \<open>Events of the protocols\<close>

datatype 'p Libp2pEvent =
    LibRPC 'p RPCEvent
  | LibPeerDialed 'p
  | LibPeerDisconnected 'p
  | LibPubsub 'p PubsubMessage

datatype 'p GossipsubEvent = GossipsubMessage 'p "string list" bytes | Subscribed | Unsubscribed

datatype 'p IdentifyEvent = IdentifyReceived 'p | IdentifySent | IdentifyError

text \<open>The queue of events of \<^verbatim>\<open>Behaviour\<close>, filled by its protocols and emptied by the swarm.\<close>

fun inject_gossipsub :: "Config \<Rightarrow> 'p GossipsubEvent \<Rightarrow> 'p Libp2pEvent list \<Rightarrow> 'p Libp2pEvent list result" where
  "inject_gossipsub C (GossipsubMessage peer topics data) events =
     (case filter (\<lambda>v. v \<noteq> None) (map from_gossipsub_topic_hash topics) of
        Some t # _ \<Rightarrow>
          (case from_ssz_data C t data of
             Ok msg \<Rightarrow> Ok (events @ [LibPubsub peer msg])
           | Err _ \<Rightarrow> Ok events
           | Panic \<Rightarrow> Panic
           | Diverge \<Rightarrow> Diverge)
      | _ \<Rightarrow> Ok events)"
| "inject_gossipsub C Subscribed events = Ok events"
| "inject_gossipsub C Unsubscribed events = Ok events"

fun inject_rpc_message :: "'p RPCMessage \<Rightarrow> 'p Libp2pEvent list \<Rightarrow> 'p Libp2pEvent list" where
  "inject_rpc_message (RPCPeerDialed peer) events = events @ [LibPeerDialed peer]"
| "inject_rpc_message (RPCPeerDisconnected peer) events = events @ [LibPeerDisconnected peer]"
| "inject_rpc_message (RPCMessageEvent peer ev) events = events @ [LibRPC peer ev]"

fun inject_identify :: "'p IdentifyEvent \<Rightarrow> 'p Libp2pEvent list \<Rightarrow> 'p Libp2pEvent list" where
  "inject_identify (IdentifyReceived peer) events = events @ [LibPeerDialed peer]"
| "inject_identify IdentifySent events = events"
| "inject_identify IdentifyError events = events"

fun behaviour_poll :: "'p Libp2pEvent list \<Rightarrow> 'p Libp2pEvent option \<times> 'p Libp2pEvent list" where
  "behaviour_poll (e # events) = (Some e, events)"
| "behaviour_poll [] = (None, [])"

text \<open>The topic and the data that are given to the gossip protocol.\<close>

definition publish :: "Config \<Rightarrow> PubsubMessage \<Rightarrow> string \<times> bytes" where
  "publish C m = (gossipsub_topic_hash (pubsub_type m), ssz_data C m)"

section \<open>Synchronisation\<close>

datatype 'p SyncEvent = QueryStatus | QueryPeerStatus 'p | QueryBlocks 'p

datatype 'p NodeAction =
    SendRPC 'p RPCEvent
  | NoteConnected 'p
  | NoteDisconnected 'p
  | NotePeerStatus 'p HelloMessage
  | NoteStatus HelloMessage
  | NoteBlocks "BeaconBlock list" "'p option"

fun on_rpc_event ::
  "('s \<Rightarrow> BeaconState) \<Rightarrow> (H256, BeaconBlock, 's, 'k, 'a, 'e) ChainQuery \<Rightarrow> 'p \<Rightarrow> RPCEvent \<Rightarrow> 'p NodeAction list result" where
  "on_rpc_event ext Q peer (RequestEvent i (BlocksRequest request)) =
     rbind (blocks_by_slot beacon_parent_id ext Q (req_head_block_root request) (req_start_slot request) 1) (\<lambda>blocks.
     Ok [SendRPC peer (ResponseEvent i (BlocksResponse blocks))])"
| "on_rpc_event ext Q peer (RequestEvent i (HelloRequest hello)) =
     rbind (handler_status ext Q) (\<lambda>status.
     Ok [SendRPC peer (ResponseEvent i (HelloResponse status)), NotePeerStatus peer hello])"
| "on_rpc_event ext Q peer (ResponseEvent _ (HelloResponse hello)) = Ok [NotePeerStatus peer hello]"
| "on_rpc_event ext Q peer (ResponseEvent _ (BlocksResponse blocks)) = Ok [NoteBlocks blocks (Some peer)]"
| "on_rpc_event ext Q peer _ = Ok []"

fun on_libp2p_event ::
  "('s \<Rightarrow> BeaconState) \<Rightarrow> (H256, BeaconBlock, 's, 'k, 'a, 'e) ChainQuery \<Rightarrow> 'p Libp2pEvent \<Rightarrow> 'p NodeAction list result" where
  "on_libp2p_event ext Q (LibPeerDialed peer) = Ok [NoteConnected peer]"
| "on_libp2p_event ext Q (LibPeerDisconnected peer) = Ok [NoteDisconnected peer]"
| "on_libp2p_event ext Q (LibPubsub peer message) = Ok []"
| "on_libp2p_event ext Q (LibRPC peer ev) = on_rpc_event ext Q peer ev"

fun on_sync_event ::
  "('s \<Rightarrow> BeaconState) \<Rightarrow> (H256, BeaconBlock, 's, 'k, 'a, 'e) ChainQuery \<Rightarrow> 'p SyncEvent \<Rightarrow> 'p NodeAction list result" where
  "on_sync_event ext Q QueryStatus = rbind (handler_status ext Q) (\<lambda>status. Ok [NoteStatus status])"
| "on_sync_event ext Q (QueryPeerStatus peer) =
     rbind (handler_status ext Q) (\<lambda>status. Ok [SendRPC peer (RequestEvent 0 (HelloRequest status))])"
| "on_sync_event ext Q (QueryBlocks peer) =
     rbind (head_request ext Q 50) (\<lambda>request. Ok [SendRPC peer (RequestEvent 0 (BlocksRequest request))])"

section \<open>Serving blocks\<close>

lemma blocks_by_depth_canonical:
  assumes "\<And>d h. lookup_canon_depth Q d = Ok (Some h) \<Longrightarrow> \<exists>b. block_at Q h = Ok b"
    and "\<And>d. lookup_canon_depth Q d \<noteq> Panic \<and> lookup_canon_depth Q d \<noteq> Diverge"
  shows "\<exists>bs. blocks_by_depth_no_lock Q d n = Ok bs \<and> length bs \<le> n \<and>
    (\<forall>i<length bs. \<exists>h. lookup_canon_depth Q (d + i) = Ok (Some h) \<and> block_at Q h = Ok (bs ! i))"
proof (induction n arbitrary: d)
  case (Suc n)
  show ?case
  proof (cases "\<exists>h. lookup_canon_depth Q d = Ok (Some h)")
    case True
    then obtain h b where h: "lookup_canon_depth Q d = Ok (Some h)" "block_at Q h = Ok b" using assms(1) by blast
    obtain bs where bs: "blocks_by_depth_no_lock Q (Suc d) n = Ok bs" "length bs \<le> n"
      "\<forall>i<length bs. \<exists>h. lookup_canon_depth Q (Suc d + i) = Ok (Some h) \<and> block_at Q h = Ok (bs ! i)"
      using Suc.IH by blast
    have "\<exists>h. lookup_canon_depth Q (d + i) = Ok (Some h) \<and> block_at Q h = Ok ((b # bs) ! i)" if "i < Suc (length bs)" for i
      using that h bs(3) by (cases i) auto
    then show ?thesis using h bs(1,2) by simp
  next
    case False
    then show ?thesis using assms(2) [of d] by (cases "lookup_canon_depth Q d") (auto split: option.splits)
  qed
qed simp

context chain_store
begin

lemma start_loop_known:
  assumes "valid st" "\<And>y. y \<in> known st \<Longrightarrow> \<exists>s. state_at (query st) y = Ok s" "x \<in> known st"
  shows "\<exists>h. start_loop parent_id ext (query st) k x s = Some (Ok (Some h)) \<and> h \<in> known st \<and> descends (par st) x h"
  using assms(3)
proof (induction "dep st x" arbitrary: x s rule: less_induct)
  case less
  obtain b where b: "block_at (query st) x = Ok b" "parent_id b = par st x" using block_known [OF assms(1) less.prems] by blast
  show ?case
  proof (cases "slot (ext s) > k")
    case True
    show ?thesis
    proof (cases "par st x")
      case None
      then show ?thesis using True b less.prems by (subst start_loop.simps) (auto intro: descends.intros)
    next
      case (Some p)
      then have p: "p \<in> known st" "dep st p < dep st x" using parent_known [OF assms(1) less.prems] by auto
      obtain t where t: "state_at (query st) p = Ok t" using assms(2) [OF p(1)] by blast
      obtain h where "start_loop parent_id ext (query st) k p t = Some (Ok (Some h))" "h \<in> known st" "descends (par st) p h"
        using less.hyps [OF p(2,1)] by blast
      then show ?thesis using True b Some t by (subst start_loop.simps) (auto intro: descends.intros)
    qed
  qed (use less.prems in \<open>subst start_loop.simps, auto intro: descends.intros\<close>)
qed

end

text \<open>
  A node with a database of its own answers every request that starts at a block it knows, with blocks of
  its canonical chain in order.
\<close>

lemma rocks_serves_blocks:
  assumes law: "rocksdb_law L" "coding_ok P" "rocks_chain L P r" and x: "x \<in> rocks_known L P r" "x \<noteq> H256_default"
    and canon: "\<And>d h. lookup_canon_depth (rocks_query L P r) d = Ok (Some h) \<Longrightarrow> h \<in> rocks_known L P r"
  shows "\<exists>bs d. blocks_by_slot (block_parent_id P) ext (rocks_query L P r) x k n = Ok bs \<and> length bs \<le> n \<and>
    (\<forall>i<length bs. \<exists>h. lookup_canon_depth (rocks_query L P r) (d + i) = Ok (Some h) \<and>
      block_at (rocks_query L P r) h = Ok (bs ! i))"
proof -
  let ?Q = "rocks_query L P r"
  have v: "rocks_valid L P r" by (rule rocks_chain_valid [OF law])
  have known: "\<exists>d. existing_block L P (rocks_db r) y = Ok d" if "y \<in> rocks_known L P r" for y
    using that by (auto simp: rocks_known_def dest: existing_block_known)
  then have states: "\<exists>s. state_at ?Q y = Ok s" if "y \<in> rocks_known L P r" for y
    using that by (fastforce simp: rocks_query_def)
  obtain d where "blocks_of L P (rocks_db r) x = Some d" using x(1) by (auto simp: rocks_known_def)
  then have c: "contains ?Q x = Ok True" by (simp add: rocks_query_def blocks_of_Some)
  obtain cn where cn: "is_canon ?Q x = Ok cn" using known [OF x(1)] by (auto simp: rocks_query_def)
  obtain s where s: "state_at ?Q x = Ok s" using states [OF x(1)] by blast
  obtain h where h: "start_loop (block_parent_id P) ext ?Q k x s = Some (Ok (Some h))" "h \<in> rocks_known L P r"
    using rocks.start_loop_known [OF v states x(1)] by blast
  have dep: "depth_at ?Q h = Ok (rocks_depth L P r h)" by (rule rocks.depth_known [OF v h(2)])
  have "\<exists>b. block_at ?Q y = Ok b" if "lookup_canon_depth ?Q m = Ok (Some y)" for m y
    using rocks.block_known [OF v canon [OF that]] by blast
  moreover have "lookup_canon_depth ?Q m \<noteq> Panic \<and> lookup_canon_depth ?Q m \<noteq> Diverge" for m
    by (simp add: rocks_query_def)
  ultimately obtain bs where "blocks_by_depth_no_lock ?Q (rocks_depth L P r h) n = Ok bs \<and> length bs \<le> n \<and>
    (\<forall>i<length bs. \<exists>y. lookup_canon_depth ?Q (rocks_depth L P r h + i) = Ok (Some y) \<and> block_at ?Q y = Ok (bs ! i))"
    using blocks_by_depth_canonical [of ?Q "rocks_depth L P r h" n] by blast
  then show ?thesis
    using x(2) by (cases cn) (auto simp: blocks_by_slot_def c cn s h(1) dep or_diverge_def)
qed

section \<open>Gossip\<close>

text \<open>The sizes of the fixed parts of the messages, offsets included.\<close>

fun fixed_part :: "PubsubType \<Rightarrow> nat" where
  "fixed_part BlockTopic = 172"
| "fixed_part AttestationTopic = 232"
| "fixed_part VoluntaryExitTopic = 112"
| "fixed_part ProposerSlashingTopic = 408"
| "fixed_part AttesterSlashingTopic = 8"

lemma decode_heads_short:
  assumes "length v < pos + sum_list (map (\<lambda>t. case t of Some n \<Rightarrow> n | None \<Rightarrow> 4) ts)" "pos \<le> length v"
  shows "decode_heads v ts pos = Panic"
  using assms
proof (induction ts arbitrary: pos)
  case (Cons t ts)
  let ?n = "case t of Some n \<Rightarrow> n | None \<Rightarrow> 4"
  show ?case
  proof (cases "pos + ?n \<le> length v")
    case True
    then have "decode_heads v ts (pos + ?n) = Panic" using Cons by simp
    moreover have "\<exists>off. decode uint_codec (take 4 (drop pos v)) = Ok (off :: LengthOffset)" if "t = None"
      using True that by (simp add: uint_codec_def)
    ultimately show ?thesis using True by (cases t) (auto simp: slice_def offset_len_4)
  qed (auto simp: slice_def offset_len_4 split: option.splits)
qed simp

lemma decode_short:
  assumes "length v < sum_list (map (\<lambda>t. case t of Some n \<Rightarrow> n | None \<Rightarrow> 4) (decode_sizes F))"
  shows "decode (container_codec F out mk) v = Panic"
  using decode_heads_short [of v 0 "decode_sizes F"] assms by (simp add: container_codec_def decode_vector_def)

lemma topic_sizes:
  "codec_size (BeaconBlockBody_codec C) = None" "codec_size (IndexedAttestation_codec C) = None"
  by (simp_all add: BeaconBlockBody_codec_def IndexedAttestation_codec_def add_field_def no_fields_def hash_codecs
      VariableSize_def Let_def)

lemma from_ssz_data_short:
  assumes "length data < fixed_part t"
  shows "from_ssz_data C t data = Panic"
  using assms
  by (cases t)
    (simp_all add: BeaconBlock_codec_def Attestation_codec_def VoluntaryExit_codec_def ProposerSlashing_codec_def
      AttesterSlashing_codec_def decode_short add_field_def no_fields_def hash_codecs topic_sizes Let_def)

lemma gossip_topic: "from_gossipsub_topic_hash (gossipsub_topic_hash t) = Some t"
  by (cases t) (simp_all add: from_gossipsub_topic_hash_def)

section \<open>Properties\<close>

text \<open>
  C39: A node that asks for blocks gets back its own head and so learns nothing. The request starts at the head of
  the node that asks, and the answer is the one block at that point of the canonical chain, whatever blocks the
  other node has above it.
\<close>

theorem sync_request_returns_head:
  assumes head: "query_head Q = h" "state_at Q h = Ok s" "h \<noteq> H256_default" "slot (ext s) \<noteq> - 1"
    and peer: "contains Q' h = Ok True" "is_canon Q' h = Ok True" "state_at Q' h = Ok s'" "slot (ext s') = slot (ext s)"
      "depth_at Q' h = Ok d" "lookup_canon_depth Q' d = Ok (Some h)" "block_at Q' h = Ok b"
  shows "\<exists>r. on_sync_event ext Q (QueryBlocks p') = Ok [SendRPC p' (RequestEvent 0 (BlocksRequest r))] \<and>
    on_libp2p_event ext Q' (LibRPC p (RequestEvent i (BlocksRequest r))) =
      Ok [SendRPC p (ResponseEvent i (BlocksResponse [b]))]"
proof -
  let ?r = "\<lparr>req_head_block_root = h, req_start_slot = slot (ext s) + 1, req_count = 50, req_step = 1\<rparr>"
  have "1 + slot (ext s) \<noteq> 0" using head(4) by (metis add.commute max_word_wrap)
  then have "(slot (ext s) + 1 < slot (ext s)) = False"
    using unatSuc [of "slot (ext s)"] by (simp add: word_less_nat_alt add.commute)
  then have loop: "start_loop beacon_parent_id ext Q' (slot (ext s) + 1) h s' = Some (Ok (Some h))"
    using peer(4) by (subst start_loop.simps) simp
  have "blocks_by_slot beacon_parent_id ext Q' h (slot (ext s) + 1) 1 = Ok [b]"
    using head(3) by (simp add: blocks_by_slot_def peer loop or_diverge_def)
  then show ?thesis by (intro exI [of _ ?r]) (simp add: head_request_def head)
qed

text \<open>Two nodes, one with a single block and one with a second block above it.\<close>

definition first_block :: BeaconBlock where
  "first_block = BeaconBlock_default\<lparr>bb_slot := 1\<rparr>"

definition node_with :: "nat \<Rightarrow> (H256, BeaconBlock, BeaconState, unit, unit, string) ChainQuery" where
  "node_with n =
     (let ids = take n [replicate 32 1, replicate 32 2] in \<lparr>
        query_genesis = replicate 32 1,
        query_head = last ids,
        contains = (\<lambda>i. Ok (i \<in> set ids)),
        is_canon = (\<lambda>i. Ok (i \<in> set ids)),
        lookup_canon_depth = (\<lambda>d. Ok (if d < n then Some (ids ! d) else None)),
        auxiliary = (\<lambda>_. Ok None),
        depth_at = (\<lambda>i. Ok (if i = replicate 32 1 then 0 else 1)),
        children_at = (\<lambda>_. Ok []),
        state_at = (\<lambda>i. if i \<in> set ids then Ok ((BeaconState_default (MinimalConfig toy_hashing))\<lparr>slot := (if i = replicate 32 1 then 1 else 2)\<rparr>) else Err ''unknown''),
        block_at = (\<lambda>i. if i \<in> set ids then Ok (first_block\<lparr>bb_slot := (if i = replicate 32 1 then 1 else 2)\<rparr>) else Err ''unknown'')\<rparr>)"

theorem sync_request_returns_head_witness:
  "\<exists>r. on_sync_event id (node_with 1) (QueryBlocks True) = Ok [SendRPC True (RequestEvent 0 (BlocksRequest r))] \<and>
    on_libp2p_event id (node_with 2) (LibRPC False (RequestEvent 3 (BlocksRequest r))) =
      Ok [SendRPC False (ResponseEvent 3 (BlocksResponse [first_block]))]"
proof (rule sync_request_returns_head)
  show "query_head (node_with 1) = replicate 32 1" "lookup_canon_depth (node_with 2) 0 = Ok (Some (replicate 32 1))"
    "depth_at (node_with 2) (replicate 32 1) = Ok 0" by (simp_all add: node_with_def)
  show "state_at (node_with 1) (replicate 32 1) = Ok ((BeaconState_default (MinimalConfig toy_hashing))\<lparr>slot := 1\<rparr>)"
    "state_at (node_with 2) (replicate 32 1) = Ok ((BeaconState_default (MinimalConfig toy_hashing))\<lparr>slot := 1\<rparr>)"
    "contains (node_with 2) (replicate 32 1) = Ok True" "is_canon (node_with 2) (replicate 32 1) = Ok True"
    "block_at (node_with 2) (replicate 32 1) = Ok first_block"
    by (simp_all add: node_with_def first_block_def)
qed (simp_all add: H256_default_def)

text \<open>
  C20: A message that is published arrives: under its topic its data becomes exactly one event, with the message that was
  sent. But data shorter than the fixed part of the messages of its topic, which any peer can send, makes the
  node panic.
\<close>

theorem gossip_delivery:
  assumes "pubsub_ok C m" "length data < fixed_part t"
  shows "inject_gossipsub C (GossipsubMessage peer [fst (publish C m)] (snd (publish C m))) events =
      Ok (events @ [LibPubsub peer m]) \<and>
    inject_gossipsub C (GossipsubMessage peer [gossipsub_topic_hash t] data) events = Panic"
proof -
  have "from_ssz_data C (pubsub_type m) (ssz_data C m) = Ok m" using gossip_roundtrip [OF assms(1)] by simp
  then show ?thesis by (simp add: publish_def gossip_topic from_ssz_data_short [OF assms(2)])
qed

definition sample_exit :: VoluntaryExit where
  "sample_exit = \<lparr>ve_epoch = 3, ve_validator_index = 1, ve_signature = Signature_default\<rparr>"

theorem gossip_delivery_witness:
  "inject_gossipsub (MinimalConfig toy_hashing) (GossipsubMessage True
      [fst (publish (MinimalConfig toy_hashing) (VoluntaryExitMessage sample_exit))]
      (snd (publish (MinimalConfig toy_hashing) (VoluntaryExitMessage sample_exit)))) [] =
    Ok [LibPubsub True (VoluntaryExitMessage sample_exit)] \<and>
   inject_gossipsub (MinimalConfig toy_hashing) (GossipsubMessage True [''/eth2/beacon_block/ssz''] []) [] = Panic"
proof -
  have "pubsub_ok (MinimalConfig toy_hashing) (VoluntaryExitMessage sample_exit)"
    by (simp add: sample_exit_def fits_def VoluntaryExit_ok_def VoluntaryExit_codec_def measure_encoding)
  from gossip_delivery [OF this, of "[]" BlockTopic True "[]"] show ?thesis by simp
qed

end
