(* ===== verification/Serde.thy ===== *)
theory Serde
  imports SSZ
begin

unbundle bit_operations_syntax

text \<open>
  The text formats of bit sequences and integers, \<^verbatim>\<open>beacon/src/utils/serde.rs\<close>. The hexadecimal form of bytes is left to
  the library \<^verbatim>\<open>impl_serde\<close>, so that bit sequences are related to bytes here. They are shown to have the bytes of their
  SimpleSerialize encoding and to be read back.
\<close>

section \<open>Bit sequences\<close>

definition serialize_bitseq :: "bool list \<Rightarrow> bool \<Rightarrow> bytes" where
  "serialize_bitseq value is_list =
     (let n = length value;
          bytes = set_bits value (replicate ((n + (if is_list then 8 else 7)) div 8) 0)
      in if is_list then bytes[n div 8 := bytes ! (n div 8) OR push_bit (n mod 8) 1] else bytes)"

definition serialize_bitlist :: "bool list \<Rightarrow> bytes" where
  "serialize_bitlist value = serialize_bitseq value True"

definition serialize_bitvector :: "bool list \<Rightarrow> bytes" where
  "serialize_bitvector value = serialize_bitseq value False"

text \<open>The loop of \<^verbatim>\<open>deserialize_bitseq\<close>; an index out of range panics.\<close>

function bitseq_loop :: "bytes \<Rightarrow> u64 \<Rightarrow> nat \<Rightarrow> bool list \<Rightarrow> (string, bool list) res" where
  "bitseq_loop v n i ret =
     (if i < unat n
      then if i div 8 \<ge> length v then Panic
           else bitseq_loop v n (i + 1) (ret @ [test_bit v i])
      else Ok ret)"
  by pat_completeness auto

termination
  by (relation "measure (\<lambda>(v, n, i, ret). unat n - i)") auto

declare bitseq_loop.simps [simp del]

definition deserialize_bitseq :: "bytes \<Rightarrow> bool \<Rightarrow> (string, bool list) res" where
  "deserialize_bitseq v is_list =
     (if v = [] then Panic
      else bitseq_loop v ((len64 v - 1) * 8 + ((if is_list then 7 else 8) - of_nat (leading_zeros (last v)))) 0 [])"

definition deserialize_bitlist :: "bytes \<Rightarrow> (string, bool list) res" where
  "deserialize_bitlist v = deserialize_bitseq v True"

definition deserialize_bitvector :: "nat \<Rightarrow> bytes \<Rightarrow> (string, bool list) res" where
  "deserialize_bitvector n v =
     rbind (deserialize_bitseq v False) (\<lambda>ret.
     let padded = ret @ replicate (n - length ret) False
     in if length padded = n then Ok padded else Err ''Invalid bitlist'')"

section \<open>Integers\<close>

text \<open>\<^verbatim>\<open>char::to_digit\<close> and \<^verbatim>\<open>u64::from_str_radix\<close>.\<close>

definition to_digit :: "nat \<Rightarrow> char \<Rightarrow> nat option" where
  "to_digit radix c =
     (let k = of_char c :: nat;
          d = (if 48 \<le> k \<and> k \<le> 57 then Some (k - 48)
               else if 97 \<le> k \<and> k \<le> 122 then Some (k - 87)
               else if 65 \<le> k \<and> k \<le> 90 then Some (k - 55) else None)
      in case d of Some n \<Rightarrow> if n < radix then Some n else None | None \<Rightarrow> None)"

fun parse_digits :: "nat \<Rightarrow> string \<Rightarrow> nat \<Rightarrow> (string, nat) res" where
  "parse_digits radix [] acc = Ok acc"
| "parse_digits radix (c # cs) acc =
     (case to_digit radix c of
        None \<Rightarrow> Err ''invalid digit found in string''
      | Some d \<Rightarrow>
          if acc * radix + d < 2 ^ 64 then parse_digits radix cs (acc * radix + d)
          else Err ''number too large to fit in target type'')"

definition from_str_radix :: "nat \<Rightarrow> string \<Rightarrow> (string, u64) res" where
  "from_str_radix radix src =
     (if src = [] then Err ''cannot parse integer from empty string''
      else let digits = (if src ! 0 = CHR ''+'' \<and> 1 < length src then drop 1 src else src)
           in rbind (parse_digits radix digits 0) (\<lambda>n. Ok (of_nat n)))"

text \<open>\<^verbatim>\<open>UintVisitor\<close>: a number, or a string in decimal or hexadecimal.\<close>

definition visit_u64 :: "u64 \<Rightarrow> (string, u64) res" where
  "visit_u64 value = Ok value"

definition visit_str :: "string \<Rightarrow> (string, u64) res" where
  "visit_str value =
     (if length value = 0 then Ok 0
      else if length value = 2 \<and> take 2 value = ''0x'' then Ok 0
      else if take 2 value = ''0x'' then map_err (\<lambda>e. ''Invalid hex value '' @ value @ '': '' @ e) (from_str_radix 16 (drop 2 value))
      else map_err (\<lambda>e. ''Invalid decimal value '' @ value @ '': '' @ e) (from_str_radix 10 value))"

section \<open>Bit sequences are read back\<close>

lemma serialize_bitlist_ssz: "serialize_bitlist bits = bitlist_encode bits"
  by (simp add: serialize_bitlist_def serialize_bitseq_def bitlist_encode_def add.commute)

lemma serialize_bitvector_ssz: "serialize_bitvector bits = bits_encode bits"
  by (simp add: serialize_bitvector_def serialize_bitseq_def bits_encode_def)

lemma bitseq_loop_reads:
  assumes "unat n \<le> 8 * length v" "i \<le> unat n"
  shows "bitseq_loop v n i ret = Ok (ret @ map (test_bit v) [i..<unat n])"
  using assms
proof (induction v n i ret rule: bitseq_loop.induct)
  case (1 v n i ret)
  show ?case
  proof (cases "i < unat n")
    case True
    then have "i div 8 < length v" using 1(2) by linarith
    then show ?thesis using 1 True by (subst bitseq_loop.simps) (simp add: upt_conv_Cons)
  next
    case False
    then show ?thesis using 1(3) by (subst bitseq_loop.simps) simp
  qed
qed

text \<open>The number of bits up to the highest one bit of a byte.\<close>

lemma leading_zeros_spec:
  "leading_zeros b \<le> 8" "8 - leading_zeros b \<le> j \<Longrightarrow> j < 8 \<Longrightarrow> \<not> bit b j"
  "leading_zeros b < 8 \<Longrightarrow> bit b (7 - leading_zeros b)"
proof -
  show "leading_zeros b \<le> 8"
    using length_takeWhile_le [of "\<lambda>i. \<not> bit b i" "rev [0..<8]"] by (simp add: leading_zeros_def)
  let ?p = "\<lambda>i. \<not> bit b i"
  have nth: "rev [0..<8] ! k = 7 - k" if "k < 8" for k :: nat using that by (simp add: rev_nth)
  show "\<not> bit b j" if "8 - leading_zeros b \<le> j" "j < 8"
  proof -
    have "7 - j < leading_zeros b" using that by linarith
    then have "takeWhile ?p (rev [0..<8]) ! (7 - j) = j" "7 - j < length (takeWhile ?p (rev [0..<8]))"
      using that nth [of "7 - j"] by (simp_all add: takeWhile_nth leading_zeros_def)
    then show ?thesis by (metis (no_types, lifting) nth_mem set_takeWhileD)
  qed
  show "bit b (7 - leading_zeros b)" if "leading_zeros b < 8"
    using nth_length_takeWhile [of ?p "rev [0..<8]"] that nth [OF that] by (simp add: leading_zeros_def)
qed

lemma deserialize_bitseq_reads:
  assumes "v \<noteq> []" "length v < 2 ^ 60" "leading_zeros (last v) \<le> (if is_list then 7 else 8)"
  shows "deserialize_bitseq v is_list =
    Ok (map (test_bit v) [0..<(length v - 1) * 8 + ((if is_list then 7 else 8) - leading_zeros (last v))])"
proof -
  let ?m = "(length v - 1) * 8 + ((if is_list then 7 else 8) - leading_zeros (last v))"
  let ?n = "(len64 v - 1) * 8 + ((if is_list then 7 else 8) - of_nat (leading_zeros (last v)))"
  have l: "1 \<le> length v" using assms(1) by (cases v) simp_all
  have "?n = of_nat ?m" using l assms(3) by (simp add: len64_def of_nat_diff)
  moreover have le: "?m \<le> 8 * length v" using l by (cases v) (auto simp: diff_le_self intro: le_trans [OF diff_le_self])
  moreover have "8 * length v < 2 ^ 64" using assms(2) by simp
  ultimately have "unat ?n = ?m" by (simp only: unat_of_nat_u64 [OF le_less_trans])
  with le show ?thesis using bitseq_loop_reads [of ?n v 0 "[]"] assms(1) by (simp add: deserialize_bitseq_def)
qed

lemma serde_bitlist_roundtrip:
  assumes "length bits < 2 ^ 60"
  shows "deserialize_bitlist (serialize_bitlist bits) = Ok bits"
proof -
  let ?v = "bitlist_encode bits" and ?n = "length bits"
  note p = bitlist_encode_props [where bits = bits]
  have at: "bit (last ?v) j = (?n div 8 * 8 + j < ?n \<and> bits ! (?n div 8 * 8 + j) \<or> ?n div 8 * 8 + j = ?n)" if "j < 8" for j
    using p(3) [of "?n div 8 * 8 + j"] that p(1,2) by (simp add: last_conv_nth test_bit_alt)
  have "leading_zeros (last ?v) = 7 - ?n mod 8"
  proof (rule leading_zeros_top)
    show "bit (last ?v) (?n mod 8)" using at [of "?n mod 8"] by simp
    show "\<not> bit (last ?v) j" if "?n mod 8 < j" "j < 8" for j
      using at [OF that(2)] that(1) div_mult_mod_eq [of ?n 8] by linarith
  qed simp
  then have len: "(length ?v - 1) * 8 + (7 - leading_zeros (last ?v)) = ?n" "leading_zeros (last ?v) \<le> 7"
    using p(1) div_mult_mod_eq [of ?n 8] by simp_all
  have "length ?v < 2 ^ 60" using p(1) assms by simp
  then have "deserialize_bitlist ?v = Ok (map (test_bit ?v) [0..<?n])"
    using deserialize_bitseq_reads [of ?v True] p(2) len by (simp add: deserialize_bitlist_def)
  moreover have "map (test_bit ?v) [0..<?n] = bits"
    by (rule nth_equalityI) (simp_all add: p(3) div_le_mono)
  ultimately show ?thesis by (simp add: serialize_bitlist_ssz)
qed

lemma serde_bitvector_roundtrip:
  assumes "0 < length bits" "length bits < 2 ^ 60"
  shows "deserialize_bitvector (length bits) (serialize_bitvector bits) = Ok bits"
proof -
  let ?v = "bits_encode bits" and ?n = "length bits"
  let ?z = "leading_zeros (last ?v)"
  let ?m = "(length ?v - 1) * 8 + (8 - ?z)"
  have len: "length ?v = (?n + 7) div 8" by (rule length_bits_encode)
  have ar: "0 < q \<and> q \<le> n \<and> (q - 1) * 8 < n \<and> n \<le> 8 * q" if "0 < n" "8 * q \<le> n + 7" "n + 7 < 8 * q + 8" for n q :: nat
    using that by linarith
  have q: "8 * ((?n + 7) div 8) \<le> ?n + 7" "?n + 7 < 8 * ((?n + 7) div 8) + 8"
    using dividend_less_div_times [of 8 "?n + 7"] by simp_all
  have "0 < length ?v" using ar [OF assms(1) q] len by simp
  then have ne: "?v \<noteq> []" by simp
  have lv: "length ?v < 2 ^ 60" "(length ?v - 1) * 8 < ?n" "?n \<le> 8 * length ?v"
    using ar [OF assms(1) q] assms(2) unfolding len by linarith+
  have tb: "test_bit ?v i = (i < ?n \<and> bits ! i)" if "i < 8 * length ?v" for i
    using that set_bits_replicate(2) [of bits "(?n + 7) div 8" i] lv(3) len by (simp add: bits_encode_def less_mult_imp_div_less mult.commute)
  have last_bit: "bit (last ?v) j = test_bit ?v ((length ?v - 1) * 8 + j)" if "j < 8" for j
    using that ne by (simp add: test_bit_alt last_conv_nth)
  have top: "?m \<le> ?n"
  proof (cases "?z < 8")
    case True
    then have "test_bit ?v ((length ?v - 1) * 8 + (7 - ?z))" using leading_zeros_spec(3) [OF True] last_bit [of "7 - ?z"] by simp
    then have "(length ?v - 1) * 8 + (7 - ?z) < ?n" using tb [of "(length ?v - 1) * 8 + (7 - ?z)"] ne by (cases ?v) auto
    then show ?thesis using True by linarith
  qed (use lv(2) in simp)
  have zero: "\<not> bits ! i" if "?m \<le> i" "i < ?n" for i
  proof -
    have "\<not> bit (last ?v) (i - (length ?v - 1) * 8)"
      using that lv(3) by (intro leading_zeros_spec(2)) (auto simp: algebra_simps)
    then show ?thesis using that lv(3) last_bit [of "i - (length ?v - 1) * 8"] tb [of i] by (auto simp: algebra_simps)
  qed
  have "map (test_bit ?v) [0..<?m] @ replicate (?n - ?m) False = bits"
    using top zero tb lv(3) by (intro nth_equalityI) (auto simp: nth_append)
  moreover have "deserialize_bitseq ?v False = Ok (map (test_bit ?v) [0..<?m])"
    using deserialize_bitseq_reads [of ?v False] ne lv(1) leading_zeros_spec(1) by simp
  ultimately show ?thesis using top by (simp add: deserialize_bitvector_def serialize_bitvector_ssz Let_def)
qed

section \<open>Integers are read by their digits\<close>

definition digits_value :: "nat \<Rightarrow> nat \<Rightarrow> nat list \<Rightarrow> nat" where
  "digits_value radix = foldl (\<lambda>a d. a * radix + d)"

lemma digits_value_ge: "0 < radix \<Longrightarrow> acc \<le> digits_value radix acc ds"
proof (induction ds arbitrary: acc)
  case (Cons d ds)
  have "acc \<le> acc * radix + d" using Cons.prems by (cases radix) simp_all
  also have "\<dots> \<le> digits_value radix (acc * radix + d) ds" using Cons by blast
  finally show ?case by (simp add: digits_value_def)
qed (simp add: digits_value_def)

lemma parse_digits_value:
  assumes "map (to_digit radix) cs = map Some ds" "digits_value radix acc ds < 2 ^ 64" "0 < radix"
  shows "parse_digits radix cs acc = Ok (digits_value radix acc ds)"
  using assms(1,2)
proof (induction cs arbitrary: acc ds)
  case (Cons c cs)
  then obtain d ds' where ds: "ds = d # ds'" "to_digit radix c = Some d" "map (to_digit radix) cs = map Some ds'"
    by (cases ds) auto
  then have v: "digits_value radix acc ds = digits_value radix (acc * radix + d) ds'" by (simp add: digits_value_def)
  then have "acc * radix + d < 2 ^ 64" using digits_value_ge [OF assms(3), of "acc * radix + d" ds'] Cons.prems(2) by simp
  then show ?case using Cons.IH [OF ds(3), of "acc * radix + d"] Cons.prems(2) ds(2) v by simp
qed (simp add: digits_value_def)

lemma visit_str_hex:
  assumes "map (to_digit 16) cs = map Some ds" "digits_value 16 0 ds < 2 ^ 64" "cs \<noteq> []"
  shows "visit_str (''0x'' @ cs) = Ok (of_nat (digits_value 16 0 ds))"
proof -
  obtain c cs' d ds' where c: "cs = c # cs'" "ds = d # ds'" "to_digit 16 c = Some d" using assms(1,3) by (cases cs; cases ds) auto
  have "c \<noteq> CHR ''+''" using c(3) by (auto simp: to_digit_def)
  then have "from_str_radix 16 cs = Ok (of_nat (digits_value 16 0 ds))"
    using parse_digits_value [OF assms(1,2)] c(1) by (simp add: from_str_radix_def)
  then show ?thesis using c(1) by (simp add: visit_str_def)
qed

end
