(* ===== verification/Spec2Isabelle.thy ===== *)
theory Spec2Isabelle
  imports Generic_Rewards Builder BLS_Verification Casper_Pallet Network_Sync Serde
begin

text \<open>
  A verification development for shasper, an implementation in Rust of the beacon chain with a node around it.

  \<^bold>\<open>The program and its theories.\<close> Paths are relative to \<^verbatim>\<open>src/\<close>. A struct is a record, an enum a datatype, and a
  function or method one definition with the name of the source; a loop or closure that is modelled apart has a name of its
  own. Prelude has the machine integers as words, the outcomes of a computation (\<open>Ok\<close>, \<open>Err\<close>, \<open>Panic\<close> and
  \<open>Diverge\<close>), and the calculus for methods on \<^verbatim>\<open>&mut self\<close>: \<open>exec\<close> passes a state and keeps the changes
  made before an error, as the code does.

  \<^item> The state transition, crate \<^verbatim>\<open>beacon\<close>. Beacon_Types (\<^verbatim>\<open>primitives\<close>, \<^verbatim>\<open>types/\<close>, \<^verbatim>\<open>consts.rs\<close>, \<^verbatim>\<open>error.rs\<close>), Beacon_Config
    (\<^verbatim>\<open>config.rs\<close>), Beacon_Utils (\<^verbatim>\<open>utils/mod.rs\<close>), Beacon_Accessors and Beacon_Mutators (\<^verbatim>\<open>executive/helpers\<close>,
    \<^verbatim>\<open>assignment.rs\<close>, \<^verbatim>\<open>choice.rs\<close>), Casper_Justifier (\<^verbatim>\<open>components/justification.rs\<close>), Epoch_Processing
    (\<^verbatim>\<open>transition/per_epoch\<close> and the executive as a registry), Generic_Rewards (\<^verbatim>\<open>components/reward.rs\<close>), Block_Processing
    (\<^verbatim>\<open>transition/per_block\<close>), State_Transition (\<^verbatim>\<open>transition/mod.rs\<close>, \<^verbatim>\<open>lib.rs\<close>, \<^verbatim>\<open>genesis.rs\<close>), Block_Authoring
    (the functions of \<^verbatim>\<open>lib.rs\<close> that build a block, compared with those that execute one) and Serde (\<^verbatim>\<open>utils/serde.rs\<close>).
  \<^item> Encodings. SSZ is the crate \<^verbatim>\<open>utils/ssz\<close> and its derive macros, SSZ_Types the codecs of the data types.
  \<^item> The node, \<^verbatim>\<open>blockchain\<close>. LMD_Ghost (\<^verbatim>\<open>lmd-ghost\<close>: votes, head and import), Rocks_Backend (\<^verbatim>\<open>common/rocksdb\<close>: the
    store), Node (\<^verbatim>\<open>runtime\<close>, \<^verbatim>\<open>src/lib.rs\<close>, \<^verbatim>\<open>backend.rs\<close>, \<^verbatim>\<open>pool.rs\<close>), Deposit_Tree (the genesis of \<^verbatim>\<open>main.rs\<close>), BLS_Verification
    (\<^verbatim>\<open>crypto\<close>) and Builder (\<^verbatim>\<open>builder_thread\<close> of \<^verbatim>\<open>main.rs\<close>).
  \<^item> The network. Network_Messages (\<^verbatim>\<open>network/messages\<close>), RPC_Handler (\<^verbatim>\<open>common/libp2p-rpc\<close>), Discovery (\<^verbatim>\<open>discovery.rs\<close>),
    Network_Sync (\<^verbatim>\<open>handler.rs\<close>, \<^verbatim>\<open>behaviour.rs\<close> and the event loop of \<^verbatim>\<open>lib.rs\<close>).
  \<^item> Casper_Pallet is the finality pallet for substrate (\<^verbatim>\<open>casper/pallet\<close>) and the import that follows it (\<^verbatim>\<open>casper/consensus\<close>).

  They interact as follows. The builder reads the head of the store, builds a block on its state and hands it to the
  importer; the network hands blocks it gets to the same importer. The importer runs the executor, that is the state
  transition, on the stored state of the parent, puts block and state into a settlement of the store, adds the votes of the
  block to the fork choice, and commits the settlement with the new head. The genesis is the first block.

  \<^bold>\<open>What is shown.\<close>

  \<^item> \<^emph>\<open>Invariants of the chain.\<close> The locales \<open>mutator_invariant\<close>, \<open>registry_invariant\<close>, \<open>operations_invariant\<close>,
    \<open>block_invariant\<close>, \<open>epoch_invariant\<close> and \<open>chain_invariant\<close> reduce an invariant of the transition to the few
    primitive changes of the state. They are interpreted for the sizes of the vectors, the life of validator records, whole
    effective balances, distinct keys, and the frames other proofs need. With them, states of a chain from genesis
    stay well-formed and finality never moves back.
  \<^item> \<^emph>\<open>Finality.\<close> For every reachable justifier a finalized checkpoint other than genesis and one of the next epoch had two
    thirds of the balance, as long as the balances do not overflow the comparison; two such epochs finalize. From its second
    session on the pallet refines the justifier except for the first justification bit, which it does not clear.
  \<^item> \<^emph>\<open>Functional behaviour.\<close> Shuffle, committees, proposer, square root, exits, slashings, deposits, rewards in both
    versions, registry and final updates, and block roots of skipped slots.
  \<^item> \<^emph>\<open>Authoring.\<close> A block that is built is accepted exactly if it has the number of deposits that the importer demands, so
    is the one that the builder makes from pool and own keys. The parent root of a block in a later slot than its parent
    is the identifier under which the parent is stored.
  \<^item> \<^emph>\<open>Fork choice and store.\<close> Votes refine a vote book; settlements refine updates of maps. The locale
    \<open>chain_store\<close> is what the fork choice needs of a store. It is interpreted on the RocksDB store and on the node's
    wrapper, so that the fork choice returns on every database the node can build: with the
    head if justified block and votes are stored there, and else with an error or with a justified leaf.
  \<^item> \<^emph>\<open>Encodings.\<close> The locales \<open>codec_law\<close> and \<open>fields_law\<close> give round trips for every codec from those of its parts.
  \<^item> \<^emph>\<open>Network.\<close> Every request is answered at most once however calls interleave; what is sent is what arrives; and
    where this fails (responses with blocks, the request for blocks, substreams that fail to open, a full peer
    table) the theorems say so.
\<close>

text \<open>
  \<^bold>\<open>Parameters.\<close> Code of other packages is an argument of the definitions. What is relied on is a named hypothesis.

  \<^item> \<open>Hashing\<close> in the configuration: digests and tree roots. \<open>digest_ok\<close> says that a digest has 32 bytes, \<open>branch_law\<close> that
    concatenated pairs are hashed upwards. \<open>config_ok\<close> holds what the three configurations of the crate have in common.
  \<^item> \<open>BLSConfig\<close>, \<open>BlsCrate\<close> and \<open>Secrets\<close>: signatures. \<open>bls_law\<close> says that own signatures verify after encoding.
  \<^item> \<open>RocksDB\<close> and \<open>Coding\<close>: rows that enter a batch, atomic batches (\<open>rocksdb_law\<close>) and encodings that decode (\<open>coding_ok\<close>).
  \<^item> \<open>ChainQuery\<close>: the interface of the fork choice to a store, always given by the model of the store.
  \<^item> \<open>Runtime\<close> and \<open>Client\<close> for the pallet; \<open>Uvi\<close> with \<open>uvi_law\<close> for length-prefixed frames; \<open>Libp2p\<close> with
    \<open>timer_law\<close> for timers and discv5; \<open>Readiness\<close> for the clock and what polling a substream gives, panics of its codec included.

  Each such hypothesis is discharged for a concrete function where a theorem is applied to an example.

  \<^bold>\<open>Integers, loops and fuel.\<close> Arithmetic wraps at its width, as in a release build; divisions by values that may be zero, and
  indices out of range, panic. Lengths are natural numbers with bounds as hypotheses where a cast to \<^verbatim>\<open>u64\<close> matters.
  There is no fuel. Loops that end are structural or have a termination proof; the loops that may not end (the search for
  a proposer, for an ancestor and for the head, lists of elements of size zero, the loops over frames, over slots of the store
  and over events of the discovery) are partial functions, where not returning is \<open>None\<close> or \<open>Diverge\<close>. That they return is
  shown where it holds, and that a full peer table keeps the poll of the discovery from returning is shown too.

  \<^bold>\<open>Not modelled.\<close>

  \<^item> Set-up of the network (\<^verbatim>\<open>network/src/service.rs\<close>, \<^verbatim>\<open>config.rs\<close>, \<^verbatim>\<open>error.rs\<close>, \<^verbatim>\<open>rpc.rs\<close>), the upgrade of sockets
    (\<^verbatim>\<open>libp2p-rpc/src/protocol.rs\<close>) and the ping and identify protocols: calls into libp2p and tokio without decisions of
    their own. In the discovery, reading the own record and the boot nodes.
  \<^item> The command line (\<^verbatim>\<open>main.rs\<close> outside genesis and builder, \<^verbatim>\<open>preset.rs\<close>): argument parsing, files and threads. Threads appear as
    one pass of their loop; locks, sleeping and logging have no counterpart.
  \<^item> The codecs of structs that are only hashed, since tree hashing is a parameter; the instances for serde, parity-codec
    and Merkle trees that macros generate (\<^verbatim>\<open>primitives/src/macros.rs\<close>); the declarations in \<^verbatim>\<open>casper/primitives\<close>.
  \<^item> The test harness \<^verbatim>\<open>yamltests\<close>, the WebAssembly exports \<^verbatim>\<open>beacon/wasm\<close>, and the wrapper \<^verbatim>\<open>keccak-hasher\<close>.
\<close>

section \<open>Chains of blocks\<close>

text \<open>
  The blocks of a chain, the last one first, with the state they lead to: the genesis block, and blocks that the
  executor accepts on it.
\<close>

inductive block_chain :: "Config \<Rightarrow> BLSConfig \<Rightarrow> BeaconBlock list \<Rightarrow> BeaconState \<Rightarrow> bool" for C BLS where
  chain_genesis: "genesis C BLS ds time eth1 = Ok (b, s) \<Longrightarrow> block_chain C BLS [b] s"
| chain_block: "block_chain C BLS (b # bs) s \<Longrightarrow> executor_execute C BLS c s = Ok t \<Longrightarrow> block_chain C BLS (c # b # bs) t"

lemma executor_execute_Ok: "executor_execute C BLS b s = Ok t \<longleftrightarrow> execute_block C BLS b s = (Ok (), t)"
  by (simp add: executor_execute_def map_err_eq_Ok run_local_Ok)

lemma chain_top_parent:
  assumes "block_chain C BLS bs s" "executor_execute C BLS c s = Ok t" "bb_state_root (bs ! 0) \<noteq> H256_default"
  shows "bb_parent_root c = beacon_block_id C
    (if bb_slot c = bb_slot (bs ! 0) then (bs ! 0)\<lparr>bb_state_root := H256_default\<rparr> else bs ! 0)"
  using assms
proof (cases rule: block_chain.cases)
  case (chain_genesis ds time eth1 b)
  then show ?thesis using genesis_parent [of C BLS ds time eth1 b s c t] assms(2,3) by (simp add: executor_execute_Ok)
next
  case (chain_block b bs' s' b')
  then show ?thesis
    using executed_parent [of C BLS b' s' s c t] executed_same_slot [of C BLS b' s' s c t] assms(2,3)
    by (auto simp: executor_execute_Ok)
qed

section \<open>Properties\<close>

text \<open>
  C16: The links of the store agree with the state transition: along every chain of executed blocks from genesis on, if no
  state root is the all-zero default, the parent root of a block in another slot than the block before it is the
  identifier under which that block is stored. The executor also accepts a block in the slot of the block before it;
  its parent root is the identifier that block would have with the default state root.
\<close>

theorem chain_parent_ids:
  assumes "block_chain C BLS bs s" "\<forall>b\<in>set bs. bb_state_root b \<noteq> H256_default" "Suc i < length bs"
  shows "bb_parent_root (bs ! i) = beacon_block_id C
    (if bb_slot (bs ! i) = bb_slot (bs ! Suc i) then (bs ! Suc i)\<lparr>bb_state_root := H256_default\<rparr> else bs ! Suc i)"
  using assms
proof (induction arbitrary: i)
  case (chain_block b bs s c t)
  then show ?case using chain_top_parent [OF chain_block.hyps(1,2)] by (cases i) auto
qed simp

theorem chain_parent_ids_witness:
  "\<exists>b. block_chain (MinimalConfig toy_hashing) BLSNoVerification [sample_block 0 1, b] sample_head \<and>
     bb_parent_root (sample_block 0 1) = beacon_block_id (MinimalConfig toy_hashing) b"
proof -
  let ?C = "MinimalConfig toy_hashing"
  let ?b = "BeaconBlock_default\<lparr>bb_state_root := root_state (hashing ?C) sample_genesis\<rparr>"
  have "genesis ?C BLSNoVerification (map genesis_deposit [1, 2, 3]) 0 sample_eth1 = Ok (?b, sample_genesis)"
    by (simp only: genesis_def sample_genesis_Ok rbind.simps)
  then have chain: "block_chain ?C BLSNoVerification [sample_block 0 1, ?b] sample_head"
    using sample_head_Ok
    by (intro chain_block [OF chain_genesis]) (simp_all add: executor_execute_Ok sample_block_def BeaconBlock_default_def)
  moreover have "bb_state_root (sample_block 0 1) \<noteq> H256_default" "to_bytes 1 \<noteq> H256_default" by code_simp+
  moreover have "root_state (hashing ?C) sample_genesis = to_bytes 1"
    by (simp add: sample_genesis_slot toy_hashing_def MinimalConfig_def)
  moreover have "bb_slot (sample_block 0 1) \<noteq> bb_slot ?b" by (simp add: sample_block_def BeaconBlock_default_def)
  ultimately show ?thesis using chain_parent_ids [OF chain, of 0] by (intro exI [of _ ?b]) simp
qed

end
